(* ===== verification/GoPrelude.thy ===== *)
theory GoPrelude
  imports Main "HOL-Library.Word" "HOL-Library.State_Monad" "HOL-Library.Sublist"
begin

text \<open>
  The shared vocabulary of the development: Go's machine integers and byte slices, the little-endian
  layout of \<^verbatim>\<open>encoding/binary\<close>, decimal formatting as \<^verbatim>\<open>fmt\<close> does it for
  \<^verbatim>\<open>%d\<close>, Go's \<^verbatim>\<open>error\<close> values with wrapping, and the generic lemmas on lists, bytes
  and state-monad programs that the component theories share.
\<close>

unbundle bit_operations_syntax

named_theorems wire_code \<open>message code constants\<close>
named_theorems wire_simps \<open>what an encoder appends to a buffer\<close>
named_theorems reads_intros \<open>composition rules for decoders\<close>
named_theorems inert_intros \<open>operations that do nothing after an error\<close>

section \<open>Machine integers and byte slices\<close>

type_synonym byte = "8 word"
type_synonym u32 = "32 word"
type_synonym u64 = "64 word"
type_synonym i64 = "64 word" \<comment> \<open>Go's \<open>int64\<close>: read with \<open>sint\<close>, compared with \<open><s\<close>\<close>

text \<open>
  \<^verbatim>\<open>binary.LittleEndian\<close>: byte \<open>i\<close> of the encoding is \<open>byte(v >> (8*i))\<close>; decoding ors the shifted bytes
  together.
\<close>

fun le_bytes :: "nat \<Rightarrow> 'a::len word \<Rightarrow> byte list" where
  "le_bytes 0 v = []"
| "le_bytes (Suc n) v = ucast v # le_bytes n (drop_bit 8 v)"

fun from_le :: "byte list \<Rightarrow> 'a::len word" where
  "from_le [] = 0"
| "from_le (b # bs) = ucast b OR push_bit 8 (from_le bs)"

lemma length_le_bytes [simp]: "length (le_bytes n v) = n"
  by (induction n arbitrary: v) simp_all

lemma le_bytes_eq_Nil [simp]: "le_bytes n v = [] \<longleftrightarrow> n = 0"
  by (cases n) simp_all

lemma from_le_le_bytes: "from_le (le_bytes n (v :: 'a::len word)) = take_bit (8 * n) v"
proof (induction n arbitrary: v)
  case 0
  then show ?case by simp
next
  case (Suc n)
  have "bit (ucast (ucast v :: byte) OR push_bit 8 (take_bit (8 * n) (drop_bit 8 v))) i
      = bit (take_bit (8 * Suc n) v) i" if "i < LENGTH('a)" for i
    using that by (cases "i < 8") (auto simp: bit_simps)
  then have "ucast (ucast v :: byte) OR push_bit 8 (take_bit (8 * n) (drop_bit 8 v))
      = take_bit (8 * Suc n) v"
    by (rule bit_word_eqI)
  then show ?case by (simp add: Suc.IH)
qed

lemma from_le_le_bytes_32 [simp]: "from_le (le_bytes 4 v) = (v :: u32)"
  by (simp add: from_le_le_bytes take_bit_word_eq_self)

lemma from_le_le_bytes_64 [simp]: "from_le (le_bytes 8 v) = (v :: u64)"
  by (simp add: from_le_le_bytes take_bit_word_eq_self)

lemma le_bytes_8 [simp]: "le_bytes (Suc 0) v = [v :: byte]"
  by simp

lemma from_le_8 [simp]: "from_le [v] = (v :: byte)"
  by simp

text \<open>Evaluation of the 4-byte layout on numerals.\<close>

lemma le_bytes_4: "le_bytes 4 v = [ucast v, ucast (drop_bit 8 v), ucast (drop_bit 16 v), ucast (drop_bit 24 v)]"
  by (simp add: numeral_eq_Suc drop_bit_drop_bit)

lemma le_bytes_from_le:
  "8 * length bs \<le> LENGTH('a) \<Longrightarrow> le_bytes (length bs) (from_le bs :: 'a::len word) = bs"
proof (induction bs)
  case Nil
  then show ?case by simp
next
  case (Cons b bs)
  have "bit (ucast (ucast b OR push_bit 8 (from_le bs) :: 'a word) :: byte) i = bit b i"
    if "i < 8" for i
    using that Cons.prems by (auto simp: bit_simps)
  then have hd: "ucast (ucast b OR push_bit 8 (from_le bs) :: 'a word) = b"
    by (intro bit_word_eqI) simp
  have "le_bytes (length bs) (drop_bit 8 (ucast b OR push_bit 8 (from_le bs) :: 'a word)) =
        le_bytes (length bs) (take_bit (LENGTH('a) - 8) (from_le bs :: 'a word))"
    by (rule arg_cong [where f = "le_bytes (length bs)"], rule bit_word_eqI)
      (auto simp: bit_simps dest: bit_imp_le_length)
  also have "\<dots> = le_bytes (length bs) (from_le bs :: 'a word)"
  proof -
    have "le_bytes n (take_bit m v) = le_bytes n v" if "8 * n \<le> m" for n m and v :: "'a word"
      using that
    proof (induction n arbitrary: m v)
      case (Suc n)
      have "ucast (take_bit m v) = (ucast v :: byte)"
        using Suc.prems by (intro bit_word_eqI) (auto simp: bit_simps)
      moreover have "drop_bit 8 (take_bit m v) = take_bit (m - 8) (drop_bit 8 v)"
        by (simp add: drop_bit_take_bit)
      ultimately show ?case using Suc.IH [of "m - 8" "drop_bit 8 v"] Suc.prems by simp
    qed simp
    with Cons.prems show ?thesis by simp
  qed
  also have "\<dots> = bs" using Cons by simp
  finally show ?case by (simp add: hd)
qed

section \<open>Strings\<close>

text \<open>
  A Go string is an immutable byte sequence; HOL's \<open>char\<close> is a byte, so a \<open>string\<close> is one too.
  \<^verbatim>\<open>[]byte(s)\<close> and \<^verbatim>\<open>string(b)\<close> are the two conversions.
\<close>

definition byte_of_char :: "char \<Rightarrow> byte" where
  "byte_of_char c = word_of_nat (of_char c)"

definition char_of_byte :: "byte \<Rightarrow> char" where
  "char_of_byte b = char_of (unat b)"

definition bytes_of_string :: "string \<Rightarrow> byte list" where
  "bytes_of_string s = map byte_of_char s"

definition string_of_bytes :: "byte list \<Rightarrow> string" where
  "string_of_bytes bs = map char_of_byte bs"

lemma char_of_byte_of_char [simp]: "char_of_byte (byte_of_char c) = c"
proof -
  have "(of_char c :: nat) < 256"
    by (metis mod_less_divisor of_char_mod_256 zero_less_numeral)
  then show ?thesis by (simp add: byte_of_char_def char_of_byte_def unat_of_nat)
qed

lemma byte_of_char_of_byte [simp]: "byte_of_char (char_of_byte b) = b"
proof -
  have "unat b < 2 ^ LENGTH(8)" by (rule unsigned_less)
  then show ?thesis by (simp add: byte_of_char_def char_of_byte_def)
qed

lemma string_of_bytes_of_string [simp]: "string_of_bytes (bytes_of_string s) = s"
  by (simp add: bytes_of_string_def string_of_bytes_def comp_def)

lemma bytes_of_string_of_bytes [simp]: "bytes_of_string (string_of_bytes bs) = bs"
  by (simp add: bytes_of_string_def string_of_bytes_def comp_def)

lemma length_bytes_of_string [simp]: "length (bytes_of_string s) = length s"
  by (simp add: bytes_of_string_def)

lemma length_string_of_bytes [simp]: "length (string_of_bytes s) = length s"
  by (simp add: string_of_bytes_def)

text \<open>Decimal rendering of a natural number: what \<^verbatim>\<open>fmt\<close>'s \<^verbatim>\<open>%d\<close> prints for an unsigned value.\<close>

definition digit_char :: "nat \<Rightarrow> char" where
  "digit_char d = char_of (48 + d)"

fun decimal :: "nat \<Rightarrow> string" where
  "decimal n = (if n < 10 then [digit_char n] else decimal (n div 10) @ [digit_char (n mod 10)])"

declare decimal.simps [simp del]

lemma digit_char_simps [simp]:
  "digit_char 0 = CHR ''0''" "digit_char (Suc 0) = CHR ''1''" "digit_char 2 = CHR ''2''"
  "digit_char 3 = CHR ''3''" "digit_char 4 = CHR ''4''" "digit_char 5 = CHR ''5''"
  "digit_char 6 = CHR ''6''" "digit_char 7 = CHR ''7''" "digit_char 8 = CHR ''8''"
  "digit_char 9 = CHR ''9''"
  by code_simp+

definition decimal_int :: "int \<Rightarrow> string" where
  "decimal_int i = (if i < 0 then ''-'' @ decimal (nat (- i)) else decimal (nat i))"

lemma digit_char_inj: "d < 10 \<Longrightarrow> e < 10 \<Longrightarrow> digit_char d = digit_char e \<Longrightarrow> d = e"
proof -
  assume "d < 10" "e < 10" "digit_char d = digit_char e"
  then have "(of_char (char_of (48 + d)) :: nat) = of_char (char_of (48 + e))"
    by (simp add: digit_char_def)
  then show "d = e" using \<open>d < 10\<close> \<open>e < 10\<close> by simp
qed

lemma decimal_not_Nil [simp]: "decimal n \<noteq> []"
  by (subst decimal.simps) simp

lemma decimal_eq_iff [simp]: "decimal m = decimal n \<longleftrightarrow> m = n"
proof
  show "decimal m = decimal n \<Longrightarrow> m = n"
  proof (induction m arbitrary: n rule: decimal.induct)
    case (1 m)
    show ?case
    proof (cases "m < 10 \<or> n < 10")
      case True
      with 1(2) have "m < 10" "n < 10"
        using decimal_not_Nil [of "m div 10"] decimal_not_Nil [of "n div 10"]
        by (auto simp: decimal.simps [of m] decimal.simps [of n] Cons_eq_append_conv
            append_eq_Cons_conv simp del: decimal_not_Nil split: if_splits)
      with 1(2) show ?thesis
        by (simp add: decimal.simps [of m] decimal.simps [of n] digit_char_inj)
    next
      case False
      with 1(2) have "decimal (m div 10) = decimal (n div 10)"
        and "digit_char (m mod 10) = digit_char (n mod 10)"
        by (simp_all add: decimal.simps [of m] decimal.simps [of n])
      with 1(1) False have "m div 10 = n div 10" and "m mod 10 = n mod 10"
        by (auto intro: digit_char_inj)
      then show ?thesis by (metis div_mult_mod_eq)
    qed
  qed
qed simp

lemma colon_not_digit: "d < 10 \<Longrightarrow> digit_char d \<noteq> CHR '':''"
proof
  assume "d < 10" "digit_char d = CHR '':''"
  then have "(of_char (char_of (48 + d)) :: nat) = of_char (CHR '':'')"
    by (simp add: digit_char_def)
  then show False using \<open>d < 10\<close> by simp
qed

lemma colon_notin_decimal [simp]: "CHR '':'' \<notin> set (decimal n)"
proof (induction n rule: decimal.induct)
  case (1 n)
  then show ?case
    using colon_not_digit [of n] colon_not_digit [of "n mod 10"]
    by (subst decimal.simps) (auto simp del: One_nat_def)
qed

text \<open>Splitting a string at its first, or last, occurrence of a separator is unique.\<close>

lemma append_sep_inj:
  assumes "c \<notin> set xs" "c \<notin> set ys" "xs @ c # us = ys @ c # vs"
  shows "xs = ys \<and> us = vs"
proof -
  have "takeWhile (\<lambda>x. x \<noteq> c) (xs @ c # us) = xs" "takeWhile (\<lambda>x. x \<noteq> c) (ys @ c # vs) = ys"
    using assms(1,2) by (simp_all add: takeWhile_append)
  with assms(3) show ?thesis by simp
qed

lemma append_sep_inj_last:
  assumes "c \<notin> set us" "c \<notin> set vs" "xs @ c # us = ys @ c # vs"
  shows "xs = ys \<and> us = vs"
proof -
  have "rev us @ c # rev xs = rev vs @ c # rev ys"
    using assms(3) by (metis append.assoc append_Cons append_Nil rev.simps(2) rev_append)
  with append_sep_inj [of c "rev us" "rev vs" "rev xs" "rev ys"] assms(1,2) show ?thesis by simp
qed

lemma unat_length_u32: "n < 2 ^ 32 \<Longrightarrow> unat (word_of_nat n :: u32) = n"
  by (simp add: unat_of_nat)

end
