(* ===== verification/Codes.thy ===== *)
theory Codes
  imports GoPrelude
begin

text \<open>
  The message codes of \<^verbatim>\<open>src/protocol/codes.go\<close>. Server and peer codes are 32-bit on the wire,
  distributed and initialisation codes one byte; the Go types \<^verbatim>\<open>ServerCode\<close>, \<^verbatim>\<open>PeerCode\<close>,
  \<^verbatim>\<open>DistributedCode\<close> and \<^verbatim>\<open>InitCode\<close> are named integer types, so each code is a word constant.
  The lemmas at the end are what every dispatch on a code relies on: within a family no two codes
  are equal.
\<close>

section \<open>Server message codes\<close>

type_synonym ServerCode = u32

definition ServerLogin :: ServerCode where [wire_code]: "ServerLogin = 1"
definition ServerSetListenPort :: ServerCode where [wire_code]: "ServerSetListenPort = 2"
definition ServerGetPeerAddress :: ServerCode where [wire_code]: "ServerGetPeerAddress = 3"
definition ServerWatchUser :: ServerCode where [wire_code]: "ServerWatchUser = 5"
definition ServerUnwatchUser :: ServerCode where [wire_code]: "ServerUnwatchUser = 6"
definition ServerGetStatus :: ServerCode where [wire_code]: "ServerGetStatus = 7"
definition ServerSayInChatRoom :: ServerCode where [wire_code]: "ServerSayInChatRoom = 13"
definition ServerJoinRoom :: ServerCode where [wire_code]: "ServerJoinRoom = 14"
definition ServerLeaveRoom :: ServerCode where [wire_code]: "ServerLeaveRoom = 15"
definition ServerUserJoinedRoom :: ServerCode where [wire_code]: "ServerUserJoinedRoom = 16"
definition ServerUserLeftRoom :: ServerCode where [wire_code]: "ServerUserLeftRoom = 17"
definition ServerConnectToPeer :: ServerCode where [wire_code]: "ServerConnectToPeer = 18"
definition ServerPrivateMessage :: ServerCode where [wire_code]: "ServerPrivateMessage = 22"
definition ServerAcknowledgePrivateMsg :: ServerCode where [wire_code]: "ServerAcknowledgePrivateMsg = 23"
definition ServerFileSearch :: ServerCode where [wire_code]: "ServerFileSearch = 26"
definition ServerSetOnlineStatus :: ServerCode where [wire_code]: "ServerSetOnlineStatus = 28"
definition ServerPing :: ServerCode where [wire_code]: "ServerPing = 32"
definition ServerSendSpeed :: ServerCode where [wire_code]: "ServerSendSpeed = 34"
definition ServerSharedFoldersAndFiles :: ServerCode where [wire_code]: "ServerSharedFoldersAndFiles = 35"
definition ServerGetUserStats :: ServerCode where [wire_code]: "ServerGetUserStats = 36"
definition ServerKickedFromServer :: ServerCode where [wire_code]: "ServerKickedFromServer = 41"
definition ServerUserSearch :: ServerCode where [wire_code]: "ServerUserSearch = 42"
definition ServerRoomList :: ServerCode where [wire_code]: "ServerRoomList = 64"
definition ServerGlobalAdminMessage :: ServerCode where [wire_code]: "ServerGlobalAdminMessage = 66"
definition ServerPrivilegedUsers :: ServerCode where [wire_code]: "ServerPrivilegedUsers = 69"
definition ServerHaveNoParents :: ServerCode where [wire_code]: "ServerHaveNoParents = 71"
definition ServerParentsIP :: ServerCode where [wire_code]: "ServerParentsIP = 73"
definition ServerCheckPrivileges :: ServerCode where [wire_code]: "ServerCheckPrivileges = 92"
definition ServerEmbeddedMessage :: ServerCode where [wire_code]: "ServerEmbeddedMessage = 93"
definition ServerAcceptChildren :: ServerCode where [wire_code]: "ServerAcceptChildren = 100"
definition ServerNetInfo :: ServerCode where [wire_code]: "ServerNetInfo = 102"
definition ServerWishlistSearch :: ServerCode where [wire_code]: "ServerWishlistSearch = 103"
definition ServerRoomTickers :: ServerCode where [wire_code]: "ServerRoomTickers = 113"
definition ServerRoomSearch :: ServerCode where [wire_code]: "ServerRoomSearch = 120"
definition ServerSendUploadSpeed :: ServerCode where [wire_code]: "ServerSendUploadSpeed = 121"
definition ServerUserPrivileges :: ServerCode where [wire_code]: "ServerUserPrivileges = 122"
definition ServerGivePrivileges :: ServerCode where [wire_code]: "ServerGivePrivileges = 123"
definition ServerNotifyPrivileges :: ServerCode where [wire_code]: "ServerNotifyPrivileges = 124"
definition ServerBranchLevel :: ServerCode where [wire_code]: "ServerBranchLevel = 126"
definition ServerBranchRoot :: ServerCode where [wire_code]: "ServerBranchRoot = 127"
definition ServerChildDepth :: ServerCode where [wire_code]: "ServerChildDepth = 129"
definition ServerDistributedReset :: ServerCode where [wire_code]: "ServerDistributedReset = 130"
definition ServerPrivateRoomUsers :: ServerCode where [wire_code]: "ServerPrivateRoomUsers = 133"
definition ServerPrivateRoomAddUser :: ServerCode where [wire_code]: "ServerPrivateRoomAddUser = 134"
definition ServerPrivateRoomRemoveUser :: ServerCode where [wire_code]: "ServerPrivateRoomRemoveUser = 135"
definition ServerPrivateRoomToggle :: ServerCode where [wire_code]: "ServerPrivateRoomToggle = 141"
definition ServerNewPassword :: ServerCode where [wire_code]: "ServerNewPassword = 142"
definition ServerPrivateRoomAddOperator :: ServerCode where [wire_code]: "ServerPrivateRoomAddOperator = 143"
definition ServerPublicChat :: ServerCode where [wire_code]: "ServerPublicChat = 152"
definition ServerCannotConnect :: ServerCode where [wire_code]: "ServerCannotConnect = 1001"
section \<open>Peer message codes\<close>

type_synonym PeerCode = u32

definition PeerBrowseRequest :: PeerCode where [wire_code]: "PeerBrowseRequest = 4"
definition PeerBrowseResponse :: PeerCode where [wire_code]: "PeerBrowseResponse = 5"
definition PeerSearchResponse :: PeerCode where [wire_code]: "PeerSearchResponse = 9"
definition PeerInfoRequest :: PeerCode where [wire_code]: "PeerInfoRequest = 15"
definition PeerInfoResponse :: PeerCode where [wire_code]: "PeerInfoResponse = 16"
definition PeerFolderContentsRequest :: PeerCode where [wire_code]: "PeerFolderContentsRequest = 36"
definition PeerFolderContentsResp :: PeerCode where [wire_code]: "PeerFolderContentsResp = 37"
definition PeerTransferRequest :: PeerCode where [wire_code]: "PeerTransferRequest = 40"
definition PeerTransferResponse :: PeerCode where [wire_code]: "PeerTransferResponse = 41"
definition PeerQueueDownload :: PeerCode where [wire_code]: "PeerQueueDownload = 43"
definition PeerPlaceInQueueResponse :: PeerCode where [wire_code]: "PeerPlaceInQueueResponse = 44"
definition PeerUploadFailed :: PeerCode where [wire_code]: "PeerUploadFailed = 46"
definition PeerUploadDenied :: PeerCode where [wire_code]: "PeerUploadDenied = 50"
definition PeerPlaceInQueueRequest :: PeerCode where [wire_code]: "PeerPlaceInQueueRequest = 51"
section \<open>Distributed network codes\<close>

type_synonym DistributedCode = byte

definition DistributedPing :: DistributedCode where [wire_code]: "DistributedPing = 0"
definition DistributedSearchRequest :: DistributedCode where [wire_code]: "DistributedSearchRequest = 3"
definition DistributedBranchLevel :: DistributedCode where [wire_code]: "DistributedBranchLevel = 4"
definition DistributedBranchRoot :: DistributedCode where [wire_code]: "DistributedBranchRoot = 5"
definition DistributedChildDepth :: DistributedCode where [wire_code]: "DistributedChildDepth = 7"
definition DistributedEmbeddedMessage :: DistributedCode where [wire_code]: "DistributedEmbeddedMessage = 93"
section \<open>Connection initialisation codes\<close>

type_synonym InitCode = byte

definition InitPierceFirewall :: InitCode where [wire_code]: "InitPierceFirewall = 0"
definition InitPeerInit :: InitCode where [wire_code]: "InitPeerInit = 1"

section \<open>The families\<close>

definition server_codes :: "ServerCode list" where
  "server_codes = [
    ServerLogin, ServerSetListenPort, ServerGetPeerAddress, ServerWatchUser, ServerUnwatchUser,
    ServerGetStatus, ServerSayInChatRoom, ServerJoinRoom, ServerLeaveRoom,
    ServerUserJoinedRoom, ServerUserLeftRoom, ServerConnectToPeer, ServerPrivateMessage,
    ServerAcknowledgePrivateMsg, ServerFileSearch, ServerSetOnlineStatus, ServerPing,
    ServerSendSpeed, ServerSharedFoldersAndFiles, ServerGetUserStats, ServerKickedFromServer,
    ServerUserSearch, ServerRoomList, ServerGlobalAdminMessage, ServerPrivilegedUsers,
    ServerHaveNoParents, ServerParentsIP, ServerCheckPrivileges, ServerEmbeddedMessage,
    ServerAcceptChildren, ServerNetInfo, ServerWishlistSearch, ServerRoomTickers,
    ServerRoomSearch, ServerSendUploadSpeed, ServerUserPrivileges, ServerGivePrivileges,
    ServerNotifyPrivileges, ServerBranchLevel, ServerBranchRoot, ServerChildDepth,
    ServerDistributedReset, ServerPrivateRoomUsers, ServerPrivateRoomAddUser,
    ServerPrivateRoomRemoveUser, ServerPrivateRoomToggle, ServerNewPassword,
    ServerPrivateRoomAddOperator, ServerPublicChat, ServerCannotConnect]"

definition peer_codes :: "PeerCode list" where
  "peer_codes = [
    PeerBrowseRequest, PeerBrowseResponse, PeerSearchResponse, PeerInfoRequest,
    PeerInfoResponse, PeerFolderContentsRequest, PeerFolderContentsResp, PeerTransferRequest,
    PeerTransferResponse, PeerQueueDownload, PeerPlaceInQueueResponse, PeerUploadFailed,
    PeerUploadDenied, PeerPlaceInQueueRequest]"

lemma distinct_server_codes: "distinct server_codes"
  by (simp add: server_codes_def wire_code)

lemma distinct_peer_codes: "distinct peer_codes"
  by (simp add: peer_codes_def wire_code)

end
