(* ===== verification/Errors.thy ===== *)
theory Errors
  imports GoPrelude
begin

text \<open>
  Go's \<^verbatim>\<open>error\<close> values: the sentinels of the standard library that the client distinguishes, the
  typed errors of \<^verbatim>\<open>src/client/transfer_errors.go\<close>, \<^verbatim>\<open>fmt.Errorf("...: %w", err)\<close> (one
  \<open>WrapError\<close> layer per call) and \<^verbatim>\<open>errors.Join\<close>. \<open>Unwrap\<close>, \<open>errors_Is\<close> and the two
  \<open>errors_As\<close> searches walk that tree as the \<^verbatim>\<open>errors\<close> package does.
\<close>

section \<open>Error values\<close>

datatype go_error =
    EOF
  | ErrUnexpectedEOF
  | Canceled
  | DeadlineExceeded
  | ErrorString string \<comment> \<open>\<open>errors.New\<close>, or \<open>fmt.Errorf\<close> without \<open>%w\<close>\<close>
  | OSError string \<comment> \<open>a network or file-system error of the operating system\<close>
  | WrapError string go_error \<comment> \<open>\<open>fmt.Errorf("msg: %w", err)\<close>\<close>
  | JoinError "go_error list"
  | ErrSlotManagerClosed
  | DuplicateTransferError u32 string string \<comment> \<open>direction, username, filename\<close>
  | TransferNotFoundError u32
  | TransferRejectedError string
  | TransferSizeMismatchError i64 i64
  | TransferFailedError string string
  | ConnectionError string i64 i64 go_error

text \<open>\<^verbatim>\<open>strings.Join\<close>.\<close>

fun join_strings :: "string \<Rightarrow> string list \<Rightarrow> string" where
  "join_strings sep [] = ''''"
| "join_strings sep [x] = x"
| "join_strings sep (x # y # ys) = x @ sep @ join_strings sep (y # ys)"

text \<open>The \<^verbatim>\<open>Error()\<close> methods.\<close>

fun Error :: "go_error \<Rightarrow> string" where
  "Error EOF = ''EOF''"
| "Error ErrUnexpectedEOF = ''unexpected EOF''"
| "Error Canceled = ''context canceled''"
| "Error DeadlineExceeded = ''context deadline exceeded''"
| "Error (ErrorString s) = s"
| "Error (OSError s) = s"
| "Error (WrapError m e) = m @ '': '' @ Error e"
| "Error (JoinError es) = join_strings [CHR 0x0A] (map Error es)"
| "Error ErrSlotManagerClosed = ''slot manager closed''"
| "Error (DuplicateTransferError d u f) =
     ''duplicate '' @ (if d = 1 then ''upload'' else ''download'') @ '': '' @ u @ ''/'' @ f"
| "Error (TransferNotFoundError t) = ''transfer not found: token '' @ decimal (unat t)"
| "Error (TransferRejectedError r) = ''transfer rejected: '' @ r"
| "Error (TransferSizeMismatchError l r) =
     ''size mismatch: local '' @ decimal_int (sint l) @ '', remote '' @ decimal_int (sint r)"
| "Error (TransferFailedError u f) =
     ''transfer failed: peer '' @ u @ '' reported failure for '' @ f"
| "Error (ConnectionError op n t e) =
     ''connection '' @ op @ '' error at byte '' @ decimal_int (sint n) @ ''/'' @
     decimal_int (sint t) @ '': '' @ Error e"

text \<open>The errors directly below an error: its \<^verbatim>\<open>Unwrap()\<close>, or \<^verbatim>\<open>Unwrap() []error\<close> of a join.\<close>

fun Unwrap :: "go_error \<Rightarrow> go_error list" where
  "Unwrap (WrapError m e) = [e]"
| "Unwrap (JoinError es) = es"
| "Unwrap (ConnectionError op n t e) = [e]"
| "Unwrap _ = []"

lemma Unwrap_smaller [termination_simp]: "e' \<in> set (Unwrap e) \<Longrightarrow> size e' < size e"
  by (cases e rule: Unwrap.cases) (auto dest: size_list_estimation' [where f = size, OF _ order_refl])

section \<open>Walking the chain\<close>

text \<open>\<^verbatim>\<open>errors.Is(err, target)\<close> for a sentinel \<open>target\<close>: pre-order search of the tree.\<close>

fun errors_Is :: "go_error \<Rightarrow> go_error \<Rightarrow> bool" where
  "errors_Is e target = (e = target \<or> list_ex (\<lambda>e'. errors_Is e' target) (Unwrap e))"

text \<open>
  \<^verbatim>\<open>errors.As\<close> with a target of type \<^verbatim>\<open>*TransferRejectedError\<close>, \<^verbatim>\<open>*TransferSizeMismatchError\<close>: only
  the success of the search matters to its callers.
\<close>

fun is_TransferRejected :: "go_error \<Rightarrow> bool" where
  "is_TransferRejected (TransferRejectedError r) = True"
| "is_TransferRejected _ = False"

fun is_TransferSizeMismatch :: "go_error \<Rightarrow> bool" where
  "is_TransferSizeMismatch (TransferSizeMismatchError l r) = True"
| "is_TransferSizeMismatch _ = False"

fun errors_As :: "(go_error \<Rightarrow> bool) \<Rightarrow> go_error \<Rightarrow> bool" where
  "errors_As p e = (p e \<or> list_ex (errors_As p) (Unwrap e))"

declare errors_Is.simps [simp del] errors_As.simps [simp del]

lemma errors_Is_Wrap [simp]:
  "target \<noteq> WrapError m e \<Longrightarrow> errors_Is (WrapError m e) target = errors_Is e target"
  by (subst errors_Is.simps) auto

lemma errors_As_Wrap [simp]:
  "\<not> p (WrapError m e) \<Longrightarrow> errors_As p (WrapError m e) = errors_As p e"
  by (subst errors_As.simps) auto

lemma errors_Is_leaf: "Unwrap e = [] \<Longrightarrow> errors_Is e target \<longleftrightarrow> e = target"
  by (subst errors_Is.simps) simp

lemma errors_As_leaf: "Unwrap e = [] \<Longrightarrow> errors_As p e \<longleftrightarrow> p e"
  by (subst errors_As.simps) simp

lemma errors_Is_refl [simp]: "errors_Is e e"
  by (subst errors_Is.simps) simp

end
