(* ===== verification/GoRuntime.thy ===== *)
theory GoRuntime
  imports Errors "HOL-Library.AList"
begin

text \<open>
  The parts of Go's runtime the client's components share. Maps (\<^verbatim>\<open>map[K]V\<close> under a mutex, and
  \<^verbatim>\<open>sync.Map\<close>) are association lists with distinct keys: Go leaves the iteration order of a map open,
  and the list is one such order. Channels: buffered channels with the non-blocking \<^verbatim>\<open>select\<close> forms
  \<^verbatim>\<open>case ch <- x: ... default:\<close> and \<^verbatim>\<open>case x := <-ch: ... default:\<close>, \<^verbatim>\<open>close\<close>, and the run-time panics of
  a send on, or a second close of, a closed channel. Time is a number of nanoseconds, and
  \<^verbatim>\<open>time.Now()\<close> an argument of the operation that calls it.
\<close>

section \<open>Time\<close>

type_synonym time = int \<comment> \<open>nanoseconds; 0 is the zero \<open>time.Time\<close>\<close>

definition second :: int where "second = 1000000000"

definition IsZero :: "time \<Rightarrow> bool" where
  "IsZero t \<longleftrightarrow> t = 0"

section \<open>Maps\<close>

type_synonym ('k, 'v) gomap = "('k \<times> 'v) list"

abbreviation Load :: "'k \<Rightarrow> ('k, 'v) gomap \<Rightarrow> 'v option" where
  "Load k m \<equiv> map_of m k"

abbreviation Store :: "'k \<Rightarrow> 'v \<Rightarrow> ('k, 'v) gomap \<Rightarrow> ('k, 'v) gomap" where
  "Store \<equiv> AList.update"

abbreviation Delete :: "'k \<Rightarrow> ('k, 'v) gomap \<Rightarrow> ('k, 'v) gomap" where
  "Delete \<equiv> AList.delete"

text \<open>\<^verbatim>\<open>sync.Map.LoadOrStore\<close>: the existing value (loaded), or nothing and the extended map.\<close>

definition LoadOrStore :: "'k \<Rightarrow> 'v \<Rightarrow> ('k, 'v) gomap \<Rightarrow> 'v option \<times> ('k, 'v) gomap" where
  "LoadOrStore k v m = (case Load k m of Some w \<Rightarrow> (Some w, m) | None \<Rightarrow> (None, Store k v m))"

definition map_ok :: "('k, 'v) gomap \<Rightarrow> bool" where
  "map_ok m \<longleftrightarrow> distinct (map fst m)"

lemma map_ok_ops [simp]:
  "map_ok []" "map_ok m \<Longrightarrow> map_ok (Store k v m)" "map_ok m \<Longrightarrow> map_ok (Delete k m)"
  by (simp_all add: map_ok_def distinct_update distinct_delete)

lemma map_ok_filter: "map_ok m \<Longrightarrow> map_ok (filter P m)"
  by (simp add: map_ok_def distinct_map_filter)

lemmas map_simps [simp] = update_conv' delete_conv'

lemma Load_iff: "map_ok m \<Longrightarrow> Load k m = Some v \<longleftrightarrow> (k, v) \<in> set m"
  by (simp add: map_ok_def)

lemma Load_filter:
  "map_ok m \<Longrightarrow> Load k (filter P m) = (case Load k m of None \<Rightarrow> None | Some v \<Rightarrow> if P (k, v) then Some v else None)"
proof (induction m)
  case (Cons kv m)
  obtain k' v' where "kv = (k', v')" by fastforce
  with Cons show ?case
    by (auto simp: map_ok_def map_of_eq_None_iff split: option.splits)
qed simp

lemma Delete_None: "Load k m = None \<Longrightarrow> Delete k m = m"
  by (induction m) (auto split: if_splits)

lemma Delete_Store: "Load k m = None \<Longrightarrow> Delete k (Store k v m) = m"
  by (induction m) (auto split: if_splits simp: Delete_None)

lemma Store_new: "Load k m = None \<Longrightarrow> Store k v m = m @ [(k, v)]"
  by (induction m) (auto split: if_splits)

lemma set_Delete: "set (Delete k m) = {kv \<in> set m. fst kv \<noteq> k}"
  by (auto simp: AList.delete_eq)

lemma distinct_Delete: "distinct (map f m) \<Longrightarrow> distinct (map f (Delete k m))"
  by (simp add: AList.delete_eq distinct_map_filter)

lemma notin_imageD: "k \<notin> f ` S \<Longrightarrow> y \<in> S \<Longrightarrow> f y \<noteq> k"
  by blast

section \<open>Channels\<close>

datatype go_panic = SendOnClosed | CloseOfClosed | CloseOfNil | NilDereference | IndexOutOfRange

record 'a chan =
  ch_buf :: "'a list"
  ch_cap :: nat
  ch_closed :: bool

definition make_chan :: "nat \<Rightarrow> 'a chan" where
  "make_chan n = \<lparr>ch_buf = [], ch_cap = n, ch_closed = False\<rparr>"

text \<open>\<^verbatim>\<open>select { case ch <- x: true; default: false }\<close>; sending on a closed channel panics even here.\<close>

definition try_send :: "'a \<Rightarrow> 'a chan \<Rightarrow> go_panic + (bool \<times> 'a chan)" where
  "try_send x ch =
     (if ch_closed ch then Inl SendOnClosed
      else if length (ch_buf ch) < ch_cap ch then Inr (True, ch\<lparr>ch_buf := ch_buf ch @ [x]\<rparr>)
      else Inr (False, ch))"

text \<open>
  \<^verbatim>\<open>select { case x := <-ch: ...; default: ... }\<close>: \<open>Some (Some x)\<close> a value, \<open>Some None\<close> the zero value of a
  drained closed channel, \<open>None\<close> the default branch.
\<close>

definition try_recv :: "'a chan \<Rightarrow> 'a option option \<times> 'a chan" where
  "try_recv ch = (case ch_buf ch of
       x # xs \<Rightarrow> (Some (Some x), ch\<lparr>ch_buf := xs\<rparr>)
     | [] \<Rightarrow> (if ch_closed ch then Some None else None, ch))"

definition close_chan :: "'a chan \<Rightarrow> go_panic + 'a chan" where
  "close_chan ch = (if ch_closed ch then Inl CloseOfClosed else Inr (ch\<lparr>ch_closed := True\<rparr>))"

definition chan_ok :: "'a chan \<Rightarrow> bool" where
  "chan_ok ch \<longleftrightarrow> length (ch_buf ch) \<le> ch_cap ch"

lemma chan_ok_make [simp]: "chan_ok (make_chan n)"
  by (simp add: chan_ok_def make_chan_def)

lemma make_chan_simps [simp]:
  "ch_buf (make_chan n) = []" "ch_cap (make_chan n) = n" "\<not> ch_closed (make_chan n)"
  by (simp_all add: make_chan_def)

lemma chan_ok_send: "chan_ok ch \<Longrightarrow> try_send x ch = Inr (b, ch') \<Longrightarrow> chan_ok ch'"
  by (auto simp: chan_ok_def try_send_def split: if_splits)

lemma chan_ok_recv: "chan_ok ch \<Longrightarrow> try_recv ch = (r, ch') \<Longrightarrow> chan_ok ch'"
  by (auto simp: chan_ok_def try_recv_def split: list.splits)

text \<open>A channel is first in, first out: what was sent comes back in order.\<close>

lemma send_recv_order:
  "try_send x ch = Inr (True, ch') \<Longrightarrow> ch_buf ch' = ch_buf ch @ [x]"
  "try_recv ch = (Some (Some y), ch'') \<Longrightarrow> ch_buf ch = y # ch_buf ch''"
  by (auto simp: try_send_def try_recv_def split: if_splits list.splits)

end
