(* ===== verification/UploadQueue.thy ===== *)
theory UploadQueue
  imports GoRuntime
begin

text \<open>
  \<^verbatim>\<open>src/client/queue.go\<close>: the upload queue with its optional position resolver. The interface
  \<open>upload_queue\<close> states what the request handler and the upload processor rely on; it is proved of
  \<^verbatim>\<open>QueueManager\<close> below. The queue is a list of entries in arrival order; \<^verbatim>\<open>time.Now()\<close> is an argument.
\<close>

section \<open>The queue\<close>

record QueueEntry =
  qe_Username :: string
  qe_Filename :: string
  qe_Token :: u32
  qe_QueuedAt :: time

type_synonym QueueResolver = "string \<Rightarrow> string \<Rightarrow> go_error + u32"

record QueueManager =
  q_resolver :: "QueueResolver option"
  q_queue :: "QueueEntry list"

definition NewQueueManager :: QueueManager where
  "NewQueueManager = \<lparr>q_resolver = None, q_queue = []\<rparr>"

definition SetResolver :: "QueueResolver option \<Rightarrow> QueueManager \<Rightarrow> QueueManager" where
  "SetResolver r q = q\<lparr>q_resolver := r\<rparr>"

definition EnqueueUpload :: "time \<Rightarrow> string \<Rightarrow> string \<Rightarrow> u32 \<Rightarrow> QueueManager \<Rightarrow> u32 \<times> QueueManager" where
  "EnqueueUpload now username filename token q =
     (let entry = \<lparr>qe_Username = username, qe_Filename = filename, qe_Token = token, qe_QueuedAt = now\<rparr>;
          q = q\<lparr>q_queue := q_queue q @ [entry]\<rparr>
      in (word_of_nat (length (q_queue q)), q))"

text \<open>The loop of \<^verbatim>\<open>DequeueUpload\<close>: delete the first entry with the token.\<close>

fun remove_token :: "u32 \<Rightarrow> QueueEntry list \<Rightarrow> QueueEntry list" where
  "remove_token token [] = []"
| "remove_token token (e # es) = (if qe_Token e = token then es else e # remove_token token es)"

definition DequeueUpload :: "u32 \<Rightarrow> QueueManager \<Rightarrow> QueueManager" where
  "DequeueUpload token q = q\<lparr>q_queue := remove_token token (q_queue q)\<rparr>"

text \<open>The loop of \<^verbatim>\<open>GetPosition\<close>, from index \<open>i\<close> on.\<close>

fun position_from :: "nat \<Rightarrow> string \<Rightarrow> string \<Rightarrow> QueueEntry list \<Rightarrow> u32" where
  "position_from i username filename [] = 0"
| "position_from i username filename (e # es) =
     (if qe_Username e = username \<and> qe_Filename e = filename then word_of_nat (i + 1)
      else position_from (i + 1) username filename es)"

definition GetPosition :: "string \<Rightarrow> string \<Rightarrow> QueueManager \<Rightarrow> u32" where
  "GetPosition username filename q = position_from 0 username filename (q_queue q)"

definition ResolvePosition :: "string \<Rightarrow> string \<Rightarrow> QueueManager \<Rightarrow> go_error + u32" where
  "ResolvePosition username filename q =
     (case q_resolver q of
        Some resolver \<Rightarrow> resolver username filename
      | None \<Rightarrow> Inr (GetPosition username filename q))"

fun find_token :: "u32 \<Rightarrow> QueueEntry list \<Rightarrow> QueueEntry option" where
  "find_token token [] = None"
| "find_token token (e # es) = (if qe_Token e = token then Some e else find_token token es)"

definition GetEntry :: "u32 \<Rightarrow> QueueManager \<Rightarrow> QueueEntry option" where
  "GetEntry token q = find_token token (q_queue q)"

definition QueueManager_Len :: "QueueManager \<Rightarrow> nat" where
  "QueueManager_Len q = length (q_queue q)"

section \<open>The interface\<close>

text \<open>
  Abstractly the queue is a list of (username, filename, token). Laws: enqueueing appends and reports
  the new length; dequeueing removes the one entry with the token; the position of a file is the
  1-based index of its first entry, 0 if it has none.
\<close>

type_synonym slot = "string \<times> string \<times> u32"

definition has_token :: "u32 \<Rightarrow> slot \<Rightarrow> bool" where
  "has_token t s \<longleftrightarrow> snd (snd s) = t"

definition is_upload :: "string \<Rightarrow> string \<Rightarrow> slot \<Rightarrow> bool" where
  "is_upload u f s \<longleftrightarrow> fst s = u \<and> fst (snd s) = f"

lemmas slot_defs = has_token_def is_upload_def

fun index_of :: "('a \<Rightarrow> bool) \<Rightarrow> 'a list \<Rightarrow> nat option" where
  "index_of p [] = None"
| "index_of p (x # xs) = (if p x then Some 0 else map_option Suc (index_of p xs))"

lemma index_of_append:
  "index_of p (xs @ ys) = (case index_of p xs of Some i \<Rightarrow> Some i | None \<Rightarrow> map_option (\<lambda>i. length xs + i) (index_of p ys))"
proof (induction xs)
  case Nil
  show ?case by (cases "index_of p ys") simp_all
next
  case (Cons x xs)
  then show ?case by (cases "index_of p xs"; cases "index_of p ys") simp_all
qed

lemma index_of_less: "index_of p xs = Some i \<Longrightarrow> i < length xs \<and> p (xs ! i)"
  by (induction xs arbitrary: i) (auto split: if_splits)

lemma index_of_None: "index_of p xs = None \<longleftrightarrow> (\<forall>x\<in>set xs. \<not> p x)"
  by (induction xs) auto

lemma remove_first_filter:
  assumes "distinct (map (\<lambda>s. snd (snd s)) xs)"
  shows "(case index_of (has_token t) xs of
           None \<Rightarrow> xs | Some i \<Rightarrow> take i xs @ drop (Suc i) xs) = filter (\<lambda>s. snd (snd s) \<noteq> t) xs"
  using assms
proof (induction xs)
  case Nil
  then show ?case by simp
next
  case (Cons x xs)
  have "snd (snd x) = t \<Longrightarrow> filter (\<lambda>s. snd (snd s) \<noteq> t) xs = xs"
    using Cons.prems by (metis (mono_tags, lifting) distinct.simps(2) filter_True image_eqI image_set list.simps(9))
  with Cons show ?case by (cases "index_of (has_token t) xs") (auto simp: has_token_def [of t x])
qed

locale upload_queue =
  fixes slots :: "'q \<Rightarrow> slot list"
    and enqueue :: "string \<Rightarrow> string \<Rightarrow> u32 \<Rightarrow> 'q \<Rightarrow> u32 \<times> 'q"
    and dequeue :: "u32 \<Rightarrow> 'q \<Rightarrow> 'q"
    and position :: "string \<Rightarrow> string \<Rightarrow> 'q \<Rightarrow> u32"
  assumes slots_enqueue: "slots (snd (enqueue u f t q)) = slots q @ [(u, f, t)]"
    and fst_enqueue: "fst (enqueue u f t q) = word_of_nat (Suc (length (slots q)))"
    and slots_dequeue: "slots (dequeue t q) =
        (case index_of (has_token t) (slots q) of
           None \<Rightarrow> slots q | Some i \<Rightarrow> take i (slots q) @ drop (Suc i) (slots q))"
    and position_index: "position u f q =
        (case index_of (is_upload u f) (slots q) of
           None \<Rightarrow> 0 | Some i \<Rightarrow> word_of_nat (Suc i))"
begin

abbreviation token_of :: "slot \<Rightarrow> u32" where
  "token_of s \<equiv> snd (snd s)"

lemma unat_position:
  assumes "length (slots q) < 2 ^ 32" "index_of (is_upload u f) (slots q) = Some i"
  shows "unat (position u f q) = Suc i"
proof -
  have "Suc i < 2 ^ 32" using index_of_less [OF assms(2)] assms(1) by simp
  then have "unat (word_of_nat (Suc i) :: u32) = Suc i" by (simp add: unat_of_nat del: of_nat_Suc)
  then show ?thesis using assms(2) by (simp add: position_index del: of_nat_Suc)
qed

text \<open>A file that is not queued yet joins at the end, and the reported position is its position.\<close>

lemma enqueue_position:
  assumes "\<forall>(u', f', t')\<in>set (slots q). (u', f') \<noteq> (u, f)"
  shows "position u f (snd (enqueue u f t q)) = fst (enqueue u f t q)"
proof -
  have "index_of (is_upload u f) (slots q) = None"
    using assms by (auto simp: index_of_None slot_defs)
  then show ?thesis by (simp add: position_index slots_enqueue fst_enqueue index_of_append slot_defs)
qed

text \<open>Positions of files already in the queue do not change when another upload joins.\<close>

lemma enqueue_keeps_positions:
  "position u' f' q \<noteq> 0 \<Longrightarrow> position u' f' (snd (enqueue u f t q)) = position u' f' q"
  by (auto simp: position_index slots_enqueue index_of_append split: option.splits)

lemma dequeue_head:
  "slots q = (u, f, t) # rest \<Longrightarrow> slots (dequeue t q) = rest"
  by (simp add: slots_dequeue slot_defs)

lemma dequeue_absent: "t \<notin> token_of ` set (slots q) \<Longrightarrow> slots (dequeue t q) = slots q"
proof -
  assume "t \<notin> token_of ` set (slots q)"
  then have "index_of (has_token t) (slots q) = None" by (force simp: index_of_None slot_defs)
  then show ?thesis by (simp add: slots_dequeue)
qed

text \<open>While tokens are unique, dequeueing removes exactly the entry with the token and keeps the order.\<close>

lemma dequeue_filter:
  assumes "distinct (map token_of (slots q))"
  shows "slots (dequeue t q) = filter (\<lambda>s. token_of s \<noteq> t) (slots q)"
  unfolding slots_dequeue using assms
  by (rule remove_first_filter)

text \<open>When the head is served, everybody else moves up by one.\<close>

lemma dequeue_head_moves_up:
  assumes "slots q = (u0, f0, t0) # rest" "(u0, f0) \<noteq> (u, f)" "position u f q \<noteq> 0"
  shows "position u f (dequeue t0 q) = position u f q - 1"
proof -
  obtain i where "index_of (is_upload u f) rest = Some i"
    using assms by (auto simp: position_index slot_defs split: option.splits if_splits)
  then show ?thesis using assms(1,2) by (auto simp: position_index dequeue_head [OF assms(1)] slot_defs)
qed

end

section \<open>QueueManager implements the interface\<close>

definition entry_slot :: "QueueEntry \<Rightarrow> slot" where
  "entry_slot e = (qe_Username e, qe_Filename e, qe_Token e)"

definition queue_slots :: "QueueManager \<Rightarrow> slot list" where
  "queue_slots q = map entry_slot (q_queue q)"

lemma slot_tests_entry [simp]:
  "has_token t (entry_slot e) \<longleftrightarrow> qe_Token e = t"
  "is_upload u f (entry_slot e) \<longleftrightarrow> qe_Username e = u \<and> qe_Filename e = f"
  by (auto simp: slot_defs entry_slot_def)

lemma remove_token_slots:
  "map entry_slot (remove_token t es) =
     (case index_of (has_token t) (map entry_slot es) of
        None \<Rightarrow> map entry_slot es
      | Some i \<Rightarrow> take i (map entry_slot es) @ drop (Suc i) (map entry_slot es))"
proof (induction es)
  case Nil
  then show ?case by simp
next
  case (Cons e es)
  then show ?case
    by (cases "index_of (has_token t) (map entry_slot es)") auto
qed

lemma position_from_index:
  "position_from k u f es =
     (case index_of (is_upload u f) (map entry_slot es) of
        None \<Rightarrow> 0 | Some i \<Rightarrow> word_of_nat (Suc (k + i)))"
proof (induction es arbitrary: k)
  case Nil
  then show ?case by simp
next
  case (Cons e es)
  then show ?case
    by (cases "index_of (is_upload u f) (map entry_slot es)")
      auto
qed

lemma find_token_index:
  "find_token t es = map_option (\<lambda>i. es ! i) (index_of (has_token t) (map entry_slot es))"
  by (induction es) (auto simp: option.map_comp comp_def)

lemma entry_slot_make [simp]:
  "entry_slot \<lparr>qe_Username = u, qe_Filename = f, qe_Token = t, qe_QueuedAt = now\<rparr> = (u, f, t)"
  by (simp add: entry_slot_def)

interpretation qm: upload_queue queue_slots "EnqueueUpload now" DequeueUpload GetPosition for now
  by unfold_locales
    (simp_all add: queue_slots_def EnqueueUpload_def DequeueUpload_def GetPosition_def Let_def
      remove_token_slots position_from_index split: option.split)

section \<open>Properties\<close>

text \<open>
  A run of the queue: uploads joining with fresh tokens, and uploads leaving. The tokens stay unique
  along every such run, which is what the FIFO statement below needs.
\<close>

inductive queue_run :: "QueueManager \<Rightarrow> bool" where
  start: "queue_run (SetResolver r NewQueueManager)"
| join: "queue_run q \<Longrightarrow> t \<notin> qe_Token ` set (q_queue q) \<Longrightarrow> queue_run (snd (EnqueueUpload now u f t q))"
| leave: "queue_run q \<Longrightarrow> queue_run (DequeueUpload t q)"
| resolver: "queue_run q \<Longrightarrow> queue_run (SetResolver r q)"

lemma remove_token_subset: "set (remove_token t es) \<subseteq> set es"
  by (induction es) auto

lemma remove_token_distinct:
  "distinct (map qe_Token es) \<Longrightarrow> distinct (map qe_Token (remove_token t es))"
  by (induction es) (use remove_token_subset in \<open>auto simp: image_iff subset_iff\<close>)

lemma queue_run_distinct: "queue_run q \<Longrightarrow> distinct (map qe_Token (q_queue q))"
  by (induction rule: queue_run.induct)
    (auto simp: SetResolver_def NewQueueManager_def EnqueueUpload_def DequeueUpload_def Let_def
      remove_token_distinct)

lemma slots_tokens: "map (\<lambda>s. snd (snd s)) (queue_slots q) = map qe_Token (q_queue q)"
  by (simp add: queue_slots_def entry_slot_def)

lemma remove_token_filter:
  "distinct (map qe_Token es) \<Longrightarrow> remove_token t es = filter (\<lambda>e. qe_Token e \<noteq> t) es"
proof (induction es)
  case (Cons e es)
  have "qe_Token e = t \<Longrightarrow> filter (\<lambda>e. qe_Token e \<noteq> t) es = es"
    using Cons.prems by (auto simp: filter_id_conv dest: notin_imageD)
  with Cons show ?case by simp
qed simp

lemma position_zero_absent:
  assumes "GetPosition u f q = 0" "QueueManager_Len q < 2 ^ 32 - 1" "s \<in> set (queue_slots q)"
  shows "\<not> is_upload u f s"
proof (cases "index_of (is_upload u f) (queue_slots q)")
  case None
  then show ?thesis using assms(3) by (simp add: index_of_None)
next
  case (Some i)
  then show ?thesis
    using qm.unat_position [OF _ Some] assms(1,2) by (simp add: queue_slots_def QueueManager_Len_def)
qed

text \<open>
  C37: The upload queue is fair. In every reachable queue, an upload that joins is put behind all the
  others: it is told its 1-based position (modulo \<open>2^32\<close>), that position is what \<^verbatim>\<open>GetPosition\<close> answers for
  it when the peer has not queued the same file already, and no file that was already waiting is moved.
  An upload that leaves takes exactly its own entry out, in whatever place, and keeps the order of the rest.
\<close>

theorem queue_is_fifo:
  assumes "queue_run q" "t \<notin> qe_Token ` set (q_queue q)"
  shows "fst (EnqueueUpload now u f t q) = word_of_nat (Suc (QueueManager_Len q))
       \<and> (GetPosition u f q = 0 \<longrightarrow> QueueManager_Len q < 2 ^ 32 - 1 \<longrightarrow>
            GetPosition u f (snd (EnqueueUpload now u f t q)) = fst (EnqueueUpload now u f t q))
       \<and> (GetPosition u' f' q \<noteq> 0 \<longrightarrow>
            GetPosition u' f' (snd (EnqueueUpload now u f t q)) = GetPosition u' f' q)
       \<and> q_queue (DequeueUpload t' q) = filter (\<lambda>e. qe_Token e \<noteq> t') (q_queue q)"
proof (intro conjI impI)
  show "fst (EnqueueUpload now u f t q) = word_of_nat (Suc (QueueManager_Len q))"
    by (simp add: EnqueueUpload_def QueueManager_Len_def Let_def)
  show "GetPosition u' f' (snd (EnqueueUpload now u f t q)) = GetPosition u' f' q"
    if "GetPosition u' f' q \<noteq> 0" using that by (rule qm.enqueue_keeps_positions)
  show "q_queue (DequeueUpload t' q) = filter (\<lambda>e. qe_Token e \<noteq> t') (q_queue q)"
    using queue_run_distinct [OF assms(1)] by (simp add: DequeueUpload_def remove_token_filter)
  show "GetPosition u f (snd (EnqueueUpload now u f t q)) = fst (EnqueueUpload now u f t q)"
    if "GetPosition u f q = 0" "QueueManager_Len q < 2 ^ 32 - 1"
    using that by (intro qm.enqueue_position ballI) (auto dest!: position_zero_absent [rotated 2] simp: is_upload_def)
qed


definition demo_queue :: QueueManager where
  "demo_queue = snd (EnqueueUpload 5 ''bob'' ''b.mp3'' 2 (snd (EnqueueUpload 3 ''alice'' ''a.mp3'' 1 NewQueueManager)))"

lemma demo_queue_run: "queue_run demo_queue"
proof -
  have "SetResolver None NewQueueManager = NewQueueManager"
    by (simp add: SetResolver_def NewQueueManager_def)
  then have "queue_run NewQueueManager" using queue_run.start [of None] by simp
  then show ?thesis unfolding demo_queue_def
    by (intro queue_run.join) (auto simp: EnqueueUpload_def NewQueueManager_def)
qed

theorem queue_is_fifo_witness:
  "GetPosition ''carol'' ''c.mp3'' (snd (EnqueueUpload 7 ''carol'' ''c.mp3'' 3 demo_queue)) = 3
   \<and> GetPosition ''bob'' ''b.mp3'' (snd (EnqueueUpload 7 ''carol'' ''c.mp3'' 3 demo_queue)) = 2
   \<and> q_queue (DequeueUpload 1 demo_queue) = filter (\<lambda>e. qe_Token e \<noteq> 1) (q_queue demo_queue)"
  using queue_is_fifo [OF demo_queue_run, of 3 7 "''carol''" "''c.mp3''" "''bob''" "''b.mp3''" 1]
  by (simp add: demo_queue_def EnqueueUpload_def NewQueueManager_def GetPosition_def QueueManager_Len_def)

text \<open>
  When the upload at the head of the queue is taken out, every other waiting file moves up by exactly
  one place, so a peer that polls its place sees it decrease; without a custom resolver
  \<^verbatim>\<open>ResolvePosition\<close> answers that place, and with one it answers what the resolver says, errors included.
\<close>

theorem queue_head_served:
  assumes "q_queue q = e # es" "(qe_Username e, qe_Filename e) \<noteq> (u, f)" "GetPosition u f q \<noteq> 0"
  shows "ResolvePosition u f (DequeueUpload (qe_Token e) (SetResolver None q)) = Inr (GetPosition u f q - 1)
       \<and> ResolvePosition u f (SetResolver (Some r) q) = r u f"
proof -
  have "GetPosition u f (DequeueUpload (qe_Token e) q) = GetPosition u f q - 1"
    using assms by (intro qm.dequeue_head_moves_up) (simp_all add: queue_slots_def entry_slot_def)
  moreover have "GetPosition u f (DequeueUpload t (SetResolver r q)) = GetPosition u f (DequeueUpload t q)" for t r
    by (simp add: GetPosition_def DequeueUpload_def SetResolver_def)
  ultimately show ?thesis
    by (simp add: ResolvePosition_def) (simp add: SetResolver_def DequeueUpload_def)
qed

theorem queue_head_served_witness:
  "ResolvePosition ''bob'' ''b.mp3'' (DequeueUpload 1 (SetResolver None demo_queue)) = Inr 1
   \<and> ResolvePosition ''bob'' ''b.mp3'' (SetResolver (Some (\<lambda>u f. Inl (ErrorString ''banned''))) demo_queue)
       = Inl (ErrorString ''banned'')"
  using queue_head_served [of demo_queue "hd (q_queue demo_queue)" "tl (q_queue demo_queue)" "''bob''" "''b.mp3''"
      "\<lambda>u f. Inl (ErrorString ''banned'')"]
  by (simp add: demo_queue_def EnqueueUpload_def NewQueueManager_def GetPosition_def)

end
