(* ===== verification/Slots.thy ===== *)
theory Slots
  imports GoRuntime
begin

text \<open>
  \<^verbatim>\<open>src/client/slots.go\<close>: the download slots, the global upload slots and the per-user upload slots. A blocking
  \<^verbatim>\<open>select\<close> is the list of outcomes that are ready: Go picks any of them, and the empty list means that the goroutine
  waits. The context of a call is \<open>None\<close> while it is alive and \<open>Some err\<close> once it is done. Users' slots are pointers, so
  they live in a heap (\<open>sm_slotHeap\<close>): the cleanup race below depends on two goroutines holding different slots of the
  same user.
\<close>

section \<open>Data\<close>

record userSlot =
  us_sem :: "unit chan"
  us_lastUsed :: time

record SlotManager =
  sm_downloadSlots :: "unit chan option"
  sm_uploadSlots :: "unit chan option"
  sm_userSlots :: "(string, nat) gomap"
  sm_maxDownloads :: int
  sm_maxUploads :: int
  sm_downloadsActive :: int
  sm_uploadsActive :: int
  sm_closed :: bool
  sm_closedCh :: "unit chan"
  sm_slotHeap :: "userSlot list"

record SlotStats =
  st_DownloadsActive :: int
  st_DownloadsMax :: int
  st_UploadsActive :: int
  st_UploadsMax :: int
  st_UserSlotsCount :: nat

definition NewSlotManager :: "int \<Rightarrow> int \<Rightarrow> SlotManager" where
  "NewSlotManager maxDownloads maxUploads =
    \<lparr>sm_downloadSlots = (if maxDownloads > 0 then Some (make_chan (nat maxDownloads)) else None),
     sm_uploadSlots = (if maxUploads > 0 then Some (make_chan (nat maxUploads)) else None),
     sm_userSlots = [], sm_maxDownloads = maxDownloads, sm_maxUploads = maxUploads,
     sm_downloadsActive = 0, sm_uploadsActive = 0, sm_closed = False, sm_closedCh = make_chan 0, sm_slotHeap = []\<rparr>"

section \<open>Semaphores\<close>

type_synonym ctx = "go_error option" \<comment> \<open>\<open>ctx.Err()\<close>\<close>

text \<open>
  \<^verbatim>\<open>select { case sem <- struct{}{}: ...; case <-ctx.Done(): ...; case <-closedCh: ... }\<close>: the ready cases, each with the
  error it returns and the semaphore after it. No semaphore is ever closed.
\<close>

definition sem_acquire :: "ctx \<Rightarrow> unit chan \<Rightarrow> unit chan \<Rightarrow> (go_error option \<times> unit chan) list" where
  "sem_acquire ctx closedCh sem =
     (case try_send () sem of Inr (True, sem') \<Rightarrow> [(None, sem')] | _ \<Rightarrow> []) @
     (case ctx of Some err \<Rightarrow> [(Some err, sem)] | None \<Rightarrow> []) @
     (if ch_closed closedCh then [(Some ErrSlotManagerClosed, sem)] else [])"

text \<open>\<^verbatim>\<open>select { case <-sem: default: }\<close>\<close>

definition sem_release :: "unit chan \<Rightarrow> unit chan" where
  "sem_release sem = snd (try_recv sem)"

section \<open>Operations\<close>

definition AcquireDownloadSlot :: "ctx \<Rightarrow> SlotManager \<Rightarrow> (go_error option \<times> SlotManager) list" where
  "AcquireDownloadSlot ctx s =
     (if sm_closed s then [(Some ErrSlotManagerClosed, s)]
      else case sm_downloadSlots s of
             None \<Rightarrow> [(None, s\<lparr>sm_downloadsActive := sm_downloadsActive s + 1\<rparr>)]
           | Some ch \<Rightarrow> map (\<lambda>(e, ch'). (e, s\<lparr>sm_downloadSlots := Some ch'\<rparr>)) (sem_acquire ctx (sm_closedCh s) ch))"

definition ReleaseDownloadSlot :: "SlotManager \<Rightarrow> SlotManager" where
  "ReleaseDownloadSlot s =
     (case sm_downloadSlots s of
        None \<Rightarrow> s\<lparr>sm_downloadsActive := sm_downloadsActive s - 1\<rparr>
      | Some ch \<Rightarrow> s\<lparr>sm_downloadSlots := Some (sem_release ch)\<rparr>)"

definition acquireGlobalUpload :: "ctx \<Rightarrow> SlotManager \<Rightarrow> (go_error option \<times> SlotManager) list" where
  "acquireGlobalUpload ctx s =
     (case sm_uploadSlots s of
        None \<Rightarrow> [(None, s\<lparr>sm_uploadsActive := sm_uploadsActive s + 1\<rparr>)]
      | Some ch \<Rightarrow> map (\<lambda>(e, ch'). (e, s\<lparr>sm_uploadSlots := Some ch'\<rparr>)) (sem_acquire ctx (sm_closedCh s) ch))"

definition releaseGlobalUpload :: "SlotManager \<Rightarrow> SlotManager" where
  "releaseGlobalUpload s =
     (case sm_uploadSlots s of
        None \<Rightarrow> s\<lparr>sm_uploadsActive := sm_uploadsActive s - 1\<rparr>
      | Some ch \<Rightarrow> s\<lparr>sm_uploadSlots := Some (sem_release ch)\<rparr>)"

definition modify_slot :: "nat \<Rightarrow> (userSlot \<Rightarrow> userSlot) \<Rightarrow> SlotManager \<Rightarrow> SlotManager" where
  "modify_slot p f s = s\<lparr>sm_slotHeap := (sm_slotHeap s)[p := f (sm_slotHeap s ! p)]\<rparr>"

text \<open>\<^verbatim>\<open>userSlot.acquire\<close>, on the slot at \<open>p\<close>.\<close>

definition userSlot_acquire :: "time \<Rightarrow> ctx \<Rightarrow> nat \<Rightarrow> SlotManager \<Rightarrow> (go_error option \<times> SlotManager) list" where
  "userSlot_acquire now ctx p s =
     (let s = modify_slot p (\<lambda>u. u\<lparr>us_lastUsed := now\<rparr>) s
      in map (\<lambda>(e, sem'). (e, modify_slot p (\<lambda>u. u\<lparr>us_sem := sem'\<rparr>) s))
           (sem_acquire ctx (sm_closedCh s) (us_sem (sm_slotHeap s ! p))))"

definition userSlot_release :: "time \<Rightarrow> nat \<Rightarrow> SlotManager \<Rightarrow> SlotManager" where
  "userSlot_release now p s =
     modify_slot p (\<lambda>u. u\<lparr>us_sem := sem_release (us_sem u)\<rparr>) (modify_slot p (\<lambda>u. u\<lparr>us_lastUsed := now\<rparr>) s)"

text \<open>\<^verbatim>\<open>getOrCreateUserSlot\<close>: its two accesses to the map, the load and, after a miss, the load-or-store.\<close>

definition loadUserSlot :: "time \<Rightarrow> string \<Rightarrow> SlotManager \<Rightarrow> nat option \<times> SlotManager" where
  "loadUserSlot now username s =
     (case Load username (sm_userSlots s) of
        Some p \<Rightarrow> (Some p, modify_slot p (\<lambda>u. u\<lparr>us_lastUsed := now\<rparr>) s)
      | None \<Rightarrow> (None, s))"

definition storeUserSlot :: "time \<Rightarrow> string \<Rightarrow> SlotManager \<Rightarrow> nat \<times> SlotManager" where
  "storeUserSlot now username s =
     (let p = length (sm_slotHeap s)
      in case LoadOrStore username p (sm_userSlots s) of
           (Some q, _) \<Rightarrow> (q, s)
         | (None, m) \<Rightarrow>
             (p, s\<lparr>sm_userSlots := m, sm_slotHeap := sm_slotHeap s @ [\<lparr>us_sem = make_chan 1, us_lastUsed = now\<rparr>]\<rparr>))"

definition getOrCreateUserSlot :: "time \<Rightarrow> string \<Rightarrow> SlotManager \<Rightarrow> nat \<times> SlotManager" where
  "getOrCreateUserSlot now username s =
     (case loadUserSlot now username s of
        (Some p, s1) \<Rightarrow> (p, s1)
      | (None, s1) \<Rightarrow> storeUserSlot now username s1)"

text \<open>A whole call, with no other goroutine in between; the outcomes of the two selects combine.\<close>

definition AcquireUploadSlot :: "time \<Rightarrow> ctx \<Rightarrow> string \<Rightarrow> SlotManager \<Rightarrow> (go_error option \<times> SlotManager) list" where
  "AcquireUploadSlot now ctx username s =
     (if sm_closed s then [(Some ErrSlotManagerClosed, s)]
      else case getOrCreateUserSlot now username s of
        (p, s1) \<Rightarrow>
          concat (map (\<lambda>(e, s2).
            case e of
              Some err \<Rightarrow> [(Some err, s2)]
            | None \<Rightarrow> map (\<lambda>(e2, s3).
                case e2 of None \<Rightarrow> (None, s3) | Some err \<Rightarrow> (Some err, userSlot_release now p s3))
                (acquireGlobalUpload ctx s2))
            (userSlot_acquire now ctx p s1)))"

definition ReleaseUploadSlot :: "time \<Rightarrow> string \<Rightarrow> SlotManager \<Rightarrow> SlotManager" where
  "ReleaseUploadSlot now username s =
     releaseGlobalUpload
       (case Load username (sm_userSlots s) of Some p \<Rightarrow> userSlot_release now p s | None \<Rightarrow> s)"

definition SlotManager_Stats :: "SlotManager \<Rightarrow> SlotStats" where
  "SlotManager_Stats s =
    \<lparr>st_DownloadsActive = (case sm_downloadSlots s of Some ch \<Rightarrow> int (length (ch_buf ch)) | None \<Rightarrow> sm_downloadsActive s),
     st_DownloadsMax = sm_maxDownloads s,
     st_UploadsActive = (case sm_uploadSlots s of Some ch \<Rightarrow> int (length (ch_buf ch)) | None \<Rightarrow> sm_uploadsActive s),
     st_UploadsMax = sm_maxUploads s,
     st_UserSlotsCount = length (sm_userSlots s)\<rparr>"

definition SlotManager_Close :: "SlotManager \<Rightarrow> go_panic + SlotManager" where
  "SlotManager_Close s =
     (if sm_closed s then Inr s
      else case close_chan (sm_closedCh s) of
             Inl p \<Rightarrow> Inl p
           | Inr ch \<Rightarrow> Inr (s\<lparr>sm_closed := True, sm_closedCh := ch\<rparr>))"

text \<open>\<^verbatim>\<open>isIdle\<close>: take the slot if it is free and give it back.\<close>

definition isIdle :: "nat \<Rightarrow> SlotManager \<Rightarrow> bool" where
  "isIdle p s = (case try_send () (us_sem (sm_slotHeap s ! p)) of Inr (True, sem) \<Rightarrow> True | _ \<Rightarrow> False)"

definition CleanupIdleUserSlots :: "time \<Rightarrow> int \<Rightarrow> SlotManager \<Rightarrow> SlotManager" where
  "CleanupIdleUserSlots now threshold s =
     (let cutoff = now - threshold
      in s\<lparr>sm_userSlots := filter (\<lambda>(key, p).
             (threshold > 0 \<and> us_lastUsed (sm_slotHeap s ! p) > cutoff) \<or> \<not> isIdle p s) (sm_userSlots s)\<rparr>)"

text \<open>\<^verbatim>\<open>NewSlotManagerWithCleanup\<close>: the manager, and whether \<^verbatim>\<open>cleanupLoop\<close> is started for it.\<close>

definition NewSlotManagerWithCleanup :: "int \<Rightarrow> int \<Rightarrow> int \<Rightarrow> SlotManager \<times> bool" where
  "NewSlotManagerWithCleanup maxDownloads maxUploads cleanupInterval = (NewSlotManager maxDownloads maxUploads, cleanupInterval > 0)"

text \<open>\<^verbatim>\<open>cleanupLoop\<close> as the list of its tick times before it notices that \<^verbatim>\<open>closedCh\<close> is closed.\<close>

definition cleanupLoop :: "int \<Rightarrow> time list \<Rightarrow> SlotManager \<Rightarrow> SlotManager" where
  "cleanupLoop idleThreshold ticks s = fold (\<lambda>now. CleanupIdleUserSlots now idleThreshold) ticks s"

section \<open>The interface of a semaphore\<close>

text \<open>
  All three kinds of slots keep the same contract: an acquisition that succeeds takes one unit of the capacity, one that
  fails takes nothing, a release gives one back, and whenever there is room an acquisition can succeed.
\<close>

locale semaphore =
  fixes held :: "'s \<Rightarrow> int" \<comment> \<open>units taken\<close>
    and cap :: "'s \<Rightarrow> int option" \<comment> \<open>\<open>None\<close>: unlimited\<close>
    and acquire :: "ctx \<Rightarrow> 's \<Rightarrow> (go_error option \<times> 's) list"
    and release :: "'s \<Rightarrow> 's"
    and usable :: "'s \<Rightarrow> bool"
  assumes acquire_success: "usable s \<Longrightarrow> (None, s') \<in> set (acquire ctx s) \<Longrightarrow>
        held s' = held s + 1 \<and> cap s' = cap s \<and> usable s' \<and> (\<forall>c. cap s = Some c \<longrightarrow> held s < c)"
    and acquire_failure: "usable s \<Longrightarrow> (Some e, s') \<in> set (acquire ctx s) \<Longrightarrow>
        held s' = held s \<and> cap s' = cap s \<and> usable s' \<and> (ctx = Some e \<or> e = ErrSlotManagerClosed)"
    and acquire_possible: "usable s \<Longrightarrow> (\<forall>c. cap s = Some c \<longrightarrow> held s < c) \<Longrightarrow> \<exists>s'. (None, s') \<in> set (acquire ctx s)"
    and release_one: "usable s \<Longrightarrow> held s > 0 \<Longrightarrow> held (release s) = held s - 1 \<and> cap (release s) = cap s \<and> usable (release s)"
begin

text \<open>
  Goroutines that release exactly what they acquired: \<open>uses n s\<close> says that \<open>n\<close> of them hold a unit now.
\<close>

inductive uses :: "nat \<Rightarrow> 's \<Rightarrow> bool" where
  init: "usable s \<Longrightarrow> held s = 0 \<Longrightarrow> (\<forall>c. cap s = Some c \<longrightarrow> 0 \<le> c) \<Longrightarrow> uses 0 s"
| acquired: "uses n s \<Longrightarrow> (None, s') \<in> set (acquire ctx s) \<Longrightarrow> uses (Suc n) s'"
| failed: "uses n s \<Longrightarrow> (Some e, s') \<in> set (acquire ctx s) \<Longrightarrow> uses n s'"
| released: "uses (Suc n) s \<Longrightarrow> uses n (release s)"

lemma uses_inv:
  "uses n s \<Longrightarrow> usable s \<and> held s = int n \<and> (\<forall>c. cap s = Some c \<longrightarrow> int n \<le> c)"
proof (induction rule: uses.induct)
  case (acquired n s s' ctx)
  then show ?case using acquire_success [of s s' ctx] by auto
next
  case (failed n s e s' ctx)
  then show ?case using acquire_failure [of s e s' ctx] by auto
next
  case (released n s)
  then show ?case using release_one [of s] by auto
qed simp

lemma never_exceeds: "uses n s \<Longrightarrow> cap s = Some c \<Longrightarrow> int n \<le> c"
  using uses_inv by blast

lemma room_after_release:
  assumes "uses (Suc n) s"
  shows "\<exists>s'. (None, s') \<in> set (acquire ctx (release s))"
proof (rule acquire_possible)
  from assms uses_inv [of "Suc n" s] have s: "usable s" "held s = int (Suc n)" "\<forall>c. cap s = Some c \<longrightarrow> int (Suc n) \<le> c" by auto
  with release_one [of s] show "usable (release s)" "\<forall>c. cap (release s) = Some c \<longrightarrow> held (release s) < c" by auto
qed

end

text \<open>The channel semaphore all three are built on.\<close>

lemma sem_acquire_None:
  "(None, sem') \<in> set (sem_acquire ctx closedCh sem) \<longleftrightarrow>
     \<not> ch_closed sem \<and> length (ch_buf sem) < ch_cap sem \<and> sem' = sem\<lparr>ch_buf := ch_buf sem @ [()]\<rparr>"
  by (auto simp: sem_acquire_def try_send_def split: option.splits)

lemma sem_acquire_Some:
  "(Some e, sem') \<in> set (sem_acquire ctx closedCh sem) \<longleftrightarrow>
     sem' = sem \<and> (ctx = Some e \<or> e = ErrSlotManagerClosed \<and> ch_closed closedCh)"
  by (auto simp: sem_acquire_def try_send_def split: option.splits)

lemma sem_release_simps [simp]:
  "length (ch_buf (sem_release sem)) = length (ch_buf sem) - 1" "ch_cap (sem_release sem) = ch_cap sem"
  "ch_closed (sem_release sem) = ch_closed sem"
  by (simp_all add: sem_release_def try_recv_def split: list.splits)

lemma int_length_pred [simp]: "xs \<noteq> [] \<Longrightarrow> int (length xs - Suc 0) = int (length xs) - 1"
  by (cases xs) simp_all

lemma map_outcomes: "(e, s') \<in> (\<lambda>(e, c). (e, g c)) ` S \<longleftrightarrow> (\<exists>c. (e, c) \<in> S \<and> s' = g c)"
  by (auto simp: image_iff split: prod.splits)

interpretation chan_sem: semaphore "\<lambda>sem. int (length (ch_buf sem))" "\<lambda>sem. Some (int (ch_cap sem))"
  "\<lambda>ctx sem. sem_acquire ctx closedCh sem" sem_release "\<lambda>sem. \<not> ch_closed sem" for closedCh
  by unfold_locales (auto simp: sem_acquire_None sem_acquire_Some)

definition slots_held :: "int \<Rightarrow> unit chan option \<Rightarrow> int" where
  "slots_held active ch = (case ch of Some ch \<Rightarrow> int (length (ch_buf ch)) | None \<Rightarrow> active)"

definition slots_cap :: "unit chan option \<Rightarrow> int option" where
  "slots_cap ch = map_option (int \<circ> ch_cap) ch"

definition downloads_held :: "SlotManager \<Rightarrow> int" where
  "downloads_held s = slots_held (sm_downloadsActive s) (sm_downloadSlots s)"

definition uploads_held :: "SlotManager \<Rightarrow> int" where
  "uploads_held s = slots_held (sm_uploadsActive s) (sm_uploadSlots s)"

lemmas held_defs = downloads_held_def uploads_held_def slots_held_def slots_cap_def

definition downloads_usable :: "SlotManager \<Rightarrow> bool" where
  "downloads_usable s \<longleftrightarrow> \<not> sm_closed s \<and> (\<forall>ch. sm_downloadSlots s = Some ch \<longrightarrow> \<not> ch_closed ch)"

definition uploads_usable :: "SlotManager \<Rightarrow> bool" where
  "uploads_usable s \<longleftrightarrow> (\<forall>ch. sm_uploadSlots s = Some ch \<longrightarrow> \<not> ch_closed ch)"

interpretation dl: semaphore downloads_held "\<lambda>s. slots_cap (sm_downloadSlots s)" AcquireDownloadSlot ReleaseDownloadSlot downloads_usable
  by unfold_locales
    (auto simp: AcquireDownloadSlot_def ReleaseDownloadSlot_def held_defs downloads_usable_def sem_acquire_None sem_acquire_Some
      map_outcomes split: option.splits if_splits)

interpretation ul: semaphore uploads_held "\<lambda>s. slots_cap (sm_uploadSlots s)" acquireGlobalUpload releaseGlobalUpload uploads_usable
  by unfold_locales
    (auto simp: acquireGlobalUpload_def releaseGlobalUpload_def held_defs uploads_usable_def sem_acquire_None sem_acquire_Some
      map_outcomes split: option.splits)

section \<open>Concurrent uploads\<close>

text \<open>
  Where an upload goroutine is: in \<^verbatim>\<open>AcquireUploadSlot\<close> (before the closed check, before the load, after a miss, with
  the user's slot in hand, with that slot taken, undoing after a global failure), between a successful acquisition and
  the release, or in \<^verbatim>\<open>ReleaseUploadSlot\<close> (after the load, after the user's slot is freed).
\<close>

datatype upc =
    UCalled | UOpen | UMissed | UHaveSlot nat | UHaveUser nat | UUndo nat go_error
  | UHolding nat | UUnlock "nat option" | UFree | UFailed go_error | UDone

text \<open>One atomic step of a goroutine for \<open>username\<close>: the possible next places and managers; none while it waits.\<close>

fun thread_step :: "time \<Rightarrow> ctx \<Rightarrow> string \<Rightarrow> upc \<Rightarrow> SlotManager \<Rightarrow> (upc \<times> SlotManager) list" where
  "thread_step now ctx u UCalled s = [(if sm_closed s then UFailed ErrSlotManagerClosed else UOpen, s)]"
| "thread_step now ctx u UOpen s =
     (case loadUserSlot now u s of (Some p, s') \<Rightarrow> [(UHaveSlot p, s')] | (None, s') \<Rightarrow> [(UMissed, s')])"
| "thread_step now ctx u UMissed s = (case storeUserSlot now u s of (p, s') \<Rightarrow> [(UHaveSlot p, s')])"
| "thread_step now ctx u (UHaveSlot p) s =
     map (\<lambda>(e, s'). (case e of None \<Rightarrow> UHaveUser p | Some err \<Rightarrow> UFailed err, s')) (userSlot_acquire now ctx p s)"
| "thread_step now ctx u (UHaveUser p) s =
     map (\<lambda>(e, s'). (case e of None \<Rightarrow> UHolding p | Some err \<Rightarrow> UUndo p err, s')) (acquireGlobalUpload ctx s)"
| "thread_step now ctx u (UUndo p err) s = [(UFailed err, userSlot_release now p s)]"
| "thread_step now ctx u (UHolding p) s = [(UUnlock (Load u (sm_userSlots s)), s)]"
| "thread_step now ctx u (UUnlock None) s = [(UFree, s)]"
| "thread_step now ctx u (UUnlock (Some p)) s = [(UFree, userSlot_release now p s)]"
| "thread_step now ctx u UFree s = [(UDone, releaseGlobalUpload s)]"
| "thread_step now ctx u (UFailed err) s = []"
| "thread_step now ctx u UDone s = []"

record slot_sys =
  sys_sm :: SlotManager
  sys_up :: "(string \<times> upc) list" \<comment> \<open>the goroutines\<close>
  sys_clean :: "(string \<times> nat \<times> bool) option" \<comment> \<open>an old entry the cleanup looks at, and whether it has found the slot free\<close>

definition advance :: "nat \<Rightarrow> upc \<Rightarrow> SlotManager \<Rightarrow> slot_sys \<Rightarrow> slot_sys" where
  "advance i pc s S = S\<lparr>sys_sm := s, sys_up := (sys_up S)[i := (fst (sys_up S ! i), pc)]\<rparr>"

text \<open>Goroutines start, take steps in any order with any context, and the manager may be closed at any time.\<close>

inductive slot_step :: "slot_sys \<Rightarrow> slot_sys \<Rightarrow> bool" where
  spawn: "slot_step S (S\<lparr>sys_up := sys_up S @ [(u, UCalled)]\<rparr>)"
| step: "i < length (sys_up S) \<Longrightarrow> sys_up S ! i = (u, pc) \<Longrightarrow>
         (pc', s') \<in> set (thread_step now ctx u pc (sys_sm S)) \<Longrightarrow> slot_step S (advance i pc' s' S)"
| close: "SlotManager_Close (sys_sm S) = Inr s' \<Longrightarrow> slot_step S (S\<lparr>sys_sm := s'\<rparr>)"

text \<open>
  The manager with its background cleanup, at the time \<open>now\<close>. A call of \<^verbatim>\<open>CleanupIdleUserSlots\<close> that began at \<open>start\<close> goes through the
  map; for each entry it looks at the time the slot was last used (\<open>old\<close>), then at whether it is free (\<open>idle\<close>, or \<open>busy\<close>: it goes
  on), and then deletes the entry (\<open>deleted\<close>). Other goroutines may run between these accesses.
\<close>

inductive cleanup_step :: "int \<Rightarrow> time \<Rightarrow> slot_sys \<Rightarrow> slot_sys \<Rightarrow> bool" for threshold now where
  spawn: "cleanup_step threshold now S (S\<lparr>sys_up := sys_up S @ [(u, UCalled)]\<rparr>)"
| step: "i < length (sys_up S) \<Longrightarrow> sys_up S ! i = (u, pc) \<Longrightarrow>
         (pc', s') \<in> set (thread_step now ctx u pc (sys_sm S)) \<Longrightarrow> cleanup_step threshold now S (advance i pc' s' S)"
| close: "SlotManager_Close (sys_sm S) = Inr s' \<Longrightarrow> cleanup_step threshold now S (S\<lparr>sys_sm := s'\<rparr>)"
| old: "sys_clean S = None \<Longrightarrow> Load u (sm_userSlots (sys_sm S)) = Some p \<Longrightarrow> start \<le> now \<Longrightarrow>
        \<not> (threshold > 0 \<and> us_lastUsed (sm_slotHeap (sys_sm S) ! p) > start - threshold) \<Longrightarrow>
        cleanup_step threshold now S (S\<lparr>sys_clean := Some (u, p, False)\<rparr>)"
| idle: "sys_clean S = Some (u, p, False) \<Longrightarrow> isIdle p (sys_sm S) \<Longrightarrow> cleanup_step threshold now S (S\<lparr>sys_clean := Some (u, p, True)\<rparr>)"
| busy: "sys_clean S = Some (u, p, False) \<Longrightarrow> \<not> isIdle p (sys_sm S) \<Longrightarrow> cleanup_step threshold now S (S\<lparr>sys_clean := None\<rparr>)"
| deleted: "sys_clean S = Some (u, p, True) \<Longrightarrow>
     cleanup_step threshold now S (S\<lparr>sys_clean := None, sys_sm := (sys_sm S)\<lparr>sm_userSlots := Delete u (sm_userSlots (sys_sm S))\<rparr>\<rparr>)"

definition initial_sys :: "int \<Rightarrow> int \<Rightarrow> slot_sys" where
  "initial_sys d m = \<lparr>sys_sm = NewSlotManager d m, sys_up = [], sys_clean = None\<rparr>"

inductive slot_reachable :: "int \<Rightarrow> int \<Rightarrow> slot_sys \<Rightarrow> bool" for d m where
  init: "slot_reachable d m (initial_sys d m)"
| step: "slot_reachable d m S \<Longrightarrow> slot_step S S' \<Longrightarrow> slot_reachable d m S'"

text \<open>States of the manager with the cleanup, and the time: it passes between steps.\<close>

inductive cleanup_reach :: "int \<Rightarrow> int \<Rightarrow> int \<Rightarrow> time \<Rightarrow> slot_sys \<Rightarrow> bool" for threshold d m where
  init: "cleanup_reach threshold d m now (initial_sys d m)"
| step: "cleanup_reach threshold d m now S \<Longrightarrow> cleanup_step threshold now S S' \<Longrightarrow> cleanup_reach threshold d m now S'"
| wait: "cleanup_reach threshold d m now S \<Longrightarrow> now \<le> now' \<Longrightarrow> cleanup_reach threshold d m now' S"

definition uploading :: "string \<Rightarrow> slot_sys \<Rightarrow> nat list" where
  "uploading u S = filter (\<lambda>i. \<exists>p. sys_up S ! i = (u, UHolding p)) [0..<length (sys_up S)]"

section \<open>Who holds what\<close>

fun holds_user :: "nat \<Rightarrow> upc \<Rightarrow> bool" where
  "holds_user p (UHaveUser q) = (q = p)"
| "holds_user p (UUndo q e) = (q = p)"
| "holds_user p (UHolding q) = (q = p)"
| "holds_user p (UUnlock q) = (q = Some p)"
| "holds_user p _ = False"

fun holds_global :: "upc \<Rightarrow> bool" where
  "holds_global (UHolding q) = True"
| "holds_global (UUnlock q) = True"
| "holds_global UFree = True"
| "holds_global _ = False"

fun knows_slot :: "upc \<Rightarrow> nat option" where
  "knows_slot (UHaveSlot p) = Some p"
| "knows_slot (UHaveUser p) = Some p"
| "knows_slot (UUndo p e) = Some p"
| "knows_slot (UHolding p) = Some p"
| "knows_slot (UUnlock q) = q"
| "knows_slot _ = None"

lemma holds_knows: "holds_user p pc \<Longrightarrow> knows_slot pc = Some p"
  by (cases pc) auto

definition count :: "('a \<Rightarrow> bool) \<Rightarrow> 'a list \<Rightarrow> nat" where
  "count P xs = length (filter P xs)"

lemma count_simps [simp]: "count P [] = 0" "count P (xs @ [x]) = count P xs + (if P x then 1 else 0)"
  by (simp_all add: count_def)

lemma count_update:
  "i < length xs \<Longrightarrow> count P (xs[i := x]) + (if P (xs ! i) then 1 else 0) = count P xs + (if P x then 1 else 0)"
proof (induction xs arbitrary: i)
  case (Cons y ys)
  then show ?case by (cases i) (auto simp: count_def)
qed simp

lemma count_zero: "(\<forall>x\<in>set xs. \<not> P x) \<Longrightarrow> count P xs = 0"
  by (simp add: count_def)

abbreviation sem_at :: "SlotManager \<Rightarrow> nat \<Rightarrow> unit chan" where
  "sem_at s p \<equiv> us_sem (sm_slotHeap s ! p)"

definition taken :: "SlotManager \<Rightarrow> nat \<Rightarrow> nat" where
  "taken s p = (if p < length (sm_slotHeap s) then length (ch_buf (sem_at s p)) else 0)"

text \<open>The map leads different users to different slots, and every slot is an open semaphore of capacity one.\<close>

definition slots_wf :: "SlotManager \<Rightarrow> bool" where
  "slots_wf s \<longleftrightarrow>
     (\<forall>u p. Load u (sm_userSlots s) = Some p \<longrightarrow> p < length (sm_slotHeap s)) \<and>
     (\<forall>u v p. Load u (sm_userSlots s) = Some p \<longrightarrow> Load v (sm_userSlots s) = Some p \<longrightarrow> u = v) \<and>
     (\<forall>p<length (sm_slotHeap s). \<not> ch_closed (sem_at s p) \<and> ch_cap (sem_at s p) = 1 \<and> chan_ok (sem_at s p)) \<and>
     uploads_usable s"

text \<open>The books balance: each semaphore counts the goroutines that hold it.\<close>

definition slot_inv :: "int \<Rightarrow> slot_sys \<Rightarrow> bool" where
  "slot_inv m S \<longleftrightarrow> slots_wf (sys_sm S) \<and>
     slots_cap (sm_uploadSlots (sys_sm S)) = (if m > 0 then Some m else None) \<and>
     (\<forall>(u, pc)\<in>set (sys_up S). pc \<noteq> UUnlock None \<and>
        (\<forall>p. knows_slot pc = Some p \<longrightarrow> Load u (sm_userSlots (sys_sm S)) = Some p)) \<and>
     (\<forall>p. taken (sys_sm S) p = count (\<lambda>(u, pc). holds_user p pc) (sys_up S)) \<and>
     uploads_held (sys_sm S) = int (count (\<lambda>(u, pc). holds_global pc) (sys_up S)) \<and>
     (m > 0 \<longrightarrow> uploads_held (sys_sm S) \<le> m)"

text \<open>What one goroutine's step has to do to keep them balanced.\<close>

lemma slot_inv_advance:
  assumes "slot_inv m S" "i < length (sys_up S)" "sys_up S ! i = (u, pc)"
    and "slots_wf s'" "slots_cap (sm_uploadSlots s') = slots_cap (sm_uploadSlots (sys_sm S))"
    and map: "\<And>v p. Load v (sm_userSlots (sys_sm S)) = Some p \<Longrightarrow> Load v (sm_userSlots s') = Some p"
    and pc': "pc' \<noteq> UUnlock None" "\<And>p. knows_slot pc' = Some p \<Longrightarrow> Load u (sm_userSlots s') = Some p"
    and user: "\<And>p. taken s' p + (if holds_user p pc then 1 else 0) = taken (sys_sm S) p + (if holds_user p pc' then 1 else 0)"
    and global: "uploads_held s' + (if holds_global pc then 1 else 0) = uploads_held (sys_sm S) + (if holds_global pc' then 1 else 0)"
    and bound: "m > 0 \<Longrightarrow> uploads_held s' \<le> m"
  shows "slot_inv m (advance i pc' s' S)"
proof -
  let ?up = "(sys_up S)[i := (u, pc')]"
  have eq: "advance i pc' s' S = S\<lparr>sys_sm := s', sys_up := ?up\<rparr>" by (simp add: advance_def assms(3))
  have "set ?up \<subseteq> insert (u, pc') (set (sys_up S))" by (rule set_update_subset_insert)
  then have "\<forall>(u, pc)\<in>set ?up. pc \<noteq> UUnlock None \<and> (\<forall>p. knows_slot pc = Some p \<longrightarrow> Load u (sm_userSlots s') = Some p)"
    using assms(1) map pc' unfolding slot_inv_def by fastforce
  moreover have "taken s' p = count (\<lambda>(u, pc). holds_user p pc) ?up" for p
    using count_update [OF assms(2), of "\<lambda>(u, pc). holds_user p pc" "(u, pc')"] user [of p] assms(1,3)
    by (simp add: slot_inv_def split: if_splits)
  moreover have "uploads_held s' = int (count (\<lambda>(u, pc). holds_global pc) ?up)"
    using count_update [OF assms(2), of "\<lambda>(u, pc). holds_global pc" "(u, pc')"] global assms(1,3)
    by (simp add: slot_inv_def split: if_splits)
  ultimately show ?thesis using assms(1,4,5) bound by (simp add: slot_inv_def eq)
qed

section \<open>The steps keep the books balanced\<close>

lemma modify_slot_simps [simp]:
  "sm_userSlots (modify_slot p f s) = sm_userSlots s" "sm_uploadSlots (modify_slot p f s) = sm_uploadSlots s"
  "sm_uploadsActive (modify_slot p f s) = sm_uploadsActive s" "sm_closedCh (modify_slot p f s) = sm_closedCh s"
  "length (sm_slotHeap (modify_slot p f s)) = length (sm_slotHeap s)"
  "uploads_held (modify_slot p f s) = uploads_held s" "uploads_usable (modify_slot p f s) = uploads_usable s"
  by (simp_all add: modify_slot_def uploads_held_def uploads_usable_def)

lemma sem_at_touch [simp]: "sem_at (modify_slot p (\<lambda>u. u\<lparr>us_lastUsed := now\<rparr>) s) q = sem_at s q"
  by (cases "p < length (sm_slotHeap s)"; cases "p = q") (simp_all add: modify_slot_def list_update_beyond)

lemma sem_at_set [simp]:
  "p < length (sm_slotHeap s) \<Longrightarrow> sem_at (modify_slot p (\<lambda>u. u\<lparr>us_sem := g u\<rparr>) s) q = (if q = p then g (sm_slotHeap s ! p) else sem_at s q)"
  by (auto simp: modify_slot_def nth_list_update)

lemma slot_inv_knows:
  assumes "slot_inv m S" "i < length (sys_up S)" "sys_up S ! i = (u, pc)" "knows_slot pc = Some p"
  shows "Load u (sm_userSlots (sys_sm S)) = Some p" "p < length (sm_slotHeap (sys_sm S))"
proof -
  have "(u, pc) \<in> set (sys_up S)" using assms(2,3) by (metis nth_mem)
  then show "Load u (sm_userSlots (sys_sm S)) = Some p" using assms(1,4) by (auto simp: slot_inv_def)
  then show "p < length (sm_slotHeap (sys_sm S))" using assms(1) by (auto simp: slot_inv_def slots_wf_def)
qed

lemma slot_inv_held_pos:
  assumes "slot_inv m S" "i < length (sys_up S)" "sys_up S ! i = (u, pc)"
  shows "holds_user p pc \<Longrightarrow> taken (sys_sm S) p > 0" "holds_global pc \<Longrightarrow> uploads_held (sys_sm S) > 0"
proof -
  have "(u, pc) \<in> set (sys_up S)" using assms(2,3) by (metis nth_mem)
  then show "holds_user p pc \<Longrightarrow> taken (sys_sm S) p > 0" "holds_global pc \<Longrightarrow> uploads_held (sys_sm S) > 0"
    using assms(1) by (auto simp: slot_inv_def count_def filter_empty_conv)
qed

lemma slots_wf_same_heap:
  assumes "slots_wf s" "sm_userSlots s' = sm_userSlots s" "length (sm_slotHeap s') = length (sm_slotHeap s)"
    "uploads_usable s'"
    "\<forall>p<length (sm_slotHeap s). ch_closed (sem_at s' p) = ch_closed (sem_at s p) \<and> ch_cap (sem_at s' p) = ch_cap (sem_at s p) \<and>
       chan_ok (sem_at s' p)"
  shows "slots_wf s'"
  using assms by (simp add: slots_wf_def)

text \<open>Releasing the user's slot.\<close>

lemma userSlot_release_simps [simp]:
  "sm_userSlots (userSlot_release now p s) = sm_userSlots s" "sm_uploadSlots (userSlot_release now p s) = sm_uploadSlots s"
  "length (sm_slotHeap (userSlot_release now p s)) = length (sm_slotHeap s)"
  "uploads_held (userSlot_release now p s) = uploads_held s" "uploads_usable (userSlot_release now p s) = uploads_usable s"
  "p < length (sm_slotHeap s) \<Longrightarrow> sem_at (userSlot_release now p s) q = (if q = p then sem_release (sem_at s p) else sem_at s q)"
  by (simp_all add: userSlot_release_def)

lemma slots_wf_userSlot_release: "slots_wf s \<Longrightarrow> p < length (sm_slotHeap s) \<Longrightarrow> slots_wf (userSlot_release now p s)"
  by (rule slots_wf_same_heap) (auto simp: slots_wf_def chan_ok_def)

lemma taken_userSlot_release:
  "p < length (sm_slotHeap s) \<Longrightarrow> taken (userSlot_release now p s) q = (if q = p then taken s p - 1 else taken s q)"
  by (simp add: taken_def)

text \<open>Acquiring it.\<close>

lemma userSlot_acquire_cases:
  assumes "slots_wf s" "p < length (sm_slotHeap s)" "(e, s') \<in> set (userSlot_acquire now ctx p s)"
  shows "sm_userSlots s' = sm_userSlots s" "sm_uploadSlots s' = sm_uploadSlots s" "uploads_held s' = uploads_held s"
    "slots_wf s'" "taken s' q = (if q = p \<and> e = None then taken s p + 1 else taken s q)"
proof -
  obtain sem where sem: "(e, sem) \<in> set (sem_acquire ctx (sm_closedCh s) (sem_at s p))"
    and s': "s' = modify_slot p (\<lambda>u. u\<lparr>us_sem := sem\<rparr>) (modify_slot p (\<lambda>u. u\<lparr>us_lastUsed := now\<rparr>) s)"
    using assms(3) by (auto simp: userSlot_acquire_def Let_def)
  have sem': "sem = (if e = None then (sem_at s p)\<lparr>ch_buf := ch_buf (sem_at s p) @ [()]\<rparr> else sem_at s p)"
    "e = None \<longrightarrow> length (ch_buf (sem_at s p)) < ch_cap (sem_at s p)"
    using sem by (cases e; simp add: sem_acquire_None sem_acquire_Some)+
  show "sm_userSlots s' = sm_userSlots s" "sm_uploadSlots s' = sm_uploadSlots s" "uploads_held s' = uploads_held s"
    by (simp_all add: s')
  show "slots_wf s'"
    by (rule slots_wf_same_heap [OF assms(1)]) (use assms(1,2) sem' in \<open>auto simp: s' slots_wf_def chan_ok_def\<close>)
  show "taken s' q = (if q = p \<and> e = None then taken s p + 1 else taken s q)"
    using assms(2) by (simp add: taken_def s' sem'(1))
qed

text \<open>Finding or creating it.\<close>

lemma storeUserSlot_hit: "Load u (sm_userSlots s) = Some p \<Longrightarrow> storeUserSlot now u s = (p, s)"
  by (simp add: storeUserSlot_def LoadOrStore_def Let_def)

lemma storeUserSlot_new:
  assumes "slots_wf s" "Load u (sm_userSlots s) = None"
  shows "\<exists>s'. storeUserSlot now u s = (length (sm_slotHeap s), s') \<and> slots_wf s' \<and>
     (\<forall>v. Load v (sm_userSlots s') = (if v = u then Some (length (sm_slotHeap s)) else Load v (sm_userSlots s))) \<and>
     (\<forall>q. taken s' q = taken s q) \<and> uploads_held s' = uploads_held s \<and> sm_uploadSlots s' = sm_uploadSlots s"
proof -
  let ?n = "length (sm_slotHeap s)"
  let ?s = "s\<lparr>sm_userSlots := Store u ?n (sm_userSlots s), sm_slotHeap := sm_slotHeap s @ [\<lparr>us_sem = make_chan 1, us_lastUsed = now\<rparr>]\<rparr>"
  have "storeUserSlot now u s = (?n, ?s)" using assms(2) by (simp add: storeUserSlot_def LoadOrStore_def Let_def)
  moreover have "slots_wf ?s"
  proof -
    have fresh: "p \<noteq> ?n" if "Load v (sm_userSlots s) = Some p" for v p using assms(1) that by (auto simp: slots_wf_def)
    have range: "p < Suc ?n" if "Load v (sm_userSlots s) = Some p" for v p using assms(1) that by (auto simp: slots_wf_def less_SucI)
    show ?thesis using assms(1) fresh range unfolding slots_wf_def
      by (auto simp: nth_append less_Suc_eq uploads_usable_def)
  qed
  moreover have "\<forall>q. taken ?s q = taken s q" by (simp add: taken_def nth_append)
  ultimately show ?thesis by (auto simp: uploads_held_def)
qed

text \<open>The global slots.\<close>

lemma acquireGlobalUpload_frame:
  "(e, s') \<in> set (acquireGlobalUpload ctx s) \<Longrightarrow>
     sm_userSlots s' = sm_userSlots s \<and> sm_slotHeap s' = sm_slotHeap s \<and> sm_closed s' = sm_closed s"
  by (auto simp: acquireGlobalUpload_def split: option.splits)

lemma releaseGlobalUpload_frame:
  "sm_userSlots (releaseGlobalUpload s) = sm_userSlots s" "sm_slotHeap (releaseGlobalUpload s) = sm_slotHeap s"
  by (simp_all add: releaseGlobalUpload_def split: option.splits)

lemma slots_wf_global:
  "slots_wf s \<Longrightarrow> sm_userSlots s' = sm_userSlots s \<Longrightarrow> sm_slotHeap s' = sm_slotHeap s \<Longrightarrow> uploads_usable s' \<Longrightarrow> slots_wf s'"
  by (simp add: slots_wf_def)

lemma taken_same_heap: "sm_slotHeap s' = sm_slotHeap s \<Longrightarrow> taken s' p = taken s p"
  by (simp add: taken_def)


text \<open>The steps that acquire, and then those that give back.\<close>

lemma missed_step_inv:
  assumes inv: "slot_inv m S" and i: "i < length (sys_up S)" "sys_up S ! i = (u, UMissed)"
    and step: "(pc', s') \<in> set (thread_step now ctx u UMissed (sys_sm S))"
  shows "slot_inv m (advance i pc' s' S)"
proof -
  let ?s = "sys_sm S"
  have wf: "slots_wf ?s" and bound: "m > 0 \<Longrightarrow> uploads_held ?s \<le> m" using inv by (auto simp: slot_inv_def)
  note adv = slot_inv_advance [OF inv i]
  show ?thesis
  proof (cases "Load u (sm_userSlots ?s)")
    case None
    from storeUserSlot_new [OF wf None, of now] step
    have new: "pc' = UHaveSlot (length (sm_slotHeap ?s))" "slots_wf s'" "uploads_held s' = uploads_held ?s"
      "sm_uploadSlots s' = sm_uploadSlots ?s" "\<forall>q. taken s' q = taken ?s q"
      "\<forall>v. Load v (sm_userSlots s') = (if v = u then Some (length (sm_slotHeap ?s)) else Load v (sm_userSlots ?s))"
      by auto
    show ?thesis using bound None by (intro adv) (auto simp: new)
  next
    case (Some p)
    then show ?thesis using step wf bound by (intro adv) (auto simp: storeUserSlot_hit)
  qed
qed

lemma acquire_step_inv:
  assumes inv: "slot_inv m S" and i: "i < length (sys_up S)" "sys_up S ! i = (u, pc)"
    and step: "(pc', s') \<in> set (thread_step now ctx u pc (sys_sm S))" and pc: "pc = UHaveSlot p \<or> pc = UHaveUser p"
  shows "slot_inv m (advance i pc' s' S)"
proof -
  let ?s = "sys_sm S"
  have wf: "slots_wf ?s" and usable: "uploads_usable ?s" and bound: "m > 0 \<Longrightarrow> uploads_held ?s \<le> m"
    and cap: "slots_cap (sm_uploadSlots ?s) = (if m > 0 then Some m else None)"
    using inv by (auto simp: slot_inv_def slots_wf_def)
  note adv = slot_inv_advance [OF inv i]
  note p = slot_inv_knows [OF inv i, of p]
  from pc show ?thesis
  proof
    assume pc: "pc = UHaveSlot p"
    obtain e where e: "(e, s') \<in> set (userSlot_acquire now ctx p ?s)"
      "pc' = (case e of None \<Rightarrow> UHaveUser p | Some err \<Rightarrow> UFailed err)"
      using step pc by auto
    show ?thesis using userSlot_acquire_cases [OF wf _ e(1)] p pc bound by (intro adv) (auto simp: e(2) split: option.splits)
  next
    assume pc: "pc = UHaveUser p"
    obtain e where e: "(e, s') \<in> set (acquireGlobalUpload ctx ?s)"
      "pc' = (case e of None \<Rightarrow> UHolding p | Some err \<Rightarrow> UUndo p err)"
      using step pc by auto
    have *: "uploads_held s' = uploads_held ?s + (if e = None then 1 else 0) \<and> slots_cap (sm_uploadSlots s') = slots_cap (sm_uploadSlots ?s)
        \<and> uploads_usable s' \<and> (m > 0 \<longrightarrow> uploads_held s' \<le> m)"
      using ul.acquire_success [OF usable, of s' ctx] ul.acquire_failure [OF usable, of _ s' ctx] e(1) bound cap
      by (cases e) auto
    show ?thesis using * acquireGlobalUpload_frame [OF e(1)] p pc slots_wf_global [OF wf] taken_same_heap [of s' ?s]
      by (intro adv) (auto simp: e(2) split: option.splits)
  qed
qed

lemma release_step_inv:
  assumes inv: "slot_inv m S" and i: "i < length (sys_up S)" "sys_up S ! i = (u, pc)"
    and step: "(pc', s') \<in> set (thread_step now ctx u pc (sys_sm S))" and pc: "pc = UUndo p err \<or> pc = UUnlock (Some p) \<or> pc = UFree"
  shows "slot_inv m (advance i pc' s' S)"
proof -
  let ?s = "sys_sm S"
  have wf: "slots_wf ?s" and usable: "uploads_usable ?s" and bound: "m > 0 \<Longrightarrow> uploads_held ?s \<le> m"
    using inv by (auto simp: slot_inv_def slots_wf_def)
  note adv = slot_inv_advance [OF inv i]
  note p = slot_inv_knows [OF inv i, of p] slot_inv_held_pos(1) [OF inv i, of p]
  consider "pc = UUndo p err" | "pc = UUnlock (Some p)" | "pc = UFree" using pc by blast
  then show ?thesis
  proof cases
    case 3
    have "uploads_held ?s > 0" using slot_inv_held_pos(2) [OF inv i] 3 by simp
    from ul.release_one [OF usable this] show ?thesis
      using step 3 slots_wf_global [OF wf] releaseGlobalUpload_frame bound taken_same_heap [OF releaseGlobalUpload_frame(2)]
      by (intro adv) auto
  qed (use step p slots_wf_userSlot_release [OF wf] bound in \<open>intro adv; auto simp: taken_userSlot_release\<close>)+
qed

lemma thread_step_inv:
  assumes inv: "slot_inv m S" and i: "i < length (sys_up S)" "sys_up S ! i = (u, pc)"
    and step: "(pc', s') \<in> set (thread_step now ctx u pc (sys_sm S))"
  shows "slot_inv m (advance i pc' s' S)"
proof -
  let ?s = "sys_sm S"
  have wf: "slots_wf ?s" and bound: "m > 0 \<Longrightarrow> uploads_held ?s \<le> m" using inv by (auto simp: slot_inv_def)
  note adv = slot_inv_advance [OF inv i]
  show ?thesis
  proof (cases pc)
    case UCalled
    then show ?thesis using step wf bound by (intro adv) (auto split: if_splits)
  next
    case UOpen
    then show ?thesis using step wf bound slots_wf_same_heap [OF wf]
      by (intro adv) (auto simp: loadUserSlot_def slots_wf_def taken_def split: option.splits)
  next
    case UMissed
    then show ?thesis using missed_step_inv [OF inv i(1)] i(2) step by simp
  next
    case (UHolding p)
    then show ?thesis using step slot_inv_knows [OF inv i, of p] wf bound by (intro adv) auto
  next
    case (UUnlock q)
    then obtain p where "q = Some p" using inv i by (cases q) (auto simp: slot_inv_def dest!: nth_mem)
    then show ?thesis using release_step_inv [OF inv i step] UUnlock by blast
  qed (use step acquire_step_inv [OF inv i step] release_step_inv [OF inv i step] in auto)
qed

lemma slot_inv_initial: "slot_inv m (initial_sys d m)"
  by (auto simp: slot_inv_def slots_wf_def initial_sys_def NewSlotManager_def taken_def held_defs uploads_usable_def)

lemma slot_step_inv: "slot_step S S' \<Longrightarrow> slot_inv m S \<Longrightarrow> slot_inv m S'"
proof (induction rule: slot_step.induct)
  case (spawn S u)
  then show ?case by (auto simp: slot_inv_def)
next
  case (close S s')
  from close.hyps have "s' = (sys_sm S)\<lparr>sm_closed := sm_closed s', sm_closedCh := sm_closedCh s'\<rparr>"
    by (auto simp: SlotManager_Close_def close_chan_def split: if_splits)
  then obtain c ch where s': "s' = (sys_sm S)\<lparr>sm_closed := c, sm_closedCh := ch\<rparr>" by blast
  have "slots_wf s' = slots_wf (sys_sm S)" "taken s' p = taken (sys_sm S) p" "uploads_held s' = uploads_held (sys_sm S)"
    "sm_uploadSlots s' = sm_uploadSlots (sys_sm S)" "sm_userSlots s' = sm_userSlots (sys_sm S)" for p
    by (simp_all add: s' slots_wf_def uploads_usable_def uploads_held_def taken_def)
  then show ?case using close.prems by (auto simp: slot_inv_def)
qed (simp add: thread_step_inv)

lemma slot_reachable_inv: "slot_reachable d m S \<Longrightarrow> slot_inv m S"
  by (induction rule: slot_reachable.induct) (auto intro: slot_inv_initial slot_step_inv)


section \<open>Properties\<close>

lemma count_le_one_unique:
  assumes "count P xs \<le> 1" "i < length xs" "j < length xs" "P (xs ! i)" "P (xs ! j)"
  shows "i = j"
proof (rule ccontr)
  assume "i \<noteq> j"
  have "{i, j} \<subseteq> {k. k < length xs \<and> P (xs ! k)}" using assms by auto
  then have "card {i, j} \<le> count P xs"
    unfolding count_def length_filter_conv_card by (rule card_mono [rotated]) simp
  with \<open>i \<noteq> j\<close> assms(1) show False by simp
qed

lemma one_upload_per_user:
  assumes "slot_inv m S" "i < length (sys_up S)" "j < length (sys_up S)"
    "sys_up S ! i = (u, UHolding p)" "sys_up S ! j = (u, UHolding q)"
  shows "i = j"
proof -
  have "p = q" using slot_inv_knows(1) [OF assms(1,2,4), of p] slot_inv_knows(1) [OF assms(1,3,5), of q] by simp
  have p: "p < length (sm_slotHeap (sys_sm S))" using slot_inv_knows(2) [OF assms(1,2,4), of p] by simp
  have "count (\<lambda>(u, pc). holds_user p pc) (sys_up S) = taken (sys_sm S) p" using assms(1) by (simp add: slot_inv_def)
  also have "\<dots> \<le> 1" using p assms(1) by (auto simp: taken_def slot_inv_def slots_wf_def chan_ok_def)
  finally show ?thesis
    by (rule count_le_one_unique) (use assms \<open>p = q\<close> in auto)
qed

text \<open>
  C11: Upload limits hold under every interleaving. Without the background cleanup, however many goroutines acquire and
  release upload slots, in whatever order their steps interleave, with any cancellations and with the manager closed at
  any time: no user ever has two uploads running, the number of uploads running never exceeds the global limit (when
  there is one), the statistics count exactly the goroutines that hold a global slot, and every per-user slot that a
  finished goroutine took has been given back.
\<close>

theorem upload_limits:
  assumes "slot_reachable d m S"
  shows "(\<forall>i j u p q. i < length (sys_up S) \<and> j < length (sys_up S) \<and> sys_up S ! i = (u, UHolding p) \<and>
             sys_up S ! j = (u, UHolding q) \<longrightarrow> i = j)
       \<and> (m > 0 \<longrightarrow> int (count (\<lambda>(u, pc). holds_global pc) (sys_up S)) \<le> m)
       \<and> st_UploadsActive (SlotManager_Stats (sys_sm S)) = int (count (\<lambda>(u, pc). holds_global pc) (sys_up S))
       \<and> ((\<forall>(u, pc)\<in>set (sys_up S). pc = UDone \<or> (\<exists>e. pc = UFailed e)) \<longrightarrow>
            (\<forall>p<length (sm_slotHeap (sys_sm S)). ch_buf (sem_at (sys_sm S) p) = []))"
proof (intro conjI impI allI)
  note inv = slot_reachable_inv [OF assms]
  show "i = j" if "i < length (sys_up S) \<and> j < length (sys_up S) \<and> sys_up S ! i = (u, UHolding p) \<and>
      sys_up S ! j = (u, UHolding q)" for i j u p q
    using one_upload_per_user [OF inv] that by blast
  show "int (count (\<lambda>(u, pc). holds_global pc) (sys_up S)) \<le> m" if "m > 0" using inv that by (simp add: slot_inv_def)
  show "st_UploadsActive (SlotManager_Stats (sys_sm S)) = int (count (\<lambda>(u, pc). holds_global pc) (sys_up S))"
    using inv by (simp add: slot_inv_def SlotManager_Stats_def held_defs)
  fix p
  assume fin: "\<forall>(u, pc)\<in>set (sys_up S). pc = UDone \<or> (\<exists>e. pc = UFailed e)" and p: "p < length (sm_slotHeap (sys_sm S))"
  have "count (\<lambda>(u, pc). holds_user p pc) (sys_up S) = 0" using fin by (intro count_zero) auto
  moreover have "taken (sys_sm S) p = count (\<lambda>(u, pc). holds_user p pc) (sys_up S)" using inv by (simp add: slot_inv_def)
  ultimately show "ch_buf (sem_at (sys_sm S) p) = []" using p by (simp add: taken_def)
qed

text \<open>An execution: each entry lets one goroutine (by number) take one step, choosing the given outcome.\<close>

fun run_threads :: "(nat \<times> nat) list \<Rightarrow> slot_sys \<Rightarrow> slot_sys option" where
  "run_threads [] S = Some S"
| "run_threads ((i, k) # sched) S =
     (if i < length (sys_up S)
      then case sys_up S ! i of (u, pc) \<Rightarrow>
        (let outs = thread_step 0 None u pc (sys_sm S)
         in if k < length outs then run_threads sched (advance i (fst (outs ! k)) (snd (outs ! k)) S) else None)
      else None)"

lemma run_threads_rel:
  assumes "\<And>i S u pc pc' s'. i < length (sys_up S) \<Longrightarrow> sys_up S ! i = (u, pc) \<Longrightarrow>
      (pc', s') \<in> set (thread_step 0 None u pc (sys_sm S)) \<Longrightarrow> R S (advance i pc' s' S)"
    and "run_threads sched S = Some S'"
  shows "R\<^sup>*\<^sup>* S S'"
  using assms(2)
proof (induction sched S rule: run_threads.induct)
  case (2 i k sched S)
  obtain u pc where pc: "sys_up S ! i = (u, pc)" by fastforce
  let ?outs = "thread_step 0 None u pc (sys_sm S)"
  from "2.prems" pc have i: "i < length (sys_up S)" "k < length ?outs"
    and run: "run_threads sched (advance i (fst (?outs ! k)) (snd (?outs ! k)) S) = Some S'"
    by (auto simp: Let_def split: if_splits)
  have "R S (advance i (fst (?outs ! k)) (snd (?outs ! k)) S)"
    by (rule assms(1) [OF i(1) pc]) (use nth_mem [OF i(2)] in simp)
  from converse_rtranclp_into_rtranclp [of R, OF this "2.IH" [OF i(1) pc [symmetric] refl i(2) run]] show ?case .
qed simp

lemma run_threads_steps: "run_threads sched S = Some S' \<Longrightarrow> slot_step\<^sup>*\<^sup>* S S'"
  using run_threads_rel [of slot_step] slot_step.step [where now = 0 and ctx = None] by blast

lemma slot_reachable_steps: "slot_step\<^sup>*\<^sup>* S S' \<Longrightarrow> slot_reachable d m S \<Longrightarrow> slot_reachable d m S'"
  by (induction rule: rtranclp_induct) (auto intro: slot_reachable.step)

definition spawned :: "string \<Rightarrow> slot_sys \<Rightarrow> slot_sys" where
  "spawned u S = S\<lparr>sys_up := sys_up S @ [(u, UCalled)]\<rparr>"

lemma spawned_step: "slot_step S (spawned u S)"
  by (simp add: spawned_def slot_step.spawn)

definition demo_sys :: slot_sys where
  "demo_sys = the (run_threads [(0, 0), (0, 0), (0, 0), (0, 0), (0, 0), (1, 0), (1, 0)] (spawned ''bob'' (spawned ''bob'' (initial_sys 2 1))))"

lemma demo_sys_reachable: "slot_reachable 2 1 demo_sys"
proof -
  have "run_threads [(0, 0), (0, 0), (0, 0), (0, 0), (0, 0), (1, 0), (1, 0)] (spawned ''bob'' (spawned ''bob'' (initial_sys 2 1))) = Some demo_sys"
    unfolding demo_sys_def by code_simp
  moreover have "slot_reachable 2 1 (spawned ''bob'' (spawned ''bob'' (initial_sys 2 1)))"
    by (intro slot_reachable.step [OF _ spawned_step] slot_reachable.init)
  ultimately show ?thesis using run_threads_steps slot_reachable_steps by blast
qed

text \<open>Two goroutines for one user: the first holds a slot, the second has found the same slot and waits.\<close>

theorem upload_limits_witness:
  "sys_up demo_sys = [(''bob'', UHolding 0), (''bob'', UHaveSlot 0)] \<and> thread_step 0 None ''bob'' (UHaveSlot 0) (sys_sm demo_sys) = []
   \<and> st_UploadsActive (SlotManager_Stats (sys_sm demo_sys)) = 1"
proof -
  have up: "sys_up demo_sys = [(''bob'', UHolding 0), (''bob'', UHaveSlot 0)]" by code_simp
  moreover have "thread_step 0 None ''bob'' (UHaveSlot 0) (sys_sm demo_sys) = []" by code_simp
  moreover have "st_UploadsActive (SlotManager_Stats (sys_sm demo_sys)) = 1"
    using upload_limits [OF demo_sys_reachable] by (simp add: up count_def)
  ultimately show ?thesis by blast
qed


text \<open>\<open>n\<close> more uploads fit under the global limit.\<close>

definition global_room :: "nat \<Rightarrow> SlotManager \<Rightarrow> bool" where
  "global_room n s \<longleftrightarrow> (case sm_uploadSlots s of None \<Rightarrow> True | Some ch \<Rightarrow> \<not> ch_closed ch \<and> length (ch_buf ch) + n \<le> ch_cap ch)"

lemma isIdle_iff: "isIdle p s \<longleftrightarrow> \<not> ch_closed (sem_at s p) \<and> length (ch_buf (sem_at s p)) < ch_cap (sem_at s p)"
  by (simp add: isIdle_def try_send_def)

lemma acquireGlobal_room:
  assumes "global_room (Suc n) s"
  shows "\<exists>s'. (None, s') \<in> set (acquireGlobalUpload ctx s) \<and> global_room n s' \<and> sm_userSlots s' = sm_userSlots s \<and> sm_slotHeap s' = sm_slotHeap s"
proof (cases "sm_uploadSlots s")
  case None
  then show ?thesis by (intro exI [of _ "s\<lparr>sm_uploadsActive := sm_uploadsActive s + 1\<rparr>"]) (simp add: acquireGlobalUpload_def global_room_def)
next
  case (Some ch)
  then have "(None, ch\<lparr>ch_buf := ch_buf ch @ [()]\<rparr>) \<in> set (sem_acquire ctx (sm_closedCh s) ch)"
    using assms by (simp add: sem_acquire_None global_room_def)
  with Some assms show ?thesis
    by (intro exI [of _ "s\<lparr>sm_uploadSlots := Some (ch\<lparr>ch_buf := ch_buf ch @ [()]\<rparr>)\<rparr>"]) (force simp: acquireGlobalUpload_def global_room_def)
qed

text \<open>A goroutine that has a free slot in hand gets to upload.\<close>

lemma takes_slot:
  assumes "i < length (sys_up S)" "sys_up S ! i = (u, UHaveSlot p)" "p < length (sm_slotHeap (sys_sm S))" "isIdle p (sys_sm S)"
    "global_room (Suc n) (sys_sm S)"
  shows "\<exists>s'. (cleanup_step threshold now)\<^sup>*\<^sup>* S (advance i (UHolding p) s' S) \<and> global_room n s' \<and>
     sm_userSlots s' = sm_userSlots (sys_sm S) \<and> length (sm_slotHeap s') = length (sm_slotHeap (sys_sm S))"
proof -
  let ?s = "sys_sm S"
  let ?sem = "(sem_at ?s p)\<lparr>ch_buf := ch_buf (sem_at ?s p) @ [()]\<rparr>"
  define s1 where "s1 = modify_slot p (\<lambda>u. u\<lparr>us_sem := ?sem\<rparr>) (modify_slot p (\<lambda>u. u\<lparr>us_lastUsed := now\<rparr>) ?s)"
  have s1: "sm_userSlots s1 = sm_userSlots ?s" "length (sm_slotHeap s1) = length (sm_slotHeap ?s)" "global_room (Suc n) s1"
    using assms(5) by (simp_all add: s1_def modify_slot_def global_room_def)
  have "(None, s1) \<in> set (userSlot_acquire now None p ?s)"
    using assms(3,4) sem_at_touch [of p now ?s p] unfolding userSlot_acquire_def s1_def Let_def set_map
    by (intro image_eqI [where x = "(None, ?sem)"]) (simp_all add: isIdle_iff sem_acquire_None)
  then have "(UHaveUser p, s1) \<in> set (thread_step now None u (UHaveSlot p) ?s)" by force
  then have step1: "cleanup_step threshold now S (advance i (UHaveUser p) s1 S)" by (rule cleanup_step.step [OF assms(1,2)])
  from acquireGlobal_room [OF s1(3), of None] obtain s2 where
    s2: "(None, s2) \<in> set (acquireGlobalUpload None s1)" "global_room n s2" "sm_userSlots s2 = sm_userSlots s1" "sm_slotHeap s2 = sm_slotHeap s1" by blast
  from s2(1) have "(UHolding p, s2) \<in> set (thread_step now None u (UHaveUser p) s1)" by force
  then have "cleanup_step threshold now (advance i (UHaveUser p) s1 S) (advance i (UHolding p) s2 (advance i (UHaveUser p) s1 S))"
    using assms(1,2) by (intro cleanup_step.step [where u = u and pc = "UHaveUser p" and ctx = None]) (simp_all add: advance_def)
  moreover have "advance i (UHolding p) s2 (advance i (UHaveUser p) s1 S) = advance i (UHolding p) s2 S"
    using assms(1,2) by (simp add: advance_def)
  ultimately have "(cleanup_step threshold now)\<^sup>*\<^sup>* S (advance i (UHolding p) s2 S)" using step1 by simp
  with s2 s1 show ?thesis by auto
qed

text \<open>
  C36: The background cleanup breaks the one-upload-per-user rule, for every idle threshold. Let two goroutines be about to look up
  the slot of a user, which is free and has not been used for the threshold. The cleanup finds the slot old and free; before it deletes the entry,
  the first goroutine looks the slot up, which marks it as used just now, and takes it. The cleanup deletes the entry all the
  same, the second goroutine creates a new slot, and both upload to that user at once. No time has to pass for that.
\<close>

theorem cleanup_race:
  assumes "i < length (sys_up S)" "j < length (sys_up S)" "i \<noteq> j" "sys_up S ! i = (u, UOpen)" "sys_up S ! j = (u, UOpen)" "sys_clean S = None"
    and "Load u (sm_userSlots (sys_sm S)) = Some p" "p < length (sm_slotHeap (sys_sm S))" "isIdle p (sys_sm S)"
    and "us_lastUsed (sm_slotHeap (sys_sm S) ! p) \<le> now - threshold" "global_room 2 (sys_sm S)"
  shows "\<exists>S' q. (cleanup_step threshold now)\<^sup>*\<^sup>* S S' \<and> q \<noteq> p \<and> sys_up S' = (sys_up S)[i := (u, UHolding p), j := (u, UHolding q)]"
proof -
  let ?step = "cleanup_step threshold now" and ?s = "sys_sm S"
  let ?S2 = "S\<lparr>sys_clean := Some (u, p, True)\<rparr>"
  have "?step S (S\<lparr>sys_clean := Some (u, p, False)\<rparr>)" using assms(6,7,10) by (intro cleanup_step.old [where start = now]) auto
  moreover have "?step (S\<lparr>sys_clean := Some (u, p, False)\<rparr>) ?S2"
    using cleanup_step.idle [of "S\<lparr>sys_clean := Some (u, p, False)\<rparr>" u p threshold now] assms(9) by simp
  ultimately have to2: "?step\<^sup>*\<^sup>* S ?S2" by simp
  define s3 where "s3 = modify_slot p (\<lambda>u. u\<lparr>us_lastUsed := now\<rparr>) ?s"
  define S3 where "S3 = advance i (UHaveSlot p) s3 ?S2"
  have "(UHaveSlot p, s3) \<in> set (thread_step now None u UOpen ?s)" using assms(7) by (simp add: loadUserSlot_def s3_def)
  then have "?step ?S2 S3" unfolding S3_def using assms(1,4)
    by (intro cleanup_step.step [where u = u and pc = UOpen and ctx = None]) (simp_all del: thread_step.simps)
  with to2 have to3: "?step\<^sup>*\<^sup>* S S3" by simp
  have S3: "sys_up S3 ! i = (u, UHaveSlot p)" "i < length (sys_up S3)" "sys_sm S3 = s3" "sys_clean S3 = Some (u, p, True)"
    "sm_userSlots s3 = sm_userSlots ?s" "length (sm_slotHeap s3) = length (sm_slotHeap ?s)" "isIdle p s3" "global_room 2 s3"
    using assms by (simp_all add: S3_def advance_def s3_def modify_slot_def isIdle_iff global_room_def)
  from takes_slot [of i S3 u p 1] S3 assms(8) obtain s4 where
    s4: "?step\<^sup>*\<^sup>* S3 (advance i (UHolding p) s4 S3)" "global_room 1 s4" "sm_userSlots s4 = sm_userSlots ?s" "length (sm_slotHeap s4) = length (sm_slotHeap ?s)"
    by (auto simp: numeral_2_eq_2)
  define s5 where "s5 = s4\<lparr>sm_userSlots := Delete u (sm_userSlots s4)\<rparr>"
  define S5 where "S5 = (advance i (UHolding p) s4 S3)\<lparr>sys_clean := None, sys_sm := s5\<rparr>"
  have "?step (advance i (UHolding p) s4 S3) S5"
    using cleanup_step.deleted [of "advance i (UHolding p) s4 S3" u p threshold now] S3(4) by (simp add: S5_def s5_def advance_def)
  with to3 s4(1) have to5: "?step\<^sup>*\<^sup>* S S5" by simp
  have S5: "sys_up S5 = (sys_up S)[i := (u, UHolding p)]" "sys_sm S5 = s5" "Load u (sm_userSlots s5) = None" "global_room 1 s5"
    "length (sm_slotHeap s5) = length (sm_slotHeap ?s)"
    using s4(2,4) assms(1,4) by (simp_all add: S5_def S3_def advance_def s5_def global_room_def)
  let ?q = "length (sm_slotHeap ?s)"
  obtain s6 where s6: "storeUserSlot now u s5 = (?q, s6)" "?q < length (sm_slotHeap s6)" "isIdle ?q s6" "global_room 1 s6"
    using S5(3-5) by (simp add: storeUserSlot_def LoadOrStore_def Let_def isIdle_iff global_room_def nth_append)
  have j: "j < length (sys_up S5)" "sys_up S5 ! j = (u, UOpen)" using assms(2,3,5) S5(1) by simp_all
  have "(UMissed, s5) \<in> set (thread_step now None u UOpen s5)" using S5(3) by (simp add: loadUserSlot_def)
  then have "?step S5 (advance j UMissed s5 S5)" using cleanup_step.step [OF j, of UMissed s5 now None] S5(2) by simp
  moreover have "?step (advance j UMissed s5 S5) (advance j (UHaveSlot ?q) s6 (advance j UMissed s5 S5))"
    using j s6(1) by (intro cleanup_step.step [where u = u and pc = UMissed and ctx = None]) (simp_all add: advance_def)
  ultimately have to6: "?step\<^sup>*\<^sup>* S (advance j (UHaveSlot ?q) s6 (advance j UMissed s5 S5))" using to5 by simp
  let ?S6 = "advance j (UHaveSlot ?q) s6 (advance j UMissed s5 S5)"
  have "j < length (sys_up ?S6)" "sys_up ?S6 ! j = (u, UHaveSlot ?q)" "sys_sm ?S6 = s6" using j by (simp_all add: advance_def)
  with takes_slot [of j ?S6 u ?q 0] s6 obtain s7 where "?step\<^sup>*\<^sup>* ?S6 (advance j (UHolding ?q) s7 ?S6)" by auto
  with to6 have "?step\<^sup>*\<^sup>* S (advance j (UHolding ?q) s7 ?S6)" by simp
  moreover have "sys_up (advance j (UHolding ?q) s7 ?S6) = (sys_up S)[i := (u, UHolding p), j := (u, UHolding ?q)]"
    using j S5(1) assms(2,3,5) by (simp add: advance_def)
  moreover have "?q \<noteq> p" using assms(8) by simp
  ultimately show ?thesis by blast
qed

lemma cleanup_reach_steps: "(cleanup_step threshold now)\<^sup>*\<^sup>* S S' \<Longrightarrow> cleanup_reach threshold d m now S \<Longrightarrow> cleanup_reach threshold d m now S'"
  by (induction rule: rtranclp_induct) (auto intro: cleanup_reach.step)

text \<open>An upload to bob ended at time 0; much later two more are about to begin.\<close>

definition idle_sys :: slot_sys where
  "idle_sys = the (run_threads [(0, 0), (0, 0), (0, 0), (0, 0), (0, 0), (0, 0), (0, 0), (0, 0), (1, 0), (2, 0)]
     (spawned ''bob'' (spawned ''bob'' (spawned ''bob'' (initial_sys 0 5)))))"

lemma idle_sys_reach: "cleanup_reach (900 * second) 0 5 (2000 * second) idle_sys"
proof -
  let ?S = "spawned ''bob'' (spawned ''bob'' (spawned ''bob'' (initial_sys 0 5)))"
  have "run_threads [(0, 0), (0, 0), (0, 0), (0, 0), (0, 0), (0, 0), (0, 0), (0, 0), (1, 0), (2, 0)] ?S = Some idle_sys"
    unfolding idle_sys_def by code_simp
  then have "(cleanup_step (900 * second) 0)\<^sup>*\<^sup>* ?S idle_sys"
    using run_threads_rel [of "cleanup_step (900 * second) 0"] cleanup_step.step [where now = 0 and ctx = None] by blast
  moreover have "cleanup_reach (900 * second) 0 5 0 ?S"
    unfolding spawned_def by (intro cleanup_reach.step [OF _ cleanup_step.spawn] cleanup_reach.init)
  ultimately have "cleanup_reach (900 * second) 0 5 0 idle_sys" by (rule cleanup_reach_steps)
  then show ?thesis by (rule cleanup_reach.wait) (simp add: second_def)
qed

theorem cleanup_race_witness:
  "\<exists>S q. cleanup_reach (900 * second) 0 5 (2000 * second) S \<and> q \<noteq> 0 \<and>
     sys_up S = [(''bob'', UDone), (''bob'', UHolding 0), (''bob'', UHolding q)]"
proof -
  have S: "sys_up idle_sys = [(''bob'', UDone), (''bob'', UOpen), (''bob'', UOpen)]" "sys_clean idle_sys = None"
    "Load ''bob'' (sm_userSlots (sys_sm idle_sys)) = Some 0" "0 < length (sm_slotHeap (sys_sm idle_sys))" "isIdle 0 (sys_sm idle_sys)"
    "us_lastUsed (sm_slotHeap (sys_sm idle_sys) ! 0) \<le> 2000 * second - 900 * second" "global_room 2 (sys_sm idle_sys)"
    by code_simp+
  have "\<exists>S' q. (cleanup_step (900 * second) (2000 * second))\<^sup>*\<^sup>* idle_sys S' \<and> q \<noteq> 0 \<and>
      sys_up S' = (sys_up idle_sys)[1 := (''bob'', UHolding 0), 2 := (''bob'', UHolding q)]"
    by (rule cleanup_race) (use S in simp_all)
  then show ?thesis using cleanup_reach_steps [OF _ idle_sys_reach] S(1) by auto
qed

section \<open>Single calls\<close>

text \<open>
  Download slots behave as a counting semaphore. As long as every goroutine releases only what it acquired: when \<open>n\<close>
  downloads hold a slot the statistics say so, \<open>n\<close> never exceeds a positive limit, an acquisition fails only with the
  error of its cancelled context or because the manager was closed, it waits exactly when the limit is reached (and it
  is not cancelled or closed), and after a release a waiting download can go ahead.
\<close>

theorem download_slots:
  assumes "dl.uses n s"
  shows "st_DownloadsActive (SlotManager_Stats s) = int n
       \<and> (\<forall>c. sm_downloadSlots s = Some c \<longrightarrow> n \<le> ch_cap c)
       \<and> (\<forall>e s'. (Some e, s') \<in> set (AcquireDownloadSlot ctx s) \<longrightarrow> ctx = Some e \<or> e = ErrSlotManagerClosed)
       \<and> (AcquireDownloadSlot None s = [] \<longleftrightarrow>
            (\<exists>c. sm_downloadSlots s = Some c \<and> n = ch_cap c \<and> \<not> ch_closed (sm_closedCh s)))
       \<and> (n > 0 \<longrightarrow> (\<exists>s'. (None, s') \<in> set (AcquireDownloadSlot ctx (ReleaseDownloadSlot s))))"
proof (intro conjI allI impI)
  have inv: "downloads_usable s" "downloads_held s = int n" "\<forall>c. slots_cap (sm_downloadSlots s) = Some c \<longrightarrow> int n \<le> c"
    using dl.uses_inv [OF assms] by auto
  show "st_DownloadsActive (SlotManager_Stats s) = int n" using inv(2) by (simp add: SlotManager_Stats_def held_defs)
  show le: "n \<le> ch_cap c" if "sm_downloadSlots s = Some c" for c using inv(3) that by (simp add: slots_cap_def)
  show "ctx = Some e \<or> e = ErrSlotManagerClosed" if "(Some e, s') \<in> set (AcquireDownloadSlot ctx s)" for e s'
    using dl.acquire_failure [OF inv(1) that] by blast
  show "\<exists>s'. (None, s') \<in> set (AcquireDownloadSlot ctx (ReleaseDownloadSlot s))" if "n > 0"
    using dl.room_after_release [of "n - 1" s ctx] assms that by simp
  show "AcquireDownloadSlot None s = [] \<longleftrightarrow>
      (\<exists>c. sm_downloadSlots s = Some c \<and> n = ch_cap c \<and> \<not> ch_closed (sm_closedCh s))"
  proof (cases "sm_downloadSlots s")
    case (Some c)
    have "length (ch_buf c) = n" "\<not> ch_closed c" "\<not> sm_closed s"
      using inv Some by (simp_all add: held_defs downloads_usable_def)
    with Some le [OF Some] show ?thesis
      by (auto simp: AcquireDownloadSlot_def sem_acquire_def try_send_def)
  qed (use inv in \<open>simp add: AcquireDownloadSlot_def downloads_usable_def\<close>)
qed

theorem download_slots_witness:
  "st_DownloadsActive (SlotManager_Stats (snd (hd (AcquireDownloadSlot None (NewSlotManager 1 1))))) = 1
   \<and> AcquireDownloadSlot None (snd (hd (AcquireDownloadSlot None (NewSlotManager 1 1)))) = []"
proof -
  have "dl.uses 0 (NewSlotManager 1 1)"
    by (rule dl.uses.init) (simp_all add: NewSlotManager_def downloads_usable_def held_defs)
  then have one: "dl.uses (Suc 0) (snd (hd (AcquireDownloadSlot None (NewSlotManager 1 1))))"
    by (rule dl.uses.acquired [where ctx = None])
      (simp add: AcquireDownloadSlot_def NewSlotManager_def sem_acquire_def try_send_def)
  have "\<exists>c. sm_downloadSlots (snd (hd (AcquireDownloadSlot None (NewSlotManager 1 1)))) = Some c \<and> Suc 0 = ch_cap c \<and>
      \<not> ch_closed (sm_closedCh (snd (hd (AcquireDownloadSlot None (NewSlotManager 1 1)))))"
    by (simp add: AcquireDownloadSlot_def NewSlotManager_def sem_acquire_def try_send_def)
  with download_slots [OF one, of None] show ?thesis by simp
qed

text \<open>
  Shutting down is final for new callers. Closing twice is harmless and never panics; after it every new acquisition,
  upload or download, is refused at once with the closed error and leaves the manager unchanged, and a goroutine that was
  already waiting for a per-user, global or download slot is woken: its \<^verbatim>\<open>select\<close> has a ready case.
\<close>

theorem slots_closed:
  assumes "SlotManager_Close s = Inr s'" "sm_closed s \<longleftrightarrow> ch_closed (sm_closedCh s)"
  shows "SlotManager_Close s' = Inr s'
       \<and> AcquireDownloadSlot ctx s' = [(Some ErrSlotManagerClosed, s')]
       \<and> AcquireUploadSlot now ctx u s' = [(Some ErrSlotManagerClosed, s')]
       \<and> (Some ErrSlotManagerClosed, sem) \<in> set (sem_acquire ctx (sm_closedCh s') sem)"
  using assms
  by (auto simp: SlotManager_Close_def close_chan_def AcquireDownloadSlot_def AcquireUploadSlot_def sem_acquire_Some
      split: if_splits)

theorem slots_closed_witness:
  "\<exists>s'. SlotManager_Close (NewSlotManager 1 1) = Inr s' \<and>
     AcquireUploadSlot 0 None ''bob'' s' = [(Some ErrSlotManagerClosed, s')]"
proof -
  have "\<exists>s'. SlotManager_Close (NewSlotManager 1 1) = Inr s'" by (simp add: SlotManager_Close_def NewSlotManager_def close_chan_def)
  then obtain s' where s': "SlotManager_Close (NewSlotManager 1 1) = Inr s'" ..
  with slots_closed [OF s', of None 0 "''bob''"] show ?thesis by (auto simp: NewSlotManager_def)
qed

end
