(* ===== verification/Protocol.thy ===== *)
theory Protocol
  imports Errors Codes
begin

text \<open>
  \<^verbatim>\<open>src/protocol/reader.go\<close> and \<^verbatim>\<open>src/protocol/writer.go\<close>: the sticky-error \<^verbatim>\<open>Reader\<close> and
  \<^verbatim>\<open>Writer\<close>. Both are state-monad programs, so the message codecs read like their Go sources.
  The \<^verbatim>\<open>Reader\<close> of this repository always reads a \<^verbatim>\<open>bytes.Reader\<close>, so its source is the list of
  remaining bytes; the \<^verbatim>\<open>Writer\<close> writes to any \<^verbatim>\<open>io.Writer\<close>, carried in the record as its state
  and its \<^verbatim>\<open>Write\<close> method. The theory ends with the calculus the codecs are verified in: \<open>writes\<close>
  (the bytes an encoder appends), \<open>reads\<close> (a decoder consumes exactly an encoding), \<open>truncates\<close> (a
  decoder fails on every strict prefix of an encoding) and the interface \<open>codec\<close> built from them.
\<close>

section \<open>Reader\<close>

record Reader =
  r_src :: "byte list"
  r_err :: "go_error option"

type_synonym 'a rd = "(Reader, 'a) state"

definition NewReader :: "byte list \<Rightarrow> Reader" where
  "NewReader bs = \<lparr>r_src = bs, r_err = None\<rparr>"

definition Reader_Error :: "go_error option rd" where
  "Reader_Error = State (\<lambda>r. (r_err r, r))"

text \<open>
  \<^verbatim>\<open>io.ReadFull\<close> on a \<^verbatim>\<open>bytes.Reader\<close>: \<^verbatim>\<open>io.EOF\<close> if nothing could be read, \<^verbatim>\<open>io.ErrUnexpectedEOF\<close> if
  the source ended early (what was there is consumed), no error for a zero-length buffer.
\<close>

definition io_ReadFull :: "nat \<Rightarrow> byte list \<Rightarrow> (go_error + byte list) \<times> byte list" where
  "io_ReadFull n bs =
     (if n \<le> length bs then (Inr (take n bs), drop n bs)
      else (Inl (if bs = [] then EOF else ErrUnexpectedEOF), []))"

text \<open>\<^verbatim>\<open>r.err = binary.Read(r.r, binary.LittleEndian, &v)\<close> for an \<open>n\<close>-byte integer \<open>v\<close>, initially 0.\<close>

definition binary_Read :: "nat \<Rightarrow> Reader \<Rightarrow> 'a::len word \<times> Reader" where
  "binary_Read n r =
     (case io_ReadFull n (r_src r) of
        (Inl e, rest) \<Rightarrow> (0, r\<lparr>r_src := rest, r_err := Some e\<rparr>)
      | (Inr bs, rest) \<Rightarrow> (from_le bs, r\<lparr>r_src := rest, r_err := None\<rparr>))"

definition ReadUint8 :: "byte rd" where
  "ReadUint8 = State (\<lambda>r. if r_err r \<noteq> None then (0, r) else binary_Read 1 r)"

definition ReadUint32 :: "u32 rd" where
  "ReadUint32 = State (\<lambda>r. if r_err r \<noteq> None then (0, r) else binary_Read 4 r)"

definition ReadUint64 :: "u64 rd" where
  "ReadUint64 = State (\<lambda>r. if r_err r \<noteq> None then (0, r) else binary_Read 8 r)"

definition maxStringLength :: nat where
  "maxStringLength = 10 * 1024 * 1024"

definition ReadString :: "string rd" where
  "ReadString = State (\<lambda>r.
     if r_err r \<noteq> None then ('''', r) else
     (let (len, r1) = run_state ReadUint32 r in
      if r_err r1 \<noteq> None then ('''', r1) else
      if unat len > maxStringLength then
        ('''', r1\<lparr>r_err := Some (ErrorString (''string length '' @ decimal (unat len) @
                     '' exceeds maximum '' @ decimal maxStringLength))\<rparr>)
      else (case io_ReadFull (unat len) (r_src r1) of
              (Inl e, rest) \<Rightarrow> ('''', r1\<lparr>r_src := rest, r_err := Some e\<rparr>)
            | (Inr b, rest) \<Rightarrow> (string_of_bytes b, r1\<lparr>r_src := rest, r_err := None\<rparr>))))"

text \<open>A nil slice and an empty one are both \<open>[]\<close>: the callers only look at the length and the bytes.\<close>

definition ReadBytes :: "int \<Rightarrow> byte list rd" where
  "ReadBytes n = State (\<lambda>r.
     if r_err r \<noteq> None then ([], r) else
     if n < 0 then ([], r\<lparr>r_err := Some (ErrorString (''invalid byte count: '' @ decimal_int n))\<rparr>)
     else (case io_ReadFull (nat n) (r_src r) of
             (Inl e, rest) \<Rightarrow> ([], r\<lparr>r_src := rest, r_err := Some e\<rparr>)
           | (Inr b, rest) \<Rightarrow> (b, r\<lparr>r_src := rest, r_err := None\<rparr>)))"

section \<open>Writer\<close>

record 'w Writer =
  w_sink :: 'w
  w_Write :: "'w \<Rightarrow> byte list \<Rightarrow> go_error option \<times> 'w"
  w_err :: "go_error option"

type_synonym 'w wr = "('w Writer, unit) state"

definition NewWriter :: "'w \<Rightarrow> ('w \<Rightarrow> byte list \<Rightarrow> go_error option \<times> 'w) \<Rightarrow> 'w Writer" where
  "NewWriter sink f = \<lparr>w_sink = sink, w_Write = f, w_err = None\<rparr>"

definition Writer_Error :: "('w Writer, go_error option) state" where
  "Writer_Error = State (\<lambda>w. (w_err w, w))"

text \<open>\<^verbatim>\<open>_, w.err = w.w.Write(b)\<close>, which is also what \<^verbatim>\<open>binary.Write\<close> does with the encoded bytes.\<close>

definition sink_Write :: "byte list \<Rightarrow> 'w Writer \<Rightarrow> 'w Writer" where
  "sink_Write b w = (case w_Write w (w_sink w) b of (e, s) \<Rightarrow> w\<lparr>w_sink := s, w_err := e\<rparr>)"

definition WriteUint8 :: "byte \<Rightarrow> 'w wr" where
  "WriteUint8 v = State (\<lambda>w. ((), if w_err w \<noteq> None then w else sink_Write (le_bytes 1 v) w))"

definition WriteUint32 :: "u32 \<Rightarrow> 'w wr" where
  "WriteUint32 v = State (\<lambda>w. ((), if w_err w \<noteq> None then w else sink_Write (le_bytes 4 v) w))"

definition WriteUint64 :: "u64 \<Rightarrow> 'w wr" where
  "WriteUint64 v = State (\<lambda>w. ((), if w_err w \<noteq> None then w else sink_Write (le_bytes 8 v) w))"

text \<open>\<^verbatim>\<open>uint32(len(b))\<close> keeps the low 32 bits of the length.\<close>

definition WriteString :: "string \<Rightarrow> 'w wr" where
  "WriteString s = State (\<lambda>w. ((),
     if w_err w \<noteq> None then w else
     (let b = bytes_of_string s;
          w1 = snd (run_state (WriteUint32 (word_of_nat (length b))) w)
      in if w_err w1 \<noteq> None then w1 else sink_Write b w1)))"

definition WriteBytes :: "byte list \<Rightarrow> 'w wr" where
  "WriteBytes b = State (\<lambda>w. ((), if w_err w \<noteq> None then w else sink_Write b w))"

text \<open>\<^verbatim>\<open>bytes.Buffer\<close>, the sink every encoder of the repository is given: its \<^verbatim>\<open>Write\<close> never fails.\<close>

definition Buffer_Write :: "byte list \<Rightarrow> byte list \<Rightarrow> go_error option \<times> byte list" where
  "Buffer_Write buf p = (None, buf @ p)"

definition buffer_of :: "byte list wr \<Rightarrow> byte list Writer" where
  "buffer_of m = snd (run_state m (NewWriter [] Buffer_Write))"

section \<open>Sticky errors\<close>

text \<open>
  \<open>inert failed m z\<close>: once \<open>failed\<close> holds of the state, \<open>m\<close> returns \<open>z\<close> and changes nothing. Inert
  operations compose.
\<close>

definition inert :: "('s \<Rightarrow> bool) \<Rightarrow> ('s, 'a) state \<Rightarrow> 'a \<Rightarrow> bool" where
  "inert failed m z \<longleftrightarrow> (\<forall>s. failed s \<longrightarrow> run_state m s = (z, s))"

definition rd_failed :: "Reader \<Rightarrow> bool" where
  "rd_failed r \<longleftrightarrow> r_err r \<noteq> None"

definition wr_failed :: "'w Writer \<Rightarrow> bool" where
  "wr_failed w \<longleftrightarrow> w_err w \<noteq> None"

lemma rd_failed_simps [simp]: "\<not> rd_failed (NewReader b)" "rd_failed (r\<lparr>r_err := Some e\<rparr>)"
  by (simp_all add: rd_failed_def NewReader_def)

lemma inertD: "inert f m z \<Longrightarrow> f s \<Longrightarrow> run_state m s = (z, s)"
  by (simp add: inert_def)

lemma inert_bind [inert_intros]:
  "inert f m z \<Longrightarrow> inert f (k z) y \<Longrightarrow> inert f (State_Monad.bind m k) y"
  by (simp add: inert_def)

lemma inert_return [inert_intros]: "inert f (State_Monad.return x) x"
  by (simp add: inert_def)

lemma inert_readers [inert_intros]:
  "inert rd_failed ReadUint8 0" "inert rd_failed ReadUint32 0" "inert rd_failed ReadUint64 0"
  "inert rd_failed ReadString ''''" "inert rd_failed (ReadBytes n) []"
  by (simp_all add: inert_def rd_failed_def ReadUint8_def ReadUint32_def ReadUint64_def ReadString_def
      ReadBytes_def)

lemma inert_writers [inert_intros]:
  "inert wr_failed (WriteUint8 a) ()" "inert wr_failed (WriteUint32 b) ()"
  "inert wr_failed (WriteUint64 c) ()" "inert wr_failed (WriteString s) ()"
  "inert wr_failed (WriteBytes bs) ()"
  by (simp_all add: inert_def wr_failed_def WriteUint8_def WriteUint32_def WriteUint64_def WriteString_def
      WriteBytes_def)

section \<open>The codec calculus\<close>

definition writes :: "byte list wr \<Rightarrow> byte list \<Rightarrow> bool" where
  "writes m bs \<longleftrightarrow>
     (\<forall>b. run_state m (NewWriter b Buffer_Write) = ((), NewWriter (b @ bs) Buffer_Write))"

definition reads :: "'a rd \<Rightarrow> byte list \<Rightarrow> 'a \<Rightarrow> bool" where
  "reads m bs x \<longleftrightarrow> (\<forall>rest. run_state m (NewReader (bs @ rest)) = (x, NewReader rest))"

definition truncates :: "'a rd \<Rightarrow> byte list \<Rightarrow> bool" where
  "truncates m bs \<longleftrightarrow> (\<forall>p. strict_prefix p bs \<longrightarrow> rd_failed (snd (run_state m (NewReader p))))"

definition keeps_failure :: "'a rd \<Rightarrow> bool" where
  "keeps_failure m \<longleftrightarrow> (\<forall>r. rd_failed r \<longrightarrow> rd_failed (snd (run_state m r)))"

text \<open>For programs that return an error or a message: \<open>fails_out\<close> after a reader error the result is an
  error, \<open>rejects\<close> on every strict prefix of \<open>bs\<close> the result is an error.\<close>

definition fails_out :: "(go_error + 'a) rd \<Rightarrow> bool" where
  "fails_out m \<longleftrightarrow> (\<forall>r. rd_failed r \<longrightarrow> isl (fst (run_state m r)))"

definition rejects :: "(go_error + 'a) rd \<Rightarrow> byte list \<Rightarrow> bool" where
  "rejects m bs \<longleftrightarrow> (\<forall>p. strict_prefix p bs \<longrightarrow> isl (fst (run_state m (NewReader p))))"

subsection \<open>Writing\<close>

lemma sink_Write_buffer [simp]:
  "sink_Write p (NewWriter b Buffer_Write) = NewWriter (b @ p) Buffer_Write"
  by (simp add: sink_Write_def NewWriter_def Buffer_Write_def)

lemma w_err_NewWriter [simp]: "w_err (NewWriter b f) = None"
  by (simp add: NewWriter_def)

lemma w_sink_NewWriter [simp]: "w_sink (NewWriter b f) = b"
  by (simp add: NewWriter_def)

definition wire_string :: "string \<Rightarrow> byte list" where
  "wire_string s = le_bytes 4 (word_of_nat (length s) :: u32) @ bytes_of_string s"

lemma length_wire_string [simp]: "length (wire_string s) = 4 + length s"
  by (simp add: wire_string_def)

lemma run_writers [simp]:
  "run_state (WriteUint8 a) (NewWriter b Buffer_Write) = ((), NewWriter (b @ [a]) Buffer_Write)"
  "run_state (WriteUint32 c) (NewWriter b Buffer_Write) = ((), NewWriter (b @ le_bytes 4 c) Buffer_Write)"
  "run_state (WriteUint64 d) (NewWriter b Buffer_Write) = ((), NewWriter (b @ le_bytes 8 d) Buffer_Write)"
  "run_state (WriteString s) (NewWriter b Buffer_Write) = ((), NewWriter (b @ wire_string s) Buffer_Write)"
  "run_state (WriteBytes p) (NewWriter b Buffer_Write) = ((), NewWriter (b @ p) Buffer_Write)"
  by (simp_all add: WriteUint8_def WriteUint32_def WriteUint64_def WriteString_def WriteBytes_def
      wire_string_def)

lemma buffer_of_writes: "writes m bs \<Longrightarrow> buffer_of m = NewWriter bs Buffer_Write"
  by (simp add: writes_def buffer_of_def)

subsection \<open>Reading\<close>

lemma r_err_NewReader [simp]: "r_err (NewReader b) = None"
  by (simp add: NewReader_def)

lemma run_Reader_Error [simp]: "run_state Reader_Error r = (r_err r, r)"
  by (simp add: Reader_Error_def)

lemma NewReader_fields [simp]:
  "r_src (NewReader b) = b" "(NewReader a)\<lparr>r_src := b\<rparr> = NewReader b"
  "(NewReader b)\<lparr>r_err := None\<rparr> = NewReader b"
  by (simp_all add: NewReader_def)

lemma io_ReadFull_append [simp]: "length bs = n \<Longrightarrow> io_ReadFull n (bs @ rest) = (Inr bs, rest)"
  by (simp add: io_ReadFull_def)

lemma binary_Read_full [simp]:
  "length bs = n \<Longrightarrow> binary_Read n (NewReader (bs @ rest)) = (from_le bs, NewReader rest)"
  by (simp add: binary_Read_def)

lemma run_readers [simp]:
  "run_state ReadUint8 (NewReader (a # rest)) = (a, NewReader rest)"
  "run_state ReadUint32 (NewReader (le_bytes 4 c @ rest)) = (c, NewReader rest)"
  "run_state ReadUint64 (NewReader (le_bytes 8 d @ rest)) = (d, NewReader rest)"
  using binary_Read_full [of "[a]" 1 rest, where 'a = 8]
  by (simp_all add: ReadUint8_def ReadUint32_def ReadUint64_def)

lemma run_ReadString [simp]:
  assumes "length s \<le> maxStringLength"
  shows "run_state ReadString (NewReader (wire_string s @ rest)) = (s, NewReader rest)"
proof -
  have "length s < 2 ^ 32" using assms by (simp add: maxStringLength_def)
  then have "unat (word_of_nat (length s) :: u32) = length s"
    by (simp add: unat_of_nat)
  with assms show ?thesis
    by (simp add: ReadString_def wire_string_def)
qed

text \<open>The same facts when the value is the last thing in the source.\<close>

lemmas run_readers_last [simp] =
  run_readers [where rest = "[]", unfolded append_Nil2] run_ReadString [where rest = "[]", unfolded append_Nil2]

lemma reads_iff: "reads m bs x \<Longrightarrow> run_state m (NewReader (bs @ rest)) = (x, NewReader rest)"
  by (simp add: reads_def)

lemma reads_bind [reads_intros]:
  "reads m bs x \<Longrightarrow> reads (k x) cs y \<Longrightarrow> reads (State_Monad.bind m k) (bs @ cs) y"
  by (simp add: reads_def)

lemma reads_return [reads_intros]: "reads (State_Monad.return x) [] x"
  by (simp add: reads_def)

subsection \<open>Truncated input\<close>

lemma strict_prefix_appendE:
  assumes "strict_prefix p (bs @ cs)"
  obtains "strict_prefix p bs" | q where "p = bs @ q" "strict_prefix q cs"
  using assms
proof (cases "length p < length bs")
  case True
  from assms have "prefix p (bs @ cs)" by simp
  with True have "prefix p bs" by (auto simp: prefix_append)
  with True show ?thesis using that(1) by (auto simp: strict_prefix_def)
next
  case False
  from assms have pre: "prefix p (bs @ cs)" and ne: "p \<noteq> bs @ cs" by auto
  from pre False have "prefix bs p"
    using prefix_length_prefix [of bs "bs @ cs" p] by simp
  then obtain q where "p = bs @ q" by (auto simp: prefix_def)
  with pre have "p = bs @ q" "prefix q cs" by simp_all
  with ne show ?thesis using that(2) by (auto simp: strict_prefix_def)
qed

lemma truncates_bind:
  assumes "reads m bs x" "truncates m bs" "truncates (k x) cs" "\<And>y. keeps_failure (k y)"
  shows "truncates (State_Monad.bind m k) (bs @ cs)"
  unfolding truncates_def
proof (intro allI impI)
  fix p assume "strict_prefix p (bs @ cs)"
  then show "rd_failed (snd (run_state (State_Monad.bind m k) (NewReader p)))"
  proof (cases rule: strict_prefix_appendE)
    case 1
    with assms(2) have "rd_failed (snd (run_state m (NewReader p)))" by (simp add: truncates_def)
    with assms(4) show ?thesis by (auto simp: keeps_failure_def split: prod.splits)
  next
    case (2 q)
    with assms(1,3) show ?thesis by (simp add: reads_def truncates_def)
  qed
qed

lemma truncates_Nil [simp]: "truncates m []"
  by (simp add: truncates_def)

lemma truncates_map:
  "truncates m bs \<Longrightarrow> (\<And>y. keeps_failure (k y)) \<Longrightarrow> truncates (State_Monad.bind m k) bs"
  by (auto simp: truncates_def keeps_failure_def split: prod.splits)

lemma keeps_failure_bind [inert_intros]:
  "keeps_failure m \<Longrightarrow> (\<And>y. keeps_failure (k y)) \<Longrightarrow> keeps_failure (State_Monad.bind m k)"
  by (auto simp: keeps_failure_def split: prod.splits)

lemma keeps_failure_return [inert_intros]: "keeps_failure (State_Monad.return x)"
  by (simp add: keeps_failure_def)

lemma keeps_failure_inert: "inert rd_failed m z \<Longrightarrow> keeps_failure m"
  by (simp add: keeps_failure_def inert_def)

lemma keeps_failure_Reader_Error [inert_intros]: "keeps_failure Reader_Error"
  by (simp add: keeps_failure_def)

lemmas keeps_failure_readers [inert_intros] = inert_readers [THEN keeps_failure_inert]

lemma keeps_failure_if [inert_intros]:
  "keeps_failure a \<Longrightarrow> keeps_failure b \<Longrightarrow> keeps_failure (if c then a else b)"
  by simp

lemma io_ReadFull_short: "length bs < n \<Longrightarrow> isl (fst (io_ReadFull n bs))"
  by (simp add: io_ReadFull_def)

lemma binary_Read_short: "length bs < n \<Longrightarrow> rd_failed (snd (binary_Read n (NewReader bs)))"
  by (simp add: binary_Read_def io_ReadFull_def)

lemma truncates_ints:
  "truncates ReadUint8 [a]" "truncates ReadUint32 (le_bytes 4 b)"
  "truncates ReadUint64 (le_bytes 8 c)"
  by (auto simp: truncates_def ReadUint8_def ReadUint32_def ReadUint64_def
      dest!: prefix_length_less intro!: binary_Read_short)

lemma truncates_string:
  assumes "length s \<le> maxStringLength"
  shows "truncates ReadString (wire_string s)"
  unfolding truncates_def
proof (intro allI impI)
  fix p assume "strict_prefix p (wire_string s)"
  then have "strict_prefix p (le_bytes 4 (word_of_nat (length s) :: u32) @ bytes_of_string s)"
    by (simp add: wire_string_def)
  then show "rd_failed (snd (run_state ReadString (NewReader p)))"
  proof (cases rule: strict_prefix_appendE)
    case 1
    with truncates_ints(2) have "rd_failed (snd (run_state ReadUint32 (NewReader p)))"
      by (auto simp: truncates_def)
    then show ?thesis by (auto simp: ReadString_def rd_failed_def split: prod.splits)
  next
    case (2 q)
    have "length s < 2 ^ 32" using assms by (simp add: maxStringLength_def)
    then have "unat (word_of_nat (length s) :: u32) = length s"
      by (simp add: unat_of_nat)
    moreover from 2 have "length q < length s" by (auto dest: prefix_length_less)
    ultimately show ?thesis using 2 assms
      by (simp add: ReadString_def io_ReadFull_def)
  qed
qed

lemma fails_out_bind [inert_intros]:
  "keeps_failure m \<Longrightarrow> (\<And>y. fails_out (k y)) \<Longrightarrow> fails_out (State_Monad.bind m k)"
  by (auto simp: fails_out_def keeps_failure_def split: prod.splits)

lemma fails_out_return [inert_intros]: "fails_out (State_Monad.return (Inl e))"
  by (simp add: fails_out_def)

lemma fails_out_if [inert_intros]:
  "fails_out a \<Longrightarrow> fails_out b \<Longrightarrow> fails_out (if c then a else b)"
  by simp

lemma rejects_bind:
  assumes "reads m bs x" "truncates m bs" "rejects (k x) cs" "\<And>y. fails_out (k y)"
  shows "rejects (State_Monad.bind m k) (bs @ cs)"
  unfolding rejects_def
proof (intro allI impI)
  fix p assume "strict_prefix p (bs @ cs)"
  then show "isl (fst (run_state (State_Monad.bind m k) (NewReader p)))"
  proof (cases rule: strict_prefix_appendE)
    case 1
    with assms(2) have "rd_failed (snd (run_state m (NewReader p)))" by (simp add: truncates_def)
    with assms(4) show ?thesis by (auto simp: fails_out_def split: prod.splits)
  next
    case (2 q)
    with assms(1,3) show ?thesis by (simp add: reads_def rejects_def)
  qed
qed

lemma rejectsD: "rejects m bs \<Longrightarrow> strict_prefix p bs \<Longrightarrow> isl (fst (run_state m (NewReader p)))"
  by (simp add: rejects_def)

lemma rejects_Nil [simp]: "rejects m []"
  by (simp add: rejects_def)

lemma rejects_last:
  "truncates m bs \<Longrightarrow> (\<And>y. fails_out (k y)) \<Longrightarrow> rejects (State_Monad.bind m k) bs"
  by (auto simp: rejects_def truncates_def fails_out_def split: prod.splits)

end
