(* ===== verification/Codec.thy ===== *)
theory Codec
  imports Protocol
begin

text \<open>
  The interface between the wire primitives and the message formats: a \<open>codec\<close> pairs an encoder and a
  decoder through the byte string they agree on. What follows from the laws, and is proved here once
  for every format: encodings can be split off unambiguously, and the two loops of the message code
  (\<^verbatim>\<open>for range n { xs = append(xs, decode(r)) }\<close> and \<^verbatim>\<open>for _, x := range xs { encode(w, x) }\<close>) are
  again inverse to each other and again detect truncation. The primitives are its first instances.
\<close>

section \<open>The two loops\<close>

fun read_n :: "nat \<Rightarrow> 'a rd \<Rightarrow> 'a list rd" where
  "read_n 0 d = State_Monad.return []"
| "read_n (Suc n) d = do { x \<leftarrow> d; xs \<leftarrow> read_n n d; State_Monad.return (x # xs) }"

fun write_all :: "('a \<Rightarrow> 'w wr) \<Rightarrow> 'a list \<Rightarrow> 'w wr" where
  "write_all e [] = State_Monad.return ()"
| "write_all e (x # xs) = do { e x; write_all e xs }"

lemma keeps_failure_read_n [inert_intros]: "keeps_failure d \<Longrightarrow> keeps_failure (read_n n d)"
  by (induction n) (auto intro!: inert_intros)

section \<open>The interface\<close>

locale codec =
  fixes enc :: "'a \<Rightarrow> byte list wr"
    and dec :: "'a rd"
    and wire :: "'a \<Rightarrow> byte list"
    and ok :: "'a \<Rightarrow> bool"
  assumes enc_writes: "run_state (enc x) (NewWriter b Buffer_Write) = ((), NewWriter (b @ wire x) Buffer_Write)"
    and dec_reads: "ok x \<Longrightarrow> run_state dec (NewReader (wire x @ rest)) = (x, NewReader rest)"
    and dec_truncates: "ok x \<Longrightarrow> truncates dec (wire x)"
    and dec_keeps: "keeps_failure dec"
begin

lemma reads_dec: "ok x \<Longrightarrow> reads dec (wire x) x"
  by (simp add: reads_def dec_reads)

lemma roundtrip:
  "ok x \<Longrightarrow> run_state dec (NewReader (w_sink (buffer_of (enc x)))) = (x, NewReader [])"
  using dec_reads [of x "[]"] by (simp add: buffer_of_def enc_writes)

text \<open>An encoding is never a proper prefix of another one, so a stream splits in one way only.\<close>

lemma wire_splits: "ok x \<Longrightarrow> ok y \<Longrightarrow> wire x @ r = wire y @ s \<Longrightarrow> x = y \<and> r = s"
  using dec_reads [of x r] dec_reads [of y s] by (simp add: NewReader_def)

lemma wire_inj: "inj_on wire {x. ok x}"
  using wire_splits [where r = "[]" and s = "[]"] by (auto intro!: inj_onI)

lemma write_all_writes:
  "run_state (write_all enc xs) (NewWriter b Buffer_Write) =
   ((), NewWriter (b @ concat (map wire xs)) Buffer_Write)"
  by (induction xs arbitrary: b) (simp_all add: enc_writes)

lemma read_n_reads:
  "list_all ok xs \<Longrightarrow> run_state (read_n (length xs) dec) (NewReader (concat (map wire xs) @ rest)) =
     (xs, NewReader rest)"
  by (induction xs) (simp_all add: dec_reads)

lemma read_n_truncates: "list_all ok xs \<Longrightarrow> truncates (read_n (length xs) dec) (concat (map wire xs))"
proof (induction xs)
  case Nil
  then show ?case by simp
next
  case (Cons x xs)
  have "truncates (State_Monad.bind (read_n (length xs) dec) (\<lambda>xs. State_Monad.return (x # xs)))
          (concat (map wire xs))"
    using Cons by (auto intro!: truncates_map inert_intros)
  with Cons.prems show ?case
    by (auto intro!: truncates_bind [OF reads_dec] dec_truncates inert_intros dec_keeps)
qed

end

section \<open>The primitives\<close>

interpretation u8: codec WriteUint8 ReadUint8 "\<lambda>a. [a]" "\<lambda>_. True"
  by unfold_locales (auto intro: truncates_ints inert_intros)

interpretation u32: codec WriteUint32 ReadUint32 "le_bytes 4" "\<lambda>_. True"
  by unfold_locales (auto intro: truncates_ints inert_intros)

interpretation u64: codec WriteUint64 ReadUint64 "le_bytes 8" "\<lambda>_. True"
  by unfold_locales (auto intro: truncates_ints inert_intros)

definition string_ok :: "string \<Rightarrow> bool" where
  "string_ok s \<longleftrightarrow> length s \<le> maxStringLength"

lemma string_ok_small [simp]: "length s \<le> 10485760 \<Longrightarrow> string_ok s"
  by (simp add: string_ok_def maxStringLength_def)

interpretation str: codec WriteString ReadString wire_string string_ok
  by unfold_locales (auto intro: truncates_string inert_intros simp: string_ok_def)

text \<open>Rules for decoders that end by checking the reader's error, one per primitive.\<close>

lemmas rejects_u8 = rejects_bind [OF u8.reads_dec u8.dec_truncates, OF TrueI TrueI, unfolded append_Cons append_Nil]
lemmas rejects_u32 = rejects_bind [OF u32.reads_dec u32.dec_truncates, OF TrueI TrueI]
lemmas rejects_u64 = rejects_bind [OF u64.reads_dec u64.dec_truncates, OF TrueI TrueI]
lemmas rejects_str = rejects_bind [OF str.reads_dec str.dec_truncates]
lemmas rejects_u8_last = rejects_last [OF u8.dec_truncates, OF TrueI]
lemmas rejects_u32_last = rejects_last [OF u32.dec_truncates, OF TrueI]
lemmas rejects_u64_last = rejects_last [OF u64.dec_truncates, OF TrueI]
lemmas rejects_str_last = rejects_last [OF str.dec_truncates]

text \<open>\<^verbatim>\<open>if err := r.Error(); err != nil { return nil, fmt.Errorf("p: %w", err) }; return x, nil\<close>.\<close>

definition finish :: "string \<Rightarrow> 'a \<Rightarrow> (go_error + 'a) rd" where
  "finish p x = do {
     e \<leftarrow> Reader_Error;
     State_Monad.return (case e of Some e \<Rightarrow> Inl (WrapError p e) | None \<Rightarrow> Inr x) }"

lemma run_finish [simp]: "run_state (finish p x) (NewReader b) = (Inr x, NewReader b)"
  by (simp add: finish_def)

lemma fails_out_finish [inert_intros]: "fails_out (finish p x)"
  by (auto simp: finish_def fails_out_def rd_failed_def split: option.splits)

lemmas rejects_intros =
  rejects_u8 rejects_u32 rejects_u64 rejects_str
  rejects_u8_last rejects_u32_last rejects_u64_last rejects_str_last

section \<open>Properties\<close>

text \<open>
  C40: Strings round-trip up to the reader's limit and not beyond: what \<^verbatim>\<open>WriteString\<close> puts into a buffer,
  \<^verbatim>\<open>ReadString\<close> gives back, leaving the following bytes, if the string has at most 10 MiB; a longer one
  (below 4 GiB) is refused with an error, the empty string is returned and its bytes are left unread.
\<close>

theorem string_roundtrip_bound:
  assumes "length s < 2 ^ 32"
  shows "run_state ReadString (NewReader (w_sink (buffer_of (WriteString s)) @ rest)) =
    (if length s \<le> 10 * 1024 * 1024 then (s, NewReader rest)
     else ('''', (NewReader (bytes_of_string s @ rest))\<lparr>r_err := Some (ErrorString
       (''string length '' @ decimal (length s) @ '' exceeds maximum 10485760''))\<rparr>))"
proof -
  have len: "unat (word_of_nat (length s) :: u32) = length s"
    using assms by (simp add: unat_of_nat)
  have max: "decimal maxStringLength = ''10485760''"
    by (simp add: maxStringLength_def decimal.simps)
  show ?thesis
    using len max by (auto simp: buffer_of_def wire_string_def ReadString_def maxStringLength_def)
qed

theorem string_roundtrip_bound_witness:
  "run_state ReadString (NewReader (w_sink (buffer_of (WriteString ''Queued'')) @ [1])) =
    (''Queued'', NewReader [1])"
  using string_roundtrip_bound [of "''Queued''" "[1]"] by simp

text \<open>
  Errors are sticky. On a reader that has failed, every read returns the zero value and changes
  nothing, not even the first error; on a writer that has failed, whatever its sink, every write is
  a no-op.
\<close>

theorem sticky_errors:
  fixes w :: "'w Writer"
  assumes "rd_failed r" "wr_failed w"
  shows "run_state ReadUint8 r = (0, r) \<and> run_state ReadUint32 r = (0, r) \<and>
    run_state ReadUint64 r = (0, r) \<and> run_state ReadString r = ('''', r) \<and>
    run_state (ReadBytes n) r = ([], r) \<and>
    run_state (WriteUint8 a) w = ((), w) \<and> run_state (WriteUint32 b) w = ((), w) \<and>
    run_state (WriteUint64 c) w = ((), w) \<and> run_state (WriteString s) w = ((), w) \<and>
    run_state (WriteBytes bs) w = ((), w)"
  using assms by (simp add: inert_readers [THEN inertD] inert_writers [THEN inertD])

theorem sticky_errors_witness:
  "run_state ReadUint32 \<lparr>r_src = [1, 2, 3, 4], r_err = Some EOF\<rparr> = (0, \<lparr>r_src = [1, 2, 3, 4], r_err = Some EOF\<rparr>)"
  using sticky_errors [of "\<lparr>r_src = [1, 2, 3, 4], r_err = Some EOF\<rparr>"
      "(NewWriter [] Buffer_Write)\<lparr>w_err := Some EOF\<rparr>"]
  by (simp add: rd_failed_def wr_failed_def)

end
