(* ===== verification/PeerMessages.thy ===== *)
theory PeerMessages
  imports Codec
begin

text \<open>
  \<^verbatim>\<open>src/messages/peer/init.go\<close> and \<^verbatim>\<open>src/messages/peer/transfer.go\<close>: the handshake and transfer messages
  exchanged between peers, their encoders and decoders. Every coded message is an instance of the
  interface \<open>peer_message\<close>: it starts with its 4-byte code, decoding inverts encoding (trailing bytes
  are ignored, as in the code), every truncation is an error, and only a payload with the right code
  is accepted.
\<close>

section \<open>Message interface\<close>

text \<open>
  The first lines of every decoder: read the code and compare it. (A payload shorter than 4 bytes
  gives code 0, which no peer message has.)
\<close>

definition expect_code :: "u32 \<Rightarrow> (go_error + 'm) rd \<Rightarrow> (go_error + 'm) rd" where
  "expect_code c k = do {
     code \<leftarrow> ReadUint32;
     if code \<noteq> c then
       State_Monad.return (Inl (ErrorString
         (''unexpected code '' @ decimal (unat code) @ '', expected '' @ decimal (unat c))))
     else k }"

lemma run_expect_code [simp]:
  "run_state (expect_code c k) (NewReader (le_bytes 4 c @ rest)) = run_state k (NewReader rest)"
  by (simp add: expect_code_def)

lemma rejects_expect_code:
  "rejects k bs \<Longrightarrow> fails_out k \<Longrightarrow> rejects (expect_code c k) (le_bytes 4 c @ bs)"
  unfolding expect_code_def by (rule rejects_u32) (auto intro!: inert_intros)

lemma expect_code_accepts:
  assumes "fst (run_state (expect_code c k) (NewReader p)) = Inr m" "c \<noteq> 0"
  shows "4 \<le> length p \<and> from_le (take 4 p) = c"
proof (cases "4 \<le> length p")
  case True
  have "run_state ReadUint32 (NewReader (take 4 p @ drop 4 p)) = (from_le (take 4 p), NewReader (drop 4 p))"
    using True by (simp add: ReadUint32_def del: append_take_drop_id)
  then have "run_state ReadUint32 (NewReader p) = (from_le (take 4 p), NewReader (drop 4 p))"
    by simp
  with assms True show ?thesis by (simp add: expect_code_def split: if_splits)
next
  case False
  then have "fst (run_state ReadUint32 (NewReader p)) = 0"
    by (simp add: ReadUint32_def binary_Read_def io_ReadFull_def)
  with assms show ?thesis by (auto simp: expect_code_def split: prod.splits if_splits)
qed

locale peer_message =
  fixes Code :: "'m \<Rightarrow> PeerCode"
    and Encode :: "'m \<Rightarrow> byte list wr"
    and Decode :: "byte list \<Rightarrow> go_error + 'm"
    and body :: "'m \<Rightarrow> byte list"
    and ok :: "'m \<Rightarrow> bool"
  assumes Encode_writes: "run_state (Encode m) (NewWriter b Buffer_Write) =
        ((), NewWriter (b @ le_bytes 4 (Code m) @ body m) Buffer_Write)"
    and Decode_reads: "ok m \<Longrightarrow> Decode (le_bytes 4 (Code m) @ body m @ rest) = Inr m"
    and Decode_rejects: "ok m \<Longrightarrow> strict_prefix p (le_bytes 4 (Code m) @ body m) \<Longrightarrow> isl (Decode p)"
    and Decode_code: "Decode p = Inr m \<Longrightarrow> 4 \<le> length p \<and> from_le (take 4 p) = Code m"
begin

lemma payload: "buffer_of (Encode m) = NewWriter (le_bytes 4 (Code m) @ body m) Buffer_Write"
  by (simp add: buffer_of_def Encode_writes)

lemma decode_encode: "ok m \<Longrightarrow> Decode (w_sink (buffer_of (Encode m))) = Inr m"
  using Decode_reads [of m "[]"] by (simp add: payload)

lemma no_encode_error: "w_err (buffer_of (Encode m)) = None"
  by (simp add: payload)

lemma truncated: "ok m \<Longrightarrow> n < length (w_sink (buffer_of (Encode m))) \<Longrightarrow>
    isl (Decode (take n (w_sink (buffer_of (Encode m)))))"
  by (rule Decode_rejects [of m]) (auto simp: payload strict_prefix_def take_is_prefix
      simp del: take_append dest: arg_cong [where f = length])

text \<open>What a receiver reads as the code of an encoded message: \<^verbatim>\<open>binary.LittleEndian.Uint32(payload[:4])\<close>.\<close>

lemma payload_code: "from_le (take 4 (w_sink (buffer_of (Encode m)))) = Code m"
  by (simp add: payload)

lemma wrong_code: "from_le (take 4 p) \<noteq> Code m \<Longrightarrow> Decode p \<noteq> Inr m"
  using Decode_code by blast

end

section \<open>Connection initialisation (\<^verbatim>\<open>init.go\<close>)\<close>

record Init =
  init_Username :: string
  init_Type :: string
  init_Token :: u32

definition Init_Encode :: "Init \<Rightarrow> 'w wr" where
  "Init_Encode m = do {
     WriteUint8 InitPeerInit;
     WriteString (init_Username m);
     WriteString (init_Type m);
     WriteUint32 (init_Token m) }"

definition unexpected_init_code :: "byte \<Rightarrow> byte \<Rightarrow> go_error" where
  "unexpected_init_code code want = ErrorString (''unexpected init code: '' @ decimal (unat code) @
     '' (expected '' @ decimal (unat want) @ '')'')"

definition DecodeInit :: "byte list \<Rightarrow> go_error + Init" where
  "DecodeInit data = (case data of
       [] \<Rightarrow> Inl (ErrorString ''empty init message'')
     | code # rest \<Rightarrow>
         if code \<noteq> InitPeerInit then Inl (unexpected_init_code code InitPeerInit)
         else fst (run_state (do {
           username \<leftarrow> ReadString;
           connType \<leftarrow> ReadString;
           token \<leftarrow> ReadUint32;
           finish ''decode init''
             \<lparr>init_Username = username, init_Type = connType, init_Token = token\<rparr> })
           (NewReader rest)))"

record PierceFirewall =
  pf_Token :: u32

definition PierceFirewall_Encode :: "PierceFirewall \<Rightarrow> 'w wr" where
  "PierceFirewall_Encode m = do {
     WriteUint8 InitPierceFirewall;
     WriteUint32 (pf_Token m) }"

definition DecodePierceFirewall :: "byte list \<Rightarrow> go_error + PierceFirewall" where
  "DecodePierceFirewall data =
     (if length data < 5 then
        Inl (ErrorString (''pierce firewall message too short: '' @ decimal (length data) @
          '' bytes (expected 5)''))
      else case data of
        [] \<Rightarrow> Inl (ErrorString '''')
      | code # rest \<Rightarrow>
          if code \<noteq> InitPierceFirewall then Inl (unexpected_init_code code InitPierceFirewall)
          else fst (run_state (do {
            token \<leftarrow> ReadUint32;
            finish ''decode pierce firewall'' \<lparr>pf_Token = token\<rparr> }) (NewReader rest)))"

section \<open>Transfer negotiation (\<^verbatim>\<open>transfer.go\<close>)\<close>

type_synonym TransferDirection = u32

definition TransferDownload :: TransferDirection where [wire_code]: "TransferDownload = 0"
definition TransferUpload :: TransferDirection where [wire_code]: "TransferUpload = 1"

subsection \<open>\<open>TransferRequest\<close>, code 40\<close>

record TransferRequest =
  treq_Direction :: TransferDirection
  treq_Token :: u32
  treq_Filename :: string
  treq_FileSize :: i64

definition TransferRequest_Code :: "TransferRequest \<Rightarrow> PeerCode" where
  "TransferRequest_Code m = PeerTransferRequest"

definition TransferRequest_Encode :: "TransferRequest \<Rightarrow> 'w wr" where
  "TransferRequest_Encode m = do {
     WriteUint32 PeerTransferRequest;
     WriteUint32 (treq_Direction m);
     WriteUint32 (treq_Token m);
     WriteString (treq_Filename m);
     if treq_Direction m = TransferUpload then WriteUint64 (treq_FileSize m)
     else State_Monad.return () }"

definition DecodeTransferRequest :: "byte list \<Rightarrow> go_error + TransferRequest" where
  "DecodeTransferRequest payload = fst (run_state (expect_code PeerTransferRequest (do {
     direction \<leftarrow> ReadUint32;
     token \<leftarrow> ReadUint32;
     filename \<leftarrow> ReadString;
     fileSize \<leftarrow> (if direction = TransferUpload then ReadUint64 else State_Monad.return 0);
     finish ''decode transfer request''
       \<lparr>treq_Direction = direction, treq_Token = token, treq_Filename = filename,
        treq_FileSize = fileSize\<rparr> })) (NewReader payload))"

subsection \<open>\<open>TransferResponse\<close>, code 41\<close>

record TransferResponse =
  tresp_Token :: u32
  tresp_Allowed :: bool
  tresp_FileSize :: i64
  tresp_Reason :: string

definition TransferResponse_Code :: "TransferResponse \<Rightarrow> PeerCode" where
  "TransferResponse_Code m = PeerTransferResponse"

definition TransferResponse_Encode :: "TransferResponse \<Rightarrow> 'w wr" where
  "TransferResponse_Encode m = do {
     WriteUint32 PeerTransferResponse;
     WriteUint32 (tresp_Token m);
     if tresp_Allowed m then do { WriteUint8 1; WriteUint64 (tresp_FileSize m) }
     else do { WriteUint8 0; WriteString (tresp_Reason m) } }"

definition DecodeTransferResponse :: "byte list \<Rightarrow> go_error + TransferResponse" where
  "DecodeTransferResponse payload = fst (run_state (expect_code PeerTransferResponse (do {
     token \<leftarrow> ReadUint32;
     a \<leftarrow> ReadUint8;
     if a = 1 then do {
       fileSize \<leftarrow> ReadUint64;
       finish ''decode transfer response''
         \<lparr>tresp_Token = token, tresp_Allowed = True, tresp_FileSize = fileSize, tresp_Reason = ''''\<rparr> }
     else do {
       reason \<leftarrow> ReadString;
       finish ''decode transfer response''
         \<lparr>tresp_Token = token, tresp_Allowed = False, tresp_FileSize = 0, tresp_Reason = reason\<rparr> } }))
     (NewReader payload))"

subsection \<open>Queue messages, codes 43, 44, 51, 46 and 50\<close>

record QueueDownload =
  qd_Filename :: string

definition QueueDownload_Code :: "QueueDownload \<Rightarrow> PeerCode" where
  "QueueDownload_Code m = PeerQueueDownload"

definition QueueDownload_Encode :: "QueueDownload \<Rightarrow> 'w wr" where
  "QueueDownload_Encode m = do { WriteUint32 PeerQueueDownload; WriteString (qd_Filename m) }"

definition DecodeQueueDownload :: "byte list \<Rightarrow> go_error + QueueDownload" where
  "DecodeQueueDownload payload = fst (run_state (expect_code PeerQueueDownload (do {
     filename \<leftarrow> ReadString;
     finish ''decode queue download'' \<lparr>qd_Filename = filename\<rparr> })) (NewReader payload))"

record PlaceInQueueResponse =
  piq_Filename :: string
  piq_Place :: u32

definition PlaceInQueueResponse_Code :: "PlaceInQueueResponse \<Rightarrow> PeerCode" where
  "PlaceInQueueResponse_Code m = PeerPlaceInQueueResponse"

definition PlaceInQueueResponse_Encode :: "PlaceInQueueResponse \<Rightarrow> 'w wr" where
  "PlaceInQueueResponse_Encode m = do {
     WriteUint32 PeerPlaceInQueueResponse;
     WriteString (piq_Filename m);
     WriteUint32 (piq_Place m) }"

definition DecodePlaceInQueueResponse :: "byte list \<Rightarrow> go_error + PlaceInQueueResponse" where
  "DecodePlaceInQueueResponse payload = fst (run_state (expect_code PeerPlaceInQueueResponse (do {
     filename \<leftarrow> ReadString;
     place \<leftarrow> ReadUint32;
     finish ''decode place in queue response''
       \<lparr>piq_Filename = filename, piq_Place = place\<rparr> })) (NewReader payload))"

record PlaceInQueueRequest =
  piqr_Filename :: string

definition PlaceInQueueRequest_Code :: "PlaceInQueueRequest \<Rightarrow> PeerCode" where
  "PlaceInQueueRequest_Code m = PeerPlaceInQueueRequest"

definition PlaceInQueueRequest_Encode :: "PlaceInQueueRequest \<Rightarrow> 'w wr" where
  "PlaceInQueueRequest_Encode m = do {
     WriteUint32 PeerPlaceInQueueRequest; WriteString (piqr_Filename m) }"

definition DecodePlaceInQueueRequest :: "byte list \<Rightarrow> go_error + PlaceInQueueRequest" where
  "DecodePlaceInQueueRequest payload = fst (run_state (expect_code PeerPlaceInQueueRequest (do {
     filename \<leftarrow> ReadString;
     finish ''decode place in queue request'' \<lparr>piqr_Filename = filename\<rparr> })) (NewReader payload))"

record UploadFailed =
  uf_Filename :: string

definition UploadFailed_Code :: "UploadFailed \<Rightarrow> PeerCode" where
  "UploadFailed_Code m = PeerUploadFailed"

definition UploadFailed_Encode :: "UploadFailed \<Rightarrow> 'w wr" where
  "UploadFailed_Encode m = do { WriteUint32 PeerUploadFailed; WriteString (uf_Filename m) }"

definition DecodeUploadFailed :: "byte list \<Rightarrow> go_error + UploadFailed" where
  "DecodeUploadFailed payload = fst (run_state (expect_code PeerUploadFailed (do {
     filename \<leftarrow> ReadString;
     finish ''decode upload failed'' \<lparr>uf_Filename = filename\<rparr> })) (NewReader payload))"

record UploadDenied =
  ud_Filename :: string
  ud_Reason :: string

definition UploadDenied_Code :: "UploadDenied \<Rightarrow> PeerCode" where
  "UploadDenied_Code m = PeerUploadDenied"

definition UploadDenied_Encode :: "UploadDenied \<Rightarrow> 'w wr" where
  "UploadDenied_Encode m = do {
     WriteUint32 PeerUploadDenied;
     WriteString (ud_Filename m);
     WriteString (ud_Reason m) }"

definition DecodeUploadDenied :: "byte list \<Rightarrow> go_error + UploadDenied" where
  "DecodeUploadDenied payload = fst (run_state (expect_code PeerUploadDenied (do {
     filename \<leftarrow> ReadString;
     reason \<leftarrow> ReadString;
     finish ''decode upload denied'' \<lparr>ud_Filename = filename, ud_Reason = reason\<rparr> }))
     (NewReader payload))"

section \<open>The messages as instances of the interface\<close>

text \<open>
  \<open>ok\<close> says which records a decoder can return: strings within the reader's limit and, for the two
  messages with an optional field, the absent field at its zero value.
\<close>

definition TransferRequest_body :: "TransferRequest \<Rightarrow> byte list" where
  "TransferRequest_body m = le_bytes 4 (treq_Direction m) @ le_bytes 4 (treq_Token m) @
     wire_string (treq_Filename m) @
     (if treq_Direction m = TransferUpload then le_bytes 8 (treq_FileSize m) else [])"

definition TransferRequest_ok :: "TransferRequest \<Rightarrow> bool" where
  "TransferRequest_ok m \<longleftrightarrow> string_ok (treq_Filename m) \<and>
     (treq_Direction m \<noteq> TransferUpload \<longrightarrow> treq_FileSize m = 0)"

definition TransferResponse_body :: "TransferResponse \<Rightarrow> byte list" where
  "TransferResponse_body m = le_bytes 4 (tresp_Token m) @
     (if tresp_Allowed m then (1::byte) # le_bytes 8 (tresp_FileSize m)
      else (0::byte) # wire_string (tresp_Reason m))"

definition TransferResponse_ok :: "TransferResponse \<Rightarrow> bool" where
  "TransferResponse_ok m \<longleftrightarrow>
     (if tresp_Allowed m then tresp_Reason m = ''''
      else tresp_FileSize m = 0 \<and> string_ok (tresp_Reason m))"

definition PlaceInQueueResponse_body :: "PlaceInQueueResponse \<Rightarrow> byte list" where
  "PlaceInQueueResponse_body m = wire_string (piq_Filename m) @ le_bytes 4 (piq_Place m)"

definition UploadDenied_body :: "UploadDenied \<Rightarrow> byte list" where
  "UploadDenied_body m = wire_string (ud_Filename m) @ wire_string (ud_Reason m)"

text \<open>
  A decoder of the common shape (code check, then a body program) meets the interface if its body
  program inverts, and rejects truncations of, the encoded body.
\<close>

lemma peer_messageI:
  assumes "\<And>p. Decode p = fst (run_state (expect_code c k) (NewReader p))"
    and "\<And>m. Code m = c" and "c \<noteq> 0"
    and "\<And>m b. run_state (Encode m) (NewWriter b Buffer_Write) =
           ((), NewWriter (b @ le_bytes 4 c @ body m) Buffer_Write)"
    and "\<And>m rest. ok m \<Longrightarrow> fst (run_state k (NewReader (body m @ rest))) = Inr m"
    and "\<And>m. ok m \<Longrightarrow> rejects k (body m)" and "fails_out k"
  shows "peer_message Code Encode Decode body ok"
proof
  fix m p assume "ok m" "strict_prefix p (le_bytes 4 (Code m) @ body m)"
  moreover have "rejects (expect_code c k) (le_bytes 4 c @ body m)"
    using assms(6,7) \<open>ok m\<close> by (intro rejects_expect_code)
  ultimately show "isl (Decode p)" by (simp add: assms(1,2) rejects_def)
next
  fix p m assume "Decode p = Inr m"
  then show "4 \<le> length p \<and> from_le (take 4 p) = Code m"
    using expect_code_accepts assms(1-3) by simp
qed (simp_all add: assms)

lemmas message_defs =
  TransferRequest_Encode_def TransferRequest_Code_def TransferRequest_body_def TransferRequest_ok_def
  TransferResponse_Encode_def TransferResponse_Code_def TransferResponse_body_def
  TransferResponse_ok_def
  QueueDownload_Encode_def QueueDownload_Code_def
  PlaceInQueueResponse_Encode_def PlaceInQueueResponse_Code_def PlaceInQueueResponse_body_def
  PlaceInQueueRequest_Encode_def PlaceInQueueRequest_Code_def
  UploadFailed_Encode_def UploadFailed_Code_def
  UploadDenied_Encode_def UploadDenied_Code_def UploadDenied_body_def

lemma peer_codes_nonzero [simp]:
  "PeerTransferRequest \<noteq> 0" "PeerTransferResponse \<noteq> 0" "PeerQueueDownload \<noteq> 0"
  "PeerPlaceInQueueResponse \<noteq> 0" "PeerPlaceInQueueRequest \<noteq> 0" "PeerUploadFailed \<noteq> 0"
  "PeerUploadDenied \<noteq> 0"
  by (simp_all add: wire_code)

interpretation treq: peer_message TransferRequest_Code TransferRequest_Encode DecodeTransferRequest
  TransferRequest_body TransferRequest_ok
  by (rule peer_messageI [OF DecodeTransferRequest_def])
    (auto simp: message_defs string_ok_def intro!: rejects_intros inert_intros)

interpretation tresp: peer_message TransferResponse_Code TransferResponse_Encode DecodeTransferResponse
  TransferResponse_body TransferResponse_ok
  by (rule peer_messageI [OF DecodeTransferResponse_def])
    (auto simp: message_defs string_ok_def intro!: rejects_intros inert_intros)

interpretation qd: peer_message QueueDownload_Code QueueDownload_Encode DecodeQueueDownload
  "\<lambda>m. wire_string (qd_Filename m)" "\<lambda>m. string_ok (qd_Filename m)"
  by (rule peer_messageI [OF DecodeQueueDownload_def])
    (auto simp: message_defs string_ok_def intro!: rejects_intros inert_intros)

interpretation piq: peer_message PlaceInQueueResponse_Code PlaceInQueueResponse_Encode
  DecodePlaceInQueueResponse PlaceInQueueResponse_body "\<lambda>m. string_ok (piq_Filename m)"
  by (rule peer_messageI [OF DecodePlaceInQueueResponse_def])
    (auto simp: message_defs string_ok_def intro!: rejects_intros inert_intros)

interpretation piqr: peer_message PlaceInQueueRequest_Code PlaceInQueueRequest_Encode
  DecodePlaceInQueueRequest "\<lambda>m. wire_string (piqr_Filename m)" "\<lambda>m. string_ok (piqr_Filename m)"
  by (rule peer_messageI [OF DecodePlaceInQueueRequest_def])
    (auto simp: message_defs string_ok_def intro!: rejects_intros inert_intros)

interpretation uf: peer_message UploadFailed_Code UploadFailed_Encode DecodeUploadFailed
  "\<lambda>m. wire_string (uf_Filename m)" "\<lambda>m. string_ok (uf_Filename m)"
  by (rule peer_messageI [OF DecodeUploadFailed_def])
    (auto simp: message_defs string_ok_def intro!: rejects_intros inert_intros)

interpretation ud: peer_message UploadDenied_Code UploadDenied_Encode DecodeUploadDenied
  UploadDenied_body "\<lambda>m. string_ok (ud_Filename m) \<and> string_ok (ud_Reason m)"
  by (rule peer_messageI [OF DecodeUploadDenied_def])
    (auto simp: message_defs string_ok_def intro!: rejects_intros inert_intros)

section \<open>The handshake messages\<close>

definition Init_ok :: "Init \<Rightarrow> bool" where
  "Init_ok m \<longleftrightarrow> string_ok (init_Username m) \<and> string_ok (init_Type m)"

lemma Init_writes: "buffer_of (Init_Encode m) =
    NewWriter (1 # wire_string (init_Username m) @ wire_string (init_Type m) @ le_bytes 4 (init_Token m))
      Buffer_Write"
  by (simp add: buffer_of_def Init_Encode_def wire_code)

lemma PierceFirewall_writes: "buffer_of (PierceFirewall_Encode m) =
    NewWriter (0 # le_bytes 4 (pf_Token m)) Buffer_Write"
  by (simp add: buffer_of_def PierceFirewall_Encode_def wire_code)

lemma DecodeInit_Encode: "Init_ok m \<Longrightarrow> DecodeInit (w_sink (buffer_of (Init_Encode m))) = Inr m"
  by (simp add: Init_writes DecodeInit_def Init_ok_def string_ok_def wire_code)

lemma DecodePierceFirewall_Encode:
  "DecodePierceFirewall (w_sink (buffer_of (PierceFirewall_Encode m))) = Inr m"
  by (simp add: PierceFirewall_writes DecodePierceFirewall_def wire_code)

text \<open>The two handshakes are told apart by their first byte.\<close>

lemma DecodeInit_code: "DecodeInit d = Inr m \<Longrightarrow> \<exists>r. d = 1 # r"
  by (auto simp: DecodeInit_def wire_code split: list.splits if_splits)

lemma DecodePierceFirewall_code: "DecodePierceFirewall d = Inr m \<Longrightarrow> \<exists>r. d = 0 # r \<and> 4 \<le> length r"
  by (auto simp: DecodePierceFirewall_def wire_code split: list.splits if_splits)

section \<open>Properties\<close>

text \<open>
  C26: Every peer message survives its own encoding: for each of the seven message types, decoding the
  bytes its encoder puts into a buffer returns the message, for any field values within the wire
  format's limits (strings of at most 10 MiB; a field that is not on the wire at its zero value).
\<close>

theorem peer_messages_roundtrip:
  "(TransferRequest_ok a \<longrightarrow> DecodeTransferRequest (w_sink (buffer_of (TransferRequest_Encode a))) = Inr a) \<and>
   (TransferResponse_ok b \<longrightarrow> DecodeTransferResponse (w_sink (buffer_of (TransferResponse_Encode b))) = Inr b) \<and>
   (string_ok (qd_Filename c) \<longrightarrow> DecodeQueueDownload (w_sink (buffer_of (QueueDownload_Encode c))) = Inr c) \<and>
   (string_ok (piq_Filename d) \<longrightarrow>
      DecodePlaceInQueueResponse (w_sink (buffer_of (PlaceInQueueResponse_Encode d))) = Inr d) \<and>
   (string_ok (piqr_Filename e) \<longrightarrow>
      DecodePlaceInQueueRequest (w_sink (buffer_of (PlaceInQueueRequest_Encode e))) = Inr e) \<and>
   (string_ok (uf_Filename f) \<longrightarrow> DecodeUploadFailed (w_sink (buffer_of (UploadFailed_Encode f))) = Inr f) \<and>
   (string_ok (ud_Filename g) \<longrightarrow> string_ok (ud_Reason g) \<longrightarrow>
      DecodeUploadDenied (w_sink (buffer_of (UploadDenied_Encode g))) = Inr g)"
  by (simp_all add: treq.decode_encode tresp.decode_encode qd.decode_encode piq.decode_encode
      piqr.decode_encode uf.decode_encode ud.decode_encode)

theorem peer_messages_roundtrip_witness:
  "DecodeTransferRequest (w_sink (buffer_of (TransferRequest_Encode
      \<lparr>treq_Direction = TransferUpload, treq_Token = 7, treq_Filename = ''a'', treq_FileSize = - 1\<rparr>))) =
    Inr \<lparr>treq_Direction = TransferUpload, treq_Token = 7, treq_Filename = ''a'', treq_FileSize = - 1\<rparr> \<and>
   DecodeTransferResponse (w_sink (buffer_of (TransferResponse_Encode
      \<lparr>tresp_Token = 7, tresp_Allowed = False, tresp_FileSize = 0, tresp_Reason = ''Queued''\<rparr>))) =
    Inr \<lparr>tresp_Token = 7, tresp_Allowed = False, tresp_FileSize = 0, tresp_Reason = ''Queued''\<rparr> \<and>
   DecodeUploadDenied (w_sink (buffer_of (UploadDenied_Encode \<lparr>ud_Filename = ''a'', ud_Reason = ''b''\<rparr>))) =
    Inr \<lparr>ud_Filename = ''a'', ud_Reason = ''b''\<rparr>"
  using peer_messages_roundtrip [of
      "\<lparr>treq_Direction = TransferUpload, treq_Token = 7, treq_Filename = ''a'', treq_FileSize = - 1\<rparr>"
      "\<lparr>tresp_Token = 7, tresp_Allowed = False, tresp_FileSize = 0, tresp_Reason = ''Queued''\<rparr>"
      _ _ _ _ "\<lparr>ud_Filename = ''a'', ud_Reason = ''b''\<rparr>"]
  by (simp add: TransferRequest_ok_def TransferResponse_ok_def)

text \<open>
  Truncation never goes unnoticed: if any non-zero number of bytes is cut off the end of an encoded
  peer message, its decoder returns an error.
\<close>

theorem peer_messages_truncated:
  "(TransferRequest_ok a \<longrightarrow> n < length (w_sink (buffer_of (TransferRequest_Encode a))) \<longrightarrow>
      isl (DecodeTransferRequest (take n (w_sink (buffer_of (TransferRequest_Encode a)))))) \<and>
   (TransferResponse_ok b \<longrightarrow> n < length (w_sink (buffer_of (TransferResponse_Encode b))) \<longrightarrow>
      isl (DecodeTransferResponse (take n (w_sink (buffer_of (TransferResponse_Encode b)))))) \<and>
   (string_ok (qd_Filename c) \<longrightarrow> n < length (w_sink (buffer_of (QueueDownload_Encode c))) \<longrightarrow>
      isl (DecodeQueueDownload (take n (w_sink (buffer_of (QueueDownload_Encode c)))))) \<and>
   (string_ok (piq_Filename d) \<longrightarrow> n < length (w_sink (buffer_of (PlaceInQueueResponse_Encode d))) \<longrightarrow>
      isl (DecodePlaceInQueueResponse (take n (w_sink (buffer_of (PlaceInQueueResponse_Encode d)))))) \<and>
   (string_ok (ud_Filename g) \<longrightarrow> string_ok (ud_Reason g) \<longrightarrow>
      n < length (w_sink (buffer_of (UploadDenied_Encode g))) \<longrightarrow>
      isl (DecodeUploadDenied (take n (w_sink (buffer_of (UploadDenied_Encode g))))))"
  by (simp_all add: treq.truncated tresp.truncated qd.truncated piq.truncated ud.truncated)

theorem peer_messages_truncated_witness:
  "isl (DecodeQueueDownload (take 8 (w_sink (buffer_of (QueueDownload_Encode \<lparr>qd_Filename = ''a''\<rparr>)))))"
  using peer_messages_truncated [of _ 8 _ "\<lparr>qd_Filename = ''a''\<rparr>"] by (simp add: qd.payload)

text \<open>
  No message is mistaken for another: a decoder accepts a payload only if its first four bytes are
  that message's own code, and the codes of the peer protocol are pairwise different, as are the two
  handshake codes.
\<close>

theorem peer_messages_unambiguous:
  "(DecodeTransferRequest p = Inr a \<longrightarrow> 4 \<le> length p \<and> from_le (take 4 p) = PeerTransferRequest) \<and>
   (DecodeTransferResponse p = Inr b \<longrightarrow> 4 \<le> length p \<and> from_le (take 4 p) = PeerTransferResponse) \<and>
   (DecodeQueueDownload p = Inr c \<longrightarrow> 4 \<le> length p \<and> from_le (take 4 p) = PeerQueueDownload) \<and>
   (DecodePlaceInQueueResponse p = Inr d \<longrightarrow>
      4 \<le> length p \<and> from_le (take 4 p) = PeerPlaceInQueueResponse) \<and>
   (DecodePlaceInQueueRequest p = Inr e \<longrightarrow>
      4 \<le> length p \<and> from_le (take 4 p) = PeerPlaceInQueueRequest) \<and>
   (DecodeUploadFailed p = Inr f \<longrightarrow> 4 \<le> length p \<and> from_le (take 4 p) = PeerUploadFailed) \<and>
   (DecodeUploadDenied p = Inr g \<longrightarrow> 4 \<le> length p \<and> from_le (take 4 p) = PeerUploadDenied) \<and>
   (\<not> (DecodeInit p = Inr i \<and> DecodePierceFirewall p = Inr pf)) \<and>
   (distinct peer_codes)"
  using treq.Decode_code [of p a] tresp.Decode_code [of p b] qd.Decode_code [of p c]
    piq.Decode_code [of p d] piqr.Decode_code [of p e] uf.Decode_code [of p f] ud.Decode_code [of p g]
    DecodeInit_code [of p i] DecodePierceFirewall_code [of p pf] distinct_peer_codes
  by (auto simp: message_defs)

theorem peer_messages_unambiguous_witness:
  "from_le (take 4 (w_sink (buffer_of (UploadFailed_Encode \<lparr>uf_Filename = ''a''\<rparr>)))) = PeerUploadFailed"
proof -
  have "DecodeUploadFailed (w_sink (buffer_of (UploadFailed_Encode \<lparr>uf_Filename = ''a''\<rparr>))) =
      Inr \<lparr>uf_Filename = ''a''\<rparr>"
    by (rule uf.decode_encode) simp
  then show ?thesis using peer_messages_unambiguous by blast
qed

end
