(* ===== verification/SearchMessages.thy ===== *)
theory SearchMessages
  imports PeerMessages
begin

text \<open>
  \<^verbatim>\<open>src/messages/peer/file.go\<close>, \<^verbatim>\<open>src/messages/peer/searchresponse.go\<close> and
  \<^verbatim>\<open>src/protocol/compress.go\<close>: file entries with their attributes, and the search response that carries
  them. Attributes and files are codecs, so the list loops of the decoders inherit their correctness.
  zlib itself is a parameter of the model. Memory exhaustion by a large count is not modelled.
\<close>

section \<open>Files (\<^verbatim>\<open>file.go\<close>)\<close>

type_synonym AttributeType = u32

definition AttributeBitRate :: AttributeType where [wire_code]: "AttributeBitRate = 0"
definition AttributeLength :: AttributeType where [wire_code]: "AttributeLength = 1"
definition AttributeBitDepth :: AttributeType where [wire_code]: "AttributeBitDepth = 2"
definition AttributeSampleRate :: AttributeType where [wire_code]: "AttributeSampleRate = 4"
definition AttributeVBR :: AttributeType where [wire_code]: "AttributeVBR = 5"

record FileAttribute =
  attr_Type :: AttributeType
  attr_Value :: u32

record File =
  f_Code :: byte
  f_Filename :: string
  f_Size :: i64
  f_Extension :: string
  f_Attributes :: "FileAttribute list"
  f_BitRate :: u32
  f_Duration :: u32
  f_BitDepth :: u32
  f_SampleRate :: u32
  f_IsVBR :: bool

text \<open>The body of the attribute loop: append the attribute, then the switch on its type.\<close>

definition addAttribute :: "File \<Rightarrow> FileAttribute \<Rightarrow> File" where
  "addAttribute f attr =
     (let f = f\<lparr>f_Attributes := f_Attributes f @ [attr]\<rparr>;
          t = attr_Type attr; v = attr_Value attr
      in if t = AttributeBitRate then f\<lparr>f_BitRate := v\<rparr>
         else if t = AttributeLength then f\<lparr>f_Duration := v\<rparr>
         else if t = AttributeBitDepth then f\<lparr>f_BitDepth := v\<rparr>
         else if t = AttributeSampleRate then f\<lparr>f_SampleRate := v\<rparr>
         else if t = AttributeVBR then f\<lparr>f_IsVBR := (v = 1)\<rparr>
         else f)"

definition readAttribute :: "FileAttribute rd" where
  "readAttribute = do {
     t \<leftarrow> ReadUint32;
     v \<leftarrow> ReadUint32;
     State_Monad.return \<lparr>attr_Type = t, attr_Value = v\<rparr> }"

fun readAttributes :: "nat \<Rightarrow> File \<Rightarrow> File rd" where
  "readAttributes 0 f = State_Monad.return f"
| "readAttributes (Suc n) f = do { attr \<leftarrow> readAttribute; readAttributes n (addAttribute f attr) }"

definition newFile :: "byte \<Rightarrow> string \<Rightarrow> i64 \<Rightarrow> string \<Rightarrow> File" where
  "newFile code filename sz extension =
     \<lparr>f_Code = code, f_Filename = filename, f_Size = sz, f_Extension = extension,
      f_Attributes = [], f_BitRate = 0, f_Duration = 0, f_BitDepth = 0, f_SampleRate = 0,
      f_IsVBR = False\<rparr>"

definition DecodeFile :: "File rd" where
  "DecodeFile = do {
     code \<leftarrow> ReadUint8;
     filename \<leftarrow> ReadString;
     sz \<leftarrow> ReadUint64;
     extension \<leftarrow> ReadString;
     attrCount \<leftarrow> ReadUint32;
     readAttributes (unat attrCount) (newFile code filename sz extension) }"

definition writeAttribute :: "FileAttribute \<Rightarrow> 'w wr" where
  "writeAttribute attr = do { WriteUint32 (attr_Type attr); WriteUint32 (attr_Value attr) }"

definition EncodeFile :: "File \<Rightarrow> 'w wr" where
  "EncodeFile f = do {
     WriteUint8 (f_Code f);
     WriteString (f_Filename f);
     WriteUint64 (f_Size f);
     WriteString (f_Extension f);
     WriteUint32 (word_of_nat (length (f_Attributes f)));
     write_all writeAttribute (f_Attributes f) }"

section \<open>Compression (\<^verbatim>\<open>compress.go\<close>)\<close>

text \<open>
  \<^verbatim>\<open>compress/zlib\<close> enters the decoder as two functions: opening a zlib stream over the data, and reading it to its
  end. Either can fail, with its own message.
\<close>

definition Decompress ::
  "(byte list \<Rightarrow> go_error + 'z) \<Rightarrow> ('z \<Rightarrow> go_error + byte list) \<Rightarrow> byte list \<Rightarrow> go_error + byte list" where
  "Decompress zlib_NewReader io_ReadAll data =
     (case zlib_NewReader data of
        Inl e \<Rightarrow> Inl (WrapError ''create zlib reader'' e)
      | Inr z \<Rightarrow> (case io_ReadAll z of
                    Inl e \<Rightarrow> Inl (WrapError ''decompress'' e)
                  | Inr result \<Rightarrow> Inr result))"

text \<open>
  \<^verbatim>\<open>Compress\<close>: the zlib writer starts in \<open>zlib_NewWriter\<close>; writing may fail, and closing it flushes everything into the buffer.
\<close>

definition Compress ::
  "'z \<Rightarrow> (byte list \<Rightarrow> 'z \<Rightarrow> go_error + 'z) \<Rightarrow> ('z \<Rightarrow> go_error + byte list) \<Rightarrow> byte list \<Rightarrow> go_error + byte list" where
  "Compress zlib_NewWriter zlib_Write zlib_Close data =
     (case zlib_Write data zlib_NewWriter of
        Inl e \<Rightarrow> Inl (WrapError ''compress write'' e)
      | Inr w \<Rightarrow> (case zlib_Close w of
                    Inl e \<Rightarrow> Inl (WrapError ''compress close'' e)
                  | Inr buf \<Rightarrow> Inr buf))"

section \<open>Search responses (\<^verbatim>\<open>searchresponse.go\<close>)\<close>

record SearchResponse =
  sr_Username :: string
  sr_Token :: u32
  sr_Files :: "File list"
  sr_LockedFiles :: "File list"
  sr_HasFreeSlot :: bool
  sr_UploadSpeed :: u32
  sr_QueueLength :: u32

definition SearchResponse_Code :: "SearchResponse \<Rightarrow> PeerCode" where
  "SearchResponse_Code r = PeerSearchResponse"

definition decodeSearchResponsePayload :: "byte list \<Rightarrow> go_error + SearchResponse" where
  "decodeSearchResponsePayload data = fst (run_state (do {
     username \<leftarrow> ReadString;
     token \<leftarrow> ReadUint32;
     fileCount \<leftarrow> ReadUint32;
     files \<leftarrow> read_n (unat fileCount) DecodeFile;
     slot \<leftarrow> ReadUint8;
     uploadSpeed \<leftarrow> ReadUint32;
     queueLength \<leftarrow> ReadUint32;
     err \<leftarrow> Reader_Error;
     _ \<leftarrow> (if err = None then ReadUint32 else State_Monad.return 0);
     err \<leftarrow> Reader_Error;
     lockedFiles \<leftarrow> (if err = None then do {
                        lockedCount \<leftarrow> ReadUint32;
                        read_n (unat lockedCount) DecodeFile }
                     else State_Monad.return []);
     finish ''decode search response''
       \<lparr>sr_Username = username, sr_Token = token, sr_Files = files, sr_LockedFiles = lockedFiles,
        sr_HasFreeSlot = (slot = 1), sr_UploadSpeed = uploadSpeed, sr_QueueLength = queueLength\<rparr> })
     (NewReader data))"

definition DecodeSearchResponse ::
  "(byte list \<Rightarrow> go_error + byte list) \<Rightarrow> byte list \<Rightarrow> go_error + SearchResponse" where
  "DecodeSearchResponse decompress data =
     (if length data < 4 then
        Inl (ErrorString (''data too short: '' @ decimal (length data) @ '' bytes''))
      else case decompress (drop 4 data) of
             Inl e \<Rightarrow> Inl (WrapError ''decompress'' e)
           | Inr decompressed \<Rightarrow> decodeSearchResponsePayload decompressed)"

section \<open>Attributes and files are codecs\<close>

definition wire_attribute :: "FileAttribute \<Rightarrow> byte list" where
  "wire_attribute a = le_bytes 4 (attr_Type a) @ le_bytes 4 (attr_Value a)"

interpretation attr: codec writeAttribute readAttribute wire_attribute "\<lambda>_. True"
proof (unfold_locales, goal_cases)
  case (3 a)
  have "truncates (State_Monad.bind ReadUint32
          (\<lambda>v. State_Monad.return \<lparr>attr_Type = attr_Type a, attr_Value = v\<rparr>)) (le_bytes 4 (attr_Value a))"
    by (auto intro!: truncates_map truncates_ints inert_intros)
  then show ?case
    by (auto simp: readAttribute_def wire_attribute_def
        intro!: truncates_bind [OF u32.reads_dec] truncates_ints inert_intros)
qed (auto simp: writeAttribute_def readAttribute_def wire_attribute_def intro!: inert_intros)

lemma readAttributes_read_n:
  "readAttributes n f = State_Monad.bind (read_n n readAttribute)
     (\<lambda>as. State_Monad.return (foldl addAttribute f as))"
  by (induction n arbitrary: f) simp_all

lemma keeps_failure_readAttribute [inert_intros]: "keeps_failure readAttribute"
  by (rule attr.dec_keeps)

text \<open>
  A file is \<open>File_ok\<close> if it could have been decoded: strings within the limit, an attribute count that
  fits its 32-bit field, and convenience fields that are those of the attribute list.
\<close>

definition File_ok :: "File \<Rightarrow> bool" where
  "File_ok f \<longleftrightarrow> string_ok (f_Filename f) \<and> string_ok (f_Extension f) \<and>
     length (f_Attributes f) < 2 ^ 32 \<and>
     f = foldl addAttribute (newFile (f_Code f) (f_Filename f) (f_Size f) (f_Extension f)) (f_Attributes f)"

definition wire_file :: "File \<Rightarrow> byte list" where
  "wire_file f = f_Code f # wire_string (f_Filename f) @ le_bytes 8 (f_Size f) @
     wire_string (f_Extension f) @ le_bytes 4 (word_of_nat (length (f_Attributes f)) :: u32) @
     concat (map wire_attribute (f_Attributes f))"

declare unat_length_u32 [simp]

lemma truncates_readAttributes:
  "truncates (readAttributes (length as) f) (concat (map wire_attribute as))"
  unfolding readAttributes_read_n
  by (intro truncates_map attr.read_n_truncates inert_intros) (simp add: list_all_iff)

lemma keeps_failure_readAttributes [inert_intros]: "keeps_failure (readAttributes n f)"
  by (simp add: readAttributes_read_n inert_intros)

lemmas truncates_u8 = truncates_bind [OF u8.reads_dec u8.dec_truncates, OF TrueI TrueI, unfolded append_Cons append_Nil]
lemmas truncates_u32 = truncates_bind [OF u32.reads_dec u32.dec_truncates, OF TrueI TrueI]
lemmas truncates_u64 = truncates_bind [OF u64.reads_dec u64.dec_truncates, OF TrueI TrueI]
lemmas truncates_str = truncates_bind [OF str.reads_dec str.dec_truncates]

interpretation fil: codec EncodeFile DecodeFile wire_file File_ok
proof (unfold_locales, goal_cases)
  case (1 f b)
  then show ?case by (simp add: EncodeFile_def wire_file_def attr.write_all_writes)
next
  case (2 f rest)
  then have "foldl addAttribute (newFile (f_Code f) (f_Filename f) (f_Size f) (f_Extension f))
      (f_Attributes f) = f"
    by (simp add: File_ok_def)
  with 2 show ?case
    by (simp add: DecodeFile_def wire_file_def File_ok_def string_ok_def readAttributes_read_n
        attr.read_n_reads list_all_iff)
next
  case (3 f)
  then show ?case
    unfolding DecodeFile_def wire_file_def
    by (intro truncates_u8 truncates_str truncates_u64 truncates_u32 inert_intros)
      (auto simp: File_ok_def intro: truncates_readAttributes)
next
  case 4
  show ?case unfolding DecodeFile_def by (intro inert_intros)
qed

section \<open>The search response format\<close>

text \<open>
  The repository has no encoder for search responses (peers produce them). \<open>wire_files\<close> and
  \<open>wire_search_response\<close> state the format the decoder expects after decompression; \<open>trailer\<close> is the
  part after the queue length: the reserved word and the locked files.
\<close>

definition wire_files :: "File list \<Rightarrow> byte list" where
  "wire_files fs = le_bytes 4 (word_of_nat (length fs) :: u32) @ concat (map wire_file fs)"

definition wire_search_head :: "SearchResponse \<Rightarrow> byte list" where
  "wire_search_head r = wire_string (sr_Username r) @ le_bytes 4 (sr_Token r) @
     wire_files (sr_Files r) @ [if sr_HasFreeSlot r then 1 else 0] @ le_bytes 4 (sr_UploadSpeed r) @
     le_bytes 4 (sr_QueueLength r)"

definition wire_search_trailer :: "u32 \<Rightarrow> SearchResponse \<Rightarrow> byte list" where
  "wire_search_trailer reserved r = le_bytes 4 reserved @ wire_files (sr_LockedFiles r)"

definition files_ok :: "File list \<Rightarrow> bool" where
  "files_ok fs \<longleftrightarrow> length fs < 2 ^ 32 \<and> list_all File_ok fs"

definition SearchResponse_ok :: "SearchResponse \<Rightarrow> bool" where
  "SearchResponse_ok r \<longleftrightarrow> string_ok (sr_Username r) \<and> files_ok (sr_Files r) \<and> files_ok (sr_LockedFiles r)"

lemma truncates_read_files:
  "files_ok fs \<Longrightarrow> truncates (State_Monad.bind ReadUint32 (\<lambda>n. read_n (unat n) DecodeFile)) (wire_files fs)"
  unfolding wire_files_def
  by (intro truncates_u32 inert_intros fil.dec_keeps)
    (auto simp: files_ok_def intro: fil.read_n_truncates)

text \<open>The program of the decoder, with the two file loops named.\<close>

lemma decodeSearchResponsePayload_alt:
  "decodeSearchResponsePayload data = fst (run_state (do {
     username \<leftarrow> ReadString;
     token \<leftarrow> ReadUint32;
     files \<leftarrow> (State_Monad.bind ReadUint32 (\<lambda>n. read_n (unat n) DecodeFile));
     slot \<leftarrow> ReadUint8;
     uploadSpeed \<leftarrow> ReadUint32;
     queueLength \<leftarrow> ReadUint32;
     err \<leftarrow> Reader_Error;
     _ \<leftarrow> (if err = None then ReadUint32 else State_Monad.return 0);
     err \<leftarrow> Reader_Error;
     lockedFiles \<leftarrow> (if err = None then (State_Monad.bind ReadUint32 (\<lambda>n. read_n (unat n) DecodeFile))
                     else State_Monad.return []);
     finish ''decode search response''
       \<lparr>sr_Username = username, sr_Token = token, sr_Files = files, sr_LockedFiles = lockedFiles,
        sr_HasFreeSlot = (slot = 1), sr_UploadSpeed = uploadSpeed, sr_QueueLength = queueLength\<rparr> })
     (NewReader data))"
  by (simp add: decodeSearchResponsePayload_def)

lemma decode_search_wire:
  assumes "SearchResponse_ok r"
  shows "decodeSearchResponsePayload (wire_search_head r @ wire_search_trailer reserved r @ rest) = Inr r"
  using assms
  by (simp add: decodeSearchResponsePayload_def SearchResponse_ok_def wire_search_head_def
      wire_search_trailer_def string_ok_def wire_files_def files_ok_def fil.read_n_reads)

lemma reads_files: "files_ok fs \<Longrightarrow>
    reads (State_Monad.bind ReadUint32 (\<lambda>n. read_n (unat n) DecodeFile)) (wire_files fs) fs"
  by (simp add: reads_def wire_files_def files_ok_def fil.read_n_reads)

lemmas rejects_files = rejects_bind [OF reads_files truncates_read_files]

lemma rejects_Reader_Error: "rejects (k None) bs \<Longrightarrow> rejects (State_Monad.bind Reader_Error k) bs"
  by (simp add: rejects_def)

lemma rejects_search_wire:
  assumes "SearchResponse_ok r" "strict_prefix p (wire_search_head r @ wire_search_trailer reserved r)"
  shows "isl (decodeSearchResponsePayload p)"
  unfolding decodeSearchResponsePayload_alt
proof (rule rejectsD [OF _ assms(2)], goal_cases)
  case 1
  from assms(1) show ?case
    by (auto simp: SearchResponse_ok_def wire_search_head_def wire_search_trailer_def
        simp del: State_Monad.bind_assoc
        intro!: rejects_str rejects_u32 rejects_files rejects_u8 rejects_Reader_Error
          rejects_last [OF truncates_read_files] inert_intros fil.dec_keeps)
qed

section \<open>Properties\<close>

text \<open>
  File lists survive the wire: encoding any number of well-formed files with \<^verbatim>\<open>EncodeFile\<close> and decoding
  that many with \<^verbatim>\<open>DecodeFile\<close> gives the same files, convenience fields included, and leaves the rest.
\<close>

theorem file_list_roundtrip:
  assumes "list_all File_ok fs"
  shows "run_state (read_n (length fs) DecodeFile)
      (NewReader (w_sink (buffer_of (write_all EncodeFile fs)) @ rest)) = (fs, NewReader rest)"
  using fil.read_n_reads [OF assms] by (simp add: buffer_of_def fil.write_all_writes)

definition sample_file :: File where
  "sample_file = (newFile 1 ''a.mp3'' 5 ''mp3'')\<lparr>
     f_Attributes := [\<lparr>attr_Type = AttributeBitRate, attr_Value = 320\<rparr>, \<lparr>attr_Type = AttributeVBR, attr_Value = 1\<rparr>],
     f_BitRate := 320, f_IsVBR := True\<rparr>"

lemma sample_file_ok: "File_ok sample_file"
  by (simp add: File_ok_def sample_file_def newFile_def addAttribute_def wire_code)

theorem file_list_roundtrip_witness:
  "run_state (read_n (length [sample_file]) DecodeFile)
     (NewReader (w_sink (buffer_of (write_all EncodeFile [sample_file])) @ [9])) = ([sample_file], NewReader [9])"
  by (rule file_list_roundtrip) (simp add: sample_file_ok)

text \<open>
  A decoded file's convenience fields are those of its attribute list: for each kind the value of
  the last attribute of that kind, zero (or false) if there is none; unknown kinds only appear in the
  list.
\<close>

theorem decoded_convenience_fields:
  "let g = foldl addAttribute (newFile code filename sz extension) as;
       last_of = (\<lambda>t. fold (\<lambda>a v. if attr_Type a = t then Some (attr_Value a) else v) as None)
   in f_Attributes g = as \<and>
      f_BitRate g = (case last_of AttributeBitRate of Some v \<Rightarrow> v | None \<Rightarrow> 0) \<and>
      f_Duration g = (case last_of AttributeLength of Some v \<Rightarrow> v | None \<Rightarrow> 0) \<and>
      f_BitDepth g = (case last_of AttributeBitDepth of Some v \<Rightarrow> v | None \<Rightarrow> 0) \<and>
      f_SampleRate g = (case last_of AttributeSampleRate of Some v \<Rightarrow> v | None \<Rightarrow> 0) \<and>
      f_IsVBR g = (case last_of AttributeVBR of Some v \<Rightarrow> v = 1 | None \<Rightarrow> False)"
  unfolding Let_def
  by (induction as rule: rev_induct) (auto simp: newFile_def addAttribute_def Let_def wire_code)

text \<open>
  C27: The search-response decoder accepts exactly the complete format: a full response decodes to its
  contents whatever follows it, and every strict prefix of one is an error. In particular a response
  that stops after the queue length, without the reserved word and the locked files, is rejected,
  although the source calls those parts optional.
\<close>

theorem search_response_format:
  assumes "SearchResponse_ok r"
  shows "decodeSearchResponsePayload (wire_search_head r @ wire_search_trailer reserved r @ rest) = Inr r \<and>
    (\<forall>p. strict_prefix p (wire_search_head r @ wire_search_trailer reserved r) \<longrightarrow>
       isl (decodeSearchResponsePayload p)) \<and>
    isl (decodeSearchResponsePayload (wire_search_head r))"
proof -
  have "strict_prefix (wire_search_head r) (wire_search_head r @ wire_search_trailer reserved r)"
    by (simp add: strict_prefix_def wire_search_trailer_def)
  with assms show ?thesis
    using decode_search_wire rejects_search_wire by blast
qed

definition sample_response :: SearchResponse where
  "sample_response = \<lparr>sr_Username = ''bob'', sr_Token = 42, sr_Files = [sample_file], sr_LockedFiles = [],
     sr_HasFreeSlot = True, sr_UploadSpeed = 1000, sr_QueueLength = 3\<rparr>"

theorem search_response_format_witness:
  "decodeSearchResponsePayload (wire_search_head sample_response @ wire_search_trailer 0 sample_response @ [1]) =
     Inr sample_response \<and>
   isl (decodeSearchResponsePayload (wire_search_head sample_response))"
proof -
  have "SearchResponse_ok sample_response"
    by (simp add: SearchResponse_ok_def sample_response_def files_ok_def sample_file_ok)
  from search_response_format [OF this, of 0 "[1]"] show ?thesis by simp
qed

end
