(* ===== verification/Searches.thy ===== *)
theory Searches
  imports SearchMessages GoRuntime
begin

text \<open>
  \<^verbatim>\<open>src/client/search.go\<close>: the registry of active searches. A search's result channel is shared by the registry, the
  goroutine that \<^verbatim>\<open>Search\<close> starts to clean up, and the caller, so searches live in a heap and are named by their index.
  \<^verbatim>\<open>search.cancel()\<close> sets the flag that the clean-up goroutine waits for. Closing a closed channel and sending on one are
  panics and appear as such. \<^verbatim>\<open>Search\<close> itself, which also talks to the server, is in the theory \<^theory_text>\<open>Session\<close>.
\<close>

section \<open>The registry\<close>

record activeSearch =
  as_ch :: "SearchResponse chan"
  as_cancelled :: bool

record searchRegistry =
  srg_searches :: "(u32, nat) gomap"
  srg_heap :: "activeSearch list"

definition newSearchRegistry :: searchRegistry where
  "newSearchRegistry = \<lparr>srg_searches = [], srg_heap = []\<rparr>"

definition search_add :: "u32 \<Rightarrow> nat \<Rightarrow> searchRegistry \<Rightarrow> searchRegistry" where
  "search_add token p r = r\<lparr>srg_searches := Store token p (srg_searches r)\<rparr>"

definition search_get :: "u32 \<Rightarrow> searchRegistry \<Rightarrow> nat option" where
  "search_get token r = Load token (srg_searches r)"

definition search_remove :: "u32 \<Rightarrow> searchRegistry \<Rightarrow> searchRegistry" where
  "search_remove token r = r\<lparr>srg_searches := Delete token (srg_searches r)\<rparr>"

text \<open>\<^verbatim>\<open>make(chan *peer.SearchResponse, 1000)\<close> with its context, as a new heap cell.\<close>

definition new_search :: "searchRegistry \<Rightarrow> nat \<times> searchRegistry" where
  "new_search r = (length (srg_heap r), r\<lparr>srg_heap := srg_heap r @ [\<lparr>as_ch = make_chan 1000, as_cancelled = False\<rparr>]\<rparr>)"

text \<open>The non-blocking send of \<^verbatim>\<open>deliver\<close> on the channel of search \<open>p\<close>.\<close>

definition search_send :: "nat \<Rightarrow> SearchResponse \<Rightarrow> searchRegistry \<Rightarrow> go_panic + (bool \<times> searchRegistry)" where
  "search_send p resp r =
     (case try_send resp (as_ch (srg_heap r ! p)) of
        Inl e \<Rightarrow> Inl e
      | Inr (sent, ch) \<Rightarrow> Inr (sent, r\<lparr>srg_heap := (srg_heap r)[p := (srg_heap r ! p)\<lparr>as_ch := ch\<rparr>]\<rparr>))"

definition deliver :: "SearchResponse \<Rightarrow> searchRegistry \<Rightarrow> go_panic + (bool \<times> searchRegistry)" where
  "deliver resp r =
     (case search_get (sr_Token resp) r of
        None \<Rightarrow> Inr (False, r)
      | Some p \<Rightarrow> search_send p resp r)"

definition search_cancel :: "nat \<Rightarrow> searchRegistry \<Rightarrow> searchRegistry" where
  "search_cancel p r = r\<lparr>srg_heap := (srg_heap r)[p := (srg_heap r ! p)\<lparr>as_cancelled := True\<rparr>]\<rparr>"

definition search_close :: "nat \<Rightarrow> searchRegistry \<Rightarrow> go_panic + searchRegistry" where
  "search_close p r =
     (case close_chan (as_ch (srg_heap r ! p)) of
        Inl e \<Rightarrow> Inl e
      | Inr ch \<Rightarrow> Inr (r\<lparr>srg_heap := (srg_heap r)[p := (srg_heap r ! p)\<lparr>as_ch := ch\<rparr>]\<rparr>))"

text \<open>\<^verbatim>\<open>closeAll\<close> visits the searches in some order, here that of the list.\<close>

fun close_searches :: "(u32 \<times> nat) list \<Rightarrow> searchRegistry \<Rightarrow> go_panic + searchRegistry" where
  "close_searches [] r = Inr r"
| "close_searches ((token, p) # ps) r =
     (case search_close p (search_cancel p r) of
        Inl e \<Rightarrow> Inl e
      | Inr r \<Rightarrow> close_searches ps (search_remove token r))"

definition closeAll :: "searchRegistry \<Rightarrow> go_panic + searchRegistry" where
  "closeAll r = close_searches (srg_searches r) r"

text \<open>
  The goroutine of \<^verbatim>\<open>Search\<close>, once its context is done: remove the search, then close the channel. The two statements are
  separate steps, since nothing holds a lock across them.
\<close>

definition search_cleanup :: "u32 \<Rightarrow> nat \<Rightarrow> searchRegistry \<Rightarrow> go_panic + searchRegistry" where
  "search_cleanup token p r = search_close p (search_remove token r)"

section \<open>Invariant\<close>

text \<open>Registered searches are live: each has a heap cell of its own with an open channel that holds only its responses.\<close>

definition live_search :: "u32 \<Rightarrow> activeSearch \<Rightarrow> bool" where
  "live_search token s \<longleftrightarrow> \<not> ch_closed (as_ch s) \<and> ch_cap (as_ch s) = 1000 \<and> length (ch_buf (as_ch s)) \<le> 1000 \<and>
     (\<forall>x \<in> set (ch_buf (as_ch s)). sr_Token x = token)"

definition search_ok :: "searchRegistry \<Rightarrow> bool" where
  "search_ok r \<longleftrightarrow> map_ok (srg_searches r) \<and> distinct (map snd (srg_searches r)) \<and>
     (\<forall>s \<in> set (srg_searches r). snd s < length (srg_heap r) \<and> live_search (fst s) (srg_heap r ! snd s))"

lemma search_ok_get:
  assumes "search_ok r" "search_get token r = Some p"
  shows "(token, p) \<in> set (srg_searches r)" "p < length (srg_heap r)" "live_search token (srg_heap r ! p)"
  using assms map_of_SomeD [of "srg_searches r" token p] by (force simp: search_ok_def search_get_def)+

lemma search_owner:
  assumes "search_ok r" "search_get token r = Some p" "s \<in> set (srg_searches r)" "snd s = p"
  shows "s = (token, p)"
  using assms search_ok_get(1) [OF assms(1,2)] unfolding search_ok_def distinct_map inj_on_def by fastforce

lemma search_ok_new: "search_ok newSearchRegistry"
  by (simp add: search_ok_def newSearchRegistry_def)

text \<open>Cells may change as long as registered ones stay live; a removed one may do anything.\<close>

lemma search_ok_cell:
  assumes ok: "search_ok r" and get: "search_get token r = Some p" and cell: "live_search token s"
  shows "search_ok (r\<lparr>srg_heap := (srg_heap r)[p := s]\<rparr>)"
proof -
  have "live_search (fst x) ((srg_heap r)[p := s] ! snd x)" if "x \<in> set (srg_searches r)" for x
    using search_owner [OF ok get that] search_ok_get(2) [OF ok get] cell ok that
    by (cases "snd x = p") (auto simp: search_ok_def)
  then show ?thesis using ok by (simp add: search_ok_def)
qed

lemma search_ok_remove:
  assumes ok: "search_ok r" and get: "search_get token r = Some p"
  shows "search_ok ((search_remove token r)\<lparr>srg_heap := (srg_heap r)[p := s]\<rparr>)"
proof -
  have other: "snd x \<noteq> p" if "x \<in> set (srg_searches r)" "fst x \<noteq> token" for x using search_owner [OF ok get that(1)] that(2) by (metis fst_conv)
  have "live_search (fst x) ((srg_heap r)[p := s] ! snd x)" if "x \<in> set (srg_searches r)" "fst x \<noteq> token" for x
    using that ok other [OF that] by (simp add: search_ok_def)
  then show ?thesis using ok by (simp only: search_ok_def) (simp add: search_remove_def distinct_Delete set_Delete)
qed

lemma search_ok_start:
  assumes ok: "search_ok r" and fresh: "search_get token r = None"
  shows "search_ok (search_add token (fst (new_search r)) (snd (new_search r)))"
proof -
  have "Store token p (srg_searches r) = srg_searches r @ [(token, p)]" for p
    using fresh by (simp add: search_get_def Store_new)
  moreover have "length (srg_heap r) \<notin> snd ` set (srg_searches r)" using ok by (force simp: search_ok_def)
  moreover have "token \<notin> fst ` set (srg_searches r)" using fresh by (simp add: search_get_def map_of_eq_None_iff)
  ultimately show ?thesis using ok
    by (simp add: search_ok_def search_add_def new_search_def map_ok_def nth_append live_search_def less_SucI)
qed

lemma search_send_open:
  assumes "search_ok r" "search_get token r = Some p" "sr_Token resp = token"
  shows "\<exists>r'. search_send p resp r = Inr (length (ch_buf (as_ch (srg_heap r ! p))) < 1000, r') \<and> search_ok r' \<and>
     srg_searches r' = srg_searches r \<and>
     ch_buf (as_ch (srg_heap r' ! p)) = take 1000 (ch_buf (as_ch (srg_heap r ! p)) @ [resp]) \<and>
     (\<forall>q. q \<noteq> p \<longrightarrow> srg_heap r' ! q = srg_heap r ! q)"
proof -
  let ?ch = "as_ch (srg_heap r ! p)"
  let ?b = "length (ch_buf ?ch) < 1000"
  let ?s = "(srg_heap r ! p)\<lparr>as_ch := if ?b then ?ch\<lparr>ch_buf := ch_buf ?ch @ [resp]\<rparr> else ?ch\<rparr>"
  note p = search_ok_get [OF assms(1,2)]
  have send: "search_send p resp r = Inr (?b, r\<lparr>srg_heap := (srg_heap r)[p := ?s]\<rparr>)"
    using p by (simp add: search_send_def try_send_def live_search_def)
  have "live_search token ?s" using p assms(3) by (simp add: live_search_def)
  from search_ok_cell [OF assms(1,2) this] send p show ?thesis by (simp add: live_search_def)
qed

lemma search_cleanup_live:
  assumes "search_ok r" "search_get token r = Some p"
  shows "\<exists>r'. search_cleanup token p r = Inr r' \<and> search_ok r' \<and> search_get token r' = None \<and>
     ch_closed (as_ch (srg_heap r' ! p)) \<and> ch_buf (as_ch (srg_heap r' ! p)) = ch_buf (as_ch (srg_heap r ! p)) \<and>
     (\<forall>t. t \<noteq> token \<longrightarrow> search_get t r' = search_get t r) \<and> (\<forall>q. q \<noteq> p \<longrightarrow> srg_heap r' ! q = srg_heap r ! q)"
  using search_ok_get [OF assms] search_ok_remove [OF assms]
  by (simp add: search_cleanup_def search_close_def close_chan_def search_remove_def search_get_def live_search_def)

lemma search_close_closed: "ch_closed (as_ch (srg_heap r ! p)) \<Longrightarrow> search_close p r = Inl CloseOfClosed"
  by (simp add: search_close_def close_chan_def)

text \<open>\<^verbatim>\<open>closeAll\<close> closes the channel of every registered search and forgets all of them.\<close>

lemma close_searches_all:
  assumes "search_ok r" "srg_searches r = ps"
  shows "\<exists>r'. close_searches ps r = Inr r' \<and> srg_searches r' = [] \<and>
     (\<forall>p. p \<in> snd ` set ps \<longrightarrow> ch_closed (as_ch (srg_heap r' ! p)) \<and> as_cancelled (srg_heap r' ! p)) \<and>
     (\<forall>p. p \<notin> snd ` set ps \<longrightarrow> srg_heap r' ! p = srg_heap r ! p)"
  using assms
proof (induction ps arbitrary: r)
  case (Cons tp ps)
  obtain token p where tp: "tp = (token, p)" by fastforce
  have get: "search_get token r = Some p" using Cons.prems(2) by (simp add: search_get_def tp)
  note p = search_ok_get [OF Cons.prems(1) get]
  define s where "s = (srg_heap r ! p)\<lparr>as_cancelled := True, as_ch := as_ch (srg_heap r ! p)\<lparr>ch_closed := True\<rparr>\<rparr>"
  define r1 where "r1 = r\<lparr>srg_heap := (srg_heap r)[p := s], srg_searches := Delete token (srg_searches r)\<rparr>"
  have step: "close_searches (tp # ps) r = close_searches ps r1"
    using p by (simp add: tp search_close_def search_cancel_def search_remove_def close_chan_def live_search_def r1_def s_def)
  have "token \<notin> fst ` set ps" "p \<notin> snd ` set ps" using Cons.prems by (auto simp: search_ok_def map_ok_def tp)
  then have "srg_searches r1 = ps" using Cons.prems(2)
    by (simp add: r1_def search_remove_def tp Delete_None map_of_eq_None_iff)
  moreover have "search_ok r1" using search_ok_remove [OF Cons.prems(1) get, of s] by (simp add: r1_def search_ok_def search_remove_def)
  ultimately obtain r' where r': "close_searches ps r1 = Inr r'" "srg_searches r' = []"
    "\<forall>q. q \<in> snd ` set ps \<longrightarrow> ch_closed (as_ch (srg_heap r' ! q)) \<and> as_cancelled (srg_heap r' ! q)"
    "\<forall>q. q \<notin> snd ` set ps \<longrightarrow> srg_heap r' ! q = srg_heap r1 ! q" using Cons.IH by blast
  have "srg_heap r' ! p = s" using r'(4) \<open>p \<notin> snd ` set ps\<close> p(2) by (simp add: r1_def)
  moreover have "srg_heap r1 ! q = srg_heap r ! q" if "q \<noteq> p" for q using that by (simp add: r1_def)
  ultimately show ?case using r' step by (auto simp: tp s_def)
qed simp

section \<open>Properties\<close>

text \<open>
  C30: a search response reaches the search it answers and no other. In any state in which registered searches are live, a
  response whose token belongs to a search is appended to that search's channel, behind the earlier ones and only while
  fewer than 1000 are waiting, and every other channel is left alone; a response with an unknown token changes nothing.
  When the search's context ends, its goroutine removes it and closes its channel, and the results waiting in it stay
  readable.\<close>

theorem search_delivery:
  assumes "search_ok r"
  shows "(search_get (sr_Token resp) r = None \<longrightarrow> deliver resp r = Inr (False, r)) \<and>
     (\<forall>p. search_get (sr_Token resp) r = Some p \<longrightarrow>
        (\<exists>sent r'. deliver resp r = Inr (sent, r') \<and> search_ok r' \<and> (sent \<longleftrightarrow> length (ch_buf (as_ch (srg_heap r ! p))) < 1000) \<and>
           ch_buf (as_ch (srg_heap r' ! p)) = take 1000 (ch_buf (as_ch (srg_heap r ! p)) @ [resp]) \<and>
           (\<forall>q. q \<noteq> p \<longrightarrow> srg_heap r' ! q = srg_heap r ! q)) \<and>
        (\<exists>r'. search_cleanup (sr_Token resp) p r = Inr r' \<and> search_ok r' \<and> search_get (sr_Token resp) r' = None \<and>
           ch_closed (as_ch (srg_heap r' ! p)) \<and> ch_buf (as_ch (srg_heap r' ! p)) = ch_buf (as_ch (srg_heap r ! p))))"
  using search_send_open [OF assms] search_cleanup_live [OF assms] unfolding deliver_def
  by (auto split: option.splits) blast+

definition demo_response :: "u32 \<Rightarrow> SearchResponse" where
  "demo_response token = \<lparr>sr_Username = ''bob'', sr_Token = token, sr_Files = [], sr_LockedFiles = [], sr_HasFreeSlot = True,
     sr_UploadSpeed = 1, sr_QueueLength = 0\<rparr>"

definition demo_searches :: searchRegistry where
  "demo_searches = search_add 7 (fst (new_search newSearchRegistry)) (snd (new_search newSearchRegistry))"

lemma demo_searches: "search_ok demo_searches" "search_get 7 demo_searches = Some 0" "search_get 8 demo_searches = None"
  using search_ok_start [OF search_ok_new, of 7]
  by (simp_all add: demo_searches_def search_get_def search_add_def newSearchRegistry_def new_search_def)

theorem search_delivery_witness:
  "(\<exists>r'. deliver (demo_response 7) demo_searches = Inr (True, r') \<and> ch_buf (as_ch (srg_heap r' ! 0)) = [demo_response 7]) \<and>
   deliver (demo_response 8) demo_searches = Inr (False, demo_searches)"
  using search_delivery [OF demo_searches(1), of "demo_response 7"] search_delivery [OF demo_searches(1), of "demo_response 8"] demo_searches(2,3)
  by (auto simp: demo_response_def) (auto simp: demo_searches_def search_add_def new_search_def newSearchRegistry_def)

text \<open>
  C31: disconnecting with a search in progress crashes the program. \<^verbatim>\<open>closeAll\<close> cancels the context of each search, closes its
  channel and forgets it; the cancellation wakes the goroutine that \<^verbatim>\<open>Search\<close> started, which then closes the same channel a
  second time: a run-time panic, for every search that was active. A response delivered between the lookup and a close
  panics in the same way.\<close>

theorem disconnect_during_search:
  assumes "search_ok r" "search_get token r = Some p"
  shows "\<exists>r'. closeAll r = Inr r' \<and> srg_searches r' = [] \<and> as_cancelled (srg_heap r' ! p) \<and>
     search_cleanup token p r' = Inl CloseOfClosed \<and> search_send p resp r' = Inl SendOnClosed"
proof -
  have "p \<in> snd ` set (srg_searches r)" using search_ok_get(1) [OF assms] by force
  with close_searches_all [OF assms(1) refl] obtain r' where r': "closeAll r = Inr r'" "srg_searches r' = []"
    "ch_closed (as_ch (srg_heap r' ! p))" "as_cancelled (srg_heap r' ! p)" by (auto simp: closeAll_def)
  then show ?thesis
    by (auto simp: search_cleanup_def search_remove_def search_send_def try_send_def intro!: search_close_closed)
qed

theorem disconnect_during_search_witness:
  "\<exists>r'. closeAll demo_searches = Inr r' \<and> search_cleanup 7 0 r' = Inl CloseOfClosed"
  using disconnect_during_search [OF demo_searches(1,2), of "demo_response 7"] by blast

end
