(* ===== verification/Connection.thy ===== *)
theory Connection
  imports Codec
begin

text \<open>
  \<^verbatim>\<open>src/connection/connection.go\<close>: framed and raw I/O over a TCP connection. The incoming side is the
  list of segments the network still has to deliver (the first one is what \<^verbatim>\<open>bufio.Reader\<close> holds) and
  the error it reports after them; the outgoing side is the bytes the socket has taken, how many more
  it will take before it fails, and \<^verbatim>\<open>bufio.Writer\<close>'s sticky error. Deadlines and addresses are not
  modelled. The theory relates the segmented stream to the plain byte stream: framing does not depend
  on how TCP cuts the bytes, the raw \<open>Conn_Read\<close> does.
\<close>

section \<open>Connections\<close>

record Conn =
  c_in :: "byte list list"
  c_end :: go_error
  c_out :: "byte list"
  c_room :: "nat option" \<comment> \<open>bytes the socket still accepts; \<open>None\<close> for no limit\<close>
  c_fail :: go_error \<comment> \<open>what the socket reports when it accepts no more\<close>
  c_werr :: "go_error option" \<comment> \<open>the error kept by \<open>bufio.Writer\<close>\<close>
  c_closed :: bool

definition NewConn :: "byte list list \<Rightarrow> go_error \<Rightarrow> Conn" where
  "NewConn segs e = \<lparr>c_in = segs, c_end = e, c_out = [], c_room = None, c_fail = EOF, c_werr = None,
                     c_closed = False\<rparr>"

text \<open>
  \<^verbatim>\<open>Dial\<close>. \<^verbatim>\<open>net.Dialer.DialContext\<close> is a parameter: it answers an error or a socket, whose behaviour, with empty buffers around it, is a \<open>Conn\<close>.
\<close>

definition Dial :: "(string \<Rightarrow> go_error + Conn) \<Rightarrow> string \<Rightarrow> go_error + Conn" where
  "Dial DialContext address =
     (case DialContext address of
        Inl err \<Rightarrow> Inl (WrapError (''dial '' @ address) err)
      | Inr conn \<Rightarrow> Inr conn)"

lemma Dial_ok [simp]: "DialContext address = Inr k \<Longrightarrow> Dial DialContext address = Inr k"
  by (simp add: Dial_def)

text \<open>
  \<^verbatim>\<open>net.Conn.Close\<close>: from now on the socket delivers and takes nothing; what \<^verbatim>\<open>bufio.Reader\<close> already holds can still be read.
\<close>

definition net_ErrClosed :: go_error where
  "net_ErrClosed = OSError ''use of closed network connection''"

definition Conn_Close :: "Conn \<Rightarrow> Conn" where
  "Conn_Close c = c\<lparr>c_in := take 1 (c_in c), c_end := net_ErrClosed, c_room := Some 0, c_fail := net_ErrClosed, c_closed := True\<rparr>"

definition maxMessageSize :: nat where
  "maxMessageSize = 100 * 1024 * 1024"

section \<open>Reading\<close>

text \<open>\<^verbatim>\<open>c.r.Read(p)\<close> with \<open>len(p) = n > 0\<close>: at most one segment is looked at.\<close>

definition Conn_Read :: "nat \<Rightarrow> Conn \<Rightarrow> (byte list \<times> go_error option) \<times> Conn" where
  "Conn_Read n c = (case c_in c of
       [] \<Rightarrow> (([], Some (c_end c)), c)
     | s # ss \<Rightarrow> if n < length s then ((take n s, None), c\<lparr>c_in := drop n s # ss\<rparr>)
                 else ((s, None), c\<lparr>c_in := ss\<rparr>))"

text \<open>
  \<^verbatim>\<open>io.ReadFull(c.r, buf)\<close>: read until \<open>n\<close> more bytes are there. \<open>acc\<close> is what has been read; an end of
  stream in the middle becomes \<^verbatim>\<open>io.ErrUnexpectedEOF\<close>, any other error is passed on.
\<close>

fun segs_ReadFull ::
  "go_error \<Rightarrow> nat \<Rightarrow> byte list \<Rightarrow> byte list list \<Rightarrow> (go_error + byte list) \<times> byte list list" where
  "segs_ReadFull e n acc [] =
     (if n = 0 then (Inr acc, []) else (Inl (if acc \<noteq> [] \<and> e = EOF then ErrUnexpectedEOF else e), []))"
| "segs_ReadFull e n acc (s # ss) =
     (if n = 0 then (Inr acc, s # ss)
      else if n < length s then (Inr (acc @ take n s), drop n s # ss)
      else segs_ReadFull e (n - length s) (acc @ s) ss)"

definition Conn_ReadFull :: "nat \<Rightarrow> Conn \<Rightarrow> (go_error + byte list) \<times> Conn" where
  "Conn_ReadFull n c = (case segs_ReadFull (c_end c) n [] (c_in c) of (r, ss) \<Rightarrow> (r, c\<lparr>c_in := ss\<rparr>))"

definition ReadMessage :: "Conn \<Rightarrow> (go_error + byte list) \<times> Conn" where
  "ReadMessage c =
     (case Conn_ReadFull 4 c of
        (Inl e, c1) \<Rightarrow> (Inl (WrapError ''read message length'' e), c1)
      | (Inr b, c1) \<Rightarrow>
          (let len = unat (from_le b :: u32) in
           if len > maxMessageSize then
             (Inl (ErrorString (''message too large: '' @ decimal len @ '' bytes (max '' @
                     decimal maxMessageSize @ '')'')), c1)
           else (case Conn_ReadFull len c1 of
                   (Inl e, c2) \<Rightarrow> (Inl (WrapError ''read message payload'' e), c2)
                 | (Inr payload, c2) \<Rightarrow> (Inr payload, c2))))"

section \<open>Writing\<close>

text \<open>One \<^verbatim>\<open>Write\<close> on the socket: the bytes that fit are taken; if not all fit, an error.\<close>

definition socket_Write :: "byte list \<Rightarrow> Conn \<Rightarrow> go_error option \<times> Conn" where
  "socket_Write p c = (case c_room c of
       None \<Rightarrow> (None, c\<lparr>c_out := c_out c @ p\<rparr>)
     | Some k \<Rightarrow> if length p \<le> k then (None, c\<lparr>c_out := c_out c @ p, c_room := Some (k - length p)\<rparr>)
                 else (Some (c_fail c), c\<lparr>c_out := c_out c @ take k p, c_room := Some 0\<rparr>))"

text \<open>
  \<^verbatim>\<open>bufio.Writer\<close> with its 4096-byte buffer. \<open>bufio_Write p buf\<close>: \<open>buf\<close> is what is buffered before;
  a chunk that does not fit fills the buffer and flushes it, a large rest goes to the socket directly,
  the remainder stays buffered. An error is kept and returned by every later call.
\<close>

definition bufio_size :: nat where
  "bufio_size = 4096"

definition bufio_flush :: "byte list \<Rightarrow> Conn \<Rightarrow> go_error option \<times> Conn" where
  "bufio_flush buf c = (case c_werr c of
       Some e \<Rightarrow> (Some e, c)
     | None \<Rightarrow> if buf = [] then (None, c)
               else (case socket_Write buf c of (e, c1) \<Rightarrow> (e, c1\<lparr>c_werr := e\<rparr>)))"

definition bufio_Write :: "byte list \<Rightarrow> byte list \<Rightarrow> Conn \<Rightarrow> go_error option \<times> byte list \<times> Conn" where
  "bufio_Write p buf c = (case c_werr c of
       Some e \<Rightarrow> (Some e, buf, c)
     | None \<Rightarrow>
         (let avail = bufio_size - length buf in
          if length p \<le> avail then (None, buf @ p, c)
          else
            (let (e, rest, c1) =
               (if buf = [] then (case bufio_flush p c of (e, c1) \<Rightarrow> (e, [], c1))
                else (case bufio_flush (buf @ take avail p) c of (e, c1) \<Rightarrow> (e, drop avail p, c1)))
             in case e of
                  Some e \<Rightarrow> (Some e, [], c1)
                | None \<Rightarrow>
                    if length rest \<le> bufio_size then (None, rest, c1)
                    else (case bufio_flush rest c1 of (e, c2) \<Rightarrow> (e, [], c2)))))"

definition WriteMessage :: "byte list \<Rightarrow> Conn \<Rightarrow> go_error option \<times> Conn" where
  "WriteMessage payload c =
     (case bufio_Write (le_bytes 4 (word_of_nat (length payload) :: u32)) [] c of
        (Some e, buf, c1) \<Rightarrow> (Some (WrapError ''write message length'' e), c1)
      | (None, buf, c1) \<Rightarrow>
          (case bufio_Write payload buf c1 of
             (Some e, buf, c2) \<Rightarrow> (Some (WrapError ''write message payload'' e), c2)
           | (None, buf, c2) \<Rightarrow> bufio_flush buf c2))"

text \<open>\<^verbatim>\<open>Conn.Write\<close>: raw bytes, flushed at once.\<close>

definition Conn_Write :: "byte list \<Rightarrow> Conn \<Rightarrow> go_error option \<times> Conn" where
  "Conn_Write p c =
     (case bufio_Write p [] c of
        (Some e, buf, c1) \<Rightarrow> (Some e, c1)
      | (None, buf, c1) \<Rightarrow> bufio_flush buf c1)"

section \<open>The byte stream behind the segments\<close>

abbreviation stream :: "Conn \<Rightarrow> byte list" where
  "stream c \<equiv> concat (c_in c)"

lemma segs_ReadFull_enough:
  "n \<le> length (concat ss) \<Longrightarrow>
     \<exists>ss'. segs_ReadFull e n acc ss = (Inr (acc @ take n (concat ss)), ss') \<and> concat ss' = drop n (concat ss)"
proof (induction ss arbitrary: n acc)
  case (Cons s ss)
  show ?case
  proof (cases "length s \<le> n")
    case True
    then show ?thesis using Cons.IH [of "n - length s" "acc @ s"] Cons.prems by auto
  qed auto
qed auto

lemma segs_ReadFull_short:
  "length (concat ss) < n \<Longrightarrow>
     segs_ReadFull e n acc ss =
       (Inl (if (acc \<noteq> [] \<or> concat ss \<noteq> []) \<and> e = EOF then ErrUnexpectedEOF else e), [])"
  by (induction ss arbitrary: n acc) auto

text \<open>
  Refinement: on a connection that ends with \<^verbatim>\<open>io.EOF\<close>, reading \<open>n\<close> bytes from the segments is reading \<open>n\<close>
  bytes from the stream they make up.
\<close>

lemma segs_ReadFull_refines:
  "(\<lambda>(r, ss'). (r, concat ss')) (segs_ReadFull EOF n [] ss) = io_ReadFull n (concat ss)"
proof (cases "n \<le> length (concat ss)")
  case True
  then show ?thesis using segs_ReadFull_enough [OF True, of EOF "[]"] by (auto simp: io_ReadFull_def)
next
  case False
  then show ?thesis using segs_ReadFull_short [of ss n EOF "[]"] by (auto simp: io_ReadFull_def)
qed

text \<open>The abstract framing: one message off a byte stream.\<close>

definition read_frame :: "byte list \<Rightarrow> (go_error + byte list) \<times> byte list" where
  "read_frame s =
     (case io_ReadFull 4 s of
        (Inl e, r) \<Rightarrow> (Inl (WrapError ''read message length'' e), r)
      | (Inr b, r) \<Rightarrow>
          (let len = unat (from_le b :: u32) in
           if len > maxMessageSize then
             (Inl (ErrorString (''message too large: '' @ decimal len @ '' bytes (max '' @
                     decimal maxMessageSize @ '')'')), r)
           else (case io_ReadFull len r of
                   (Inl e, r2) \<Rightarrow> (Inl (WrapError ''read message payload'' e), r2)
                 | (Inr payload, r2) \<Rightarrow> (Inr payload, r2))))"

lemma Conn_ReadFull_refines:
  assumes "c_end c = EOF" "Conn_ReadFull n c = (r, c')"
  shows "io_ReadFull n (stream c) = (r, stream c') \<and> c_end c' = EOF \<and> c_out c' = c_out c"
  using assms segs_ReadFull_refines [of n "c_in c"]
  by (auto simp: Conn_ReadFull_def split: prod.splits)

lemma ReadMessage_refines:
  assumes "c_end c = EOF" "ReadMessage c = (r, c')"
  shows "read_frame (stream c) = (r, stream c') \<and> c_end c' = EOF \<and> c_out c' = c_out c"
proof -
  obtain r1 c1 where 1: "Conn_ReadFull 4 c = (r1, c1)" by force
  note R1 = Conn_ReadFull_refines [OF assms(1) 1]
  show ?thesis
  proof (cases r1)
    case (Inl e)
    with R1 1 assms(2) show ?thesis by (auto simp: ReadMessage_def read_frame_def)
  next
    case (Inr b)
    obtain r2 c2 where 2: "Conn_ReadFull (unat (from_le b :: u32)) c1 = (r2, c2)" by force
    with R1 have "io_ReadFull (unat (from_le b :: u32)) (stream c1) = (r2, stream c2) \<and>
        c_end c2 = EOF \<and> c_out c2 = c_out c1"
      by (intro Conn_ReadFull_refines) auto
    with R1 1 2 Inr assms(2) show ?thesis
      by (auto simp: ReadMessage_def read_frame_def Let_def split: if_splits sum.splits)
  qed
qed

definition frame :: "byte list \<Rightarrow> byte list" where
  "frame payload = le_bytes 4 (word_of_nat (length payload) :: u32) @ payload"

lemma read_frame_frame [simp]:
  assumes "length p \<le> maxMessageSize"
  shows "read_frame (frame p @ rest) = (Inr p, rest)"
proof -
  have "length p < 2 ^ 32" using assms by (simp add: maxMessageSize_def)
  then have "unat (word_of_nat (length p) :: u32) = length p" by (simp add: unat_of_nat)
  with assms show ?thesis by (simp add: read_frame_def frame_def Let_def)
qed

text \<open>What the socket has taken after a write: all of it, or the prefix that fitted and an error.\<close>

definition accepts :: "Conn \<Rightarrow> nat \<Rightarrow> bool" where
  "accepts c n \<longleftrightarrow> (case c_room c of None \<Rightarrow> True | Some k \<Rightarrow> n \<le> k)"

definition take_room :: "Conn \<Rightarrow> byte list \<Rightarrow> byte list" where
  "take_room c p = (case c_room c of None \<Rightarrow> p | Some k \<Rightarrow> take k p)"

lemma flush_sends:
  assumes "c_werr c = None" "bufio_flush p c = (e, c')"
  shows "c_out c' = c_out c @ take_room c p \<and> c_werr c' = e \<and>
    c_room c' = map_option (\<lambda>k. k - length p) (c_room c) \<and>
    e = (if accepts c (length p) then None else Some (c_fail c)) \<and>
    c_in c' = c_in c \<and> c_fail c' = c_fail c"
  using assms
  by (auto simp: bufio_flush_def socket_Write_def accepts_def take_room_def
      split: if_splits option.splits)

text \<open>
  \<open>sends p c e c'\<close>: from a connection without a pending error, the bytes \<open>p\<close> were handed to the socket
  in order; \<open>e\<close> is an error exactly if they did not all fit.
\<close>

definition sends :: "byte list \<Rightarrow> Conn \<Rightarrow> bool \<Rightarrow> Conn \<Rightarrow> bool" where
  "sends p c failed c' \<longleftrightarrow> c_out c' = c_out c @ take_room c p \<and>
     failed = (\<not> accepts c (length p)) \<and> c_in c' = c_in c"

lemma flush_Nil [simp]: "c_werr c = None \<Longrightarrow> bufio_flush [] c = (None, c)"
  by (simp add: bufio_flush_def)

lemma flush_once:
  assumes "c_werr c = None" "bufio_flush p c = (e, c')"
  shows "sends p c (e \<noteq> None) c' \<and> c_werr c' = e"
  using flush_sends [OF assms] by (auto simp: sends_def)

lemma sends_prefix: "sends p c True c' \<Longrightarrow> sends (p @ q) c True c'"
  by (auto simp: sends_def accepts_def take_room_def split: option.splits)

lemma flush_twice:
  assumes "c_werr c = None" "bufio_flush p c = (None, c1)" "bufio_flush q c1 = (e, c2)"
  shows "sends (p @ q) c (e \<noteq> None) c2 \<and> c_werr c2 = e"
proof -
  from flush_sends [OF assms(1,2)] have 1: "c_werr c1 = None" "c_out c1 = c_out c @ take_room c p"
    "accepts c (length p)" "c_room c1 = map_option (\<lambda>k. k - length p) (c_room c)" "c_in c1 = c_in c"
    by (auto split: if_splits)
  from flush_sends [OF 1(1) assms(3)] 1 show ?thesis
    by (auto simp: sends_def accepts_def take_room_def split: option.splits if_splits)
qed

text \<open>Buffering is transparent: a buffered write followed by a flush sends the bytes in order.\<close>

lemma bufio_Write_flush:
  assumes "c_werr c = None" "bufio_Write p buf c = (e, rest, c1)"
    "(case e of None \<Rightarrow> bufio_flush rest c1 | Some x \<Rightarrow> (Some x, c1)) = (e2, c2)"
  shows "sends (buf @ p) c (e2 \<noteq> None) c2 \<and> c_werr c2 = e2"
proof (cases "length p \<le> bufio_size - length buf")
  case True
  with assms have "bufio_flush (buf @ p) c = (e2, c2)"
    by (auto simp: bufio_Write_def)
  with assms(1) show ?thesis by (rule flush_once)
next
  case False
  define q1 where "q1 = (if buf = [] then p else buf @ take (bufio_size - length buf) p)"
  define q2 where "q2 = (if buf = [] then [] else drop (bufio_size - length buf) p)"
  have eq: "buf @ p = q1 @ q2" by (simp add: q1_def q2_def)
  obtain f d where f: "bufio_flush q1 c = (f, d)" by force
  show ?thesis
  proof (cases f)
    case (Some x)
    with assms False f have "e2 = Some x" "c2 = d"
      by (auto simp: bufio_Write_def Let_def q1_def split: if_splits prod.splits)
    with flush_once [OF assms(1) f] Some show ?thesis
      using sends_prefix [of q1 c d q2] by (auto simp: eq)
  next
    case None
    then have d: "c_werr d = None" using flush_once [OF assms(1) f] by simp
    have "bufio_flush q2 d = (e2, c2)"
    proof (cases "length q2 \<le> bufio_size")
      case True
      with assms False f None d show ?thesis
        by (auto simp: bufio_Write_def Let_def q1_def q2_def split: if_splits prod.splits)
    next
      case long: False
      obtain g h where g: "bufio_flush q2 d = (g, h)" by force
      then have "c_werr h = g" using flush_once [OF d] by simp
      with assms False f None long g show ?thesis
        by (auto simp: bufio_Write_def Let_def q1_def q2_def
            split: if_splits prod.splits option.splits)
    qed
    with assms(1) f None show ?thesis unfolding eq by (auto dest: flush_twice)
  qed
qed

lemma WriteMessage_sends:
  assumes "c_werr c = None" "WriteMessage payload c = (e, c')"
  shows "sends (frame payload) c (e \<noteq> None) c' \<and> (c_werr c' = None \<longleftrightarrow> e = None)"
proof -
  let ?hdr = "le_bytes 4 (word_of_nat (length payload) :: u32)"
  have hdr: "bufio_Write ?hdr [] c = (None, ?hdr, c)"
    using assms(1) by (simp add: bufio_Write_def bufio_size_def)
  obtain f rest c1 where w: "bufio_Write payload ?hdr c = (f, rest, c1)" by (metis prod_cases3)
  obtain e2 c2 where fin: "(case f of None \<Rightarrow> bufio_flush rest c1 | Some x \<Rightarrow> (Some x, c1)) = (e2, c2)"
    by force
  from bufio_Write_flush [OF assms(1) w fin]
  have "sends (frame payload) c (e2 \<noteq> None) c2" "c_werr c2 = e2" by (simp_all add: frame_def)
  moreover from assms(2) hdr w fin have "c' = c2 \<and> (e = None \<longleftrightarrow> e2 = None)"
    by (cases f) (auto simp: WriteMessage_def)
  ultimately show ?thesis by auto
qed

lemma Conn_Write_short:
  assumes "c_werr c = None" "c_room c = None" "p \<noteq> []" "length p \<le> bufio_size"
  shows "Conn_Write p c = (None, c\<lparr>c_out := c_out c @ p, c_werr := None\<rparr>)"
  using assms by (simp add: Conn_Write_def bufio_Write_def bufio_flush_def socket_Write_def)

text \<open>A socket without a limit stays one.\<close>

lemma flush_room: "c_room c = None \<Longrightarrow> bufio_flush p c = (e, c') \<Longrightarrow> c_room c' = None"
  by (auto simp: bufio_flush_def socket_Write_def split: option.splits if_splits)

lemma bufio_Write_room: "c_room c = None \<Longrightarrow> bufio_Write p buf c = (e, rest, c') \<Longrightarrow> c_room c' = None"
  by (auto simp: bufio_Write_def Let_def split: option.splits if_splits prod.splits dest: flush_room)

lemma WriteMessage_room: "c_room c = None \<Longrightarrow> WriteMessage p c = (e, c') \<Longrightarrow> c_room c' = None"
  by (auto simp: WriteMessage_def split: option.splits prod.splits dest: flush_room bufio_Write_room)

lemma WriteMessage_closed: "fst (WriteMessage p (Conn_Close c)) \<noteq> None"
proof (cases "c_werr c")
  case None
  obtain e c' where w: "WriteMessage p (Conn_Close c) = (e, c')" by fastforce
  then have "sends (frame p) (Conn_Close c) (e \<noteq> None) c'" using WriteMessage_sends [of "Conn_Close c"] None by (simp add: Conn_Close_def)
  then have "e \<noteq> None \<longleftrightarrow> length (frame p) > 0" unfolding sends_def accepts_def by (simp add: Conn_Close_def)
  then show ?thesis using w by (simp add: frame_def)
next
  case (Some e)
  then show ?thesis by (simp add: WriteMessage_def bufio_Write_def Conn_Close_def)
qed

section \<open>Whole conversations\<close>

text \<open>Reading \<open>n\<close> messages one after the other, stopping at the first error.\<close>

fun read_messages :: "nat \<Rightarrow> Conn \<Rightarrow> (go_error + byte list list) \<times> Conn" where
  "read_messages 0 c = (Inr [], c)"
| "read_messages (Suc n) c =
     (case ReadMessage c of
        (Inl e, c1) \<Rightarrow> (Inl e, c1)
      | (Inr p, c1) \<Rightarrow> (case read_messages n c1 of
                         (Inl e, c2) \<Rightarrow> (Inl e, c2)
                       | (Inr ps, c2) \<Rightarrow> (Inr (p # ps), c2)))"

fun write_messages :: "byte list list \<Rightarrow> Conn \<Rightarrow> go_error option \<times> Conn" where
  "write_messages [] c = (None, c)"
| "write_messages (p # ps) c =
     (case WriteMessage p c of
        (Some e, c1) \<Rightarrow> (Some e, c1)
      | (None, c1) \<Rightarrow> write_messages ps c1)"

lemma read_messages_frames:
  assumes "c_end c = EOF" "stream c = concat (map frame ps) @ rest"
    "list_all (\<lambda>p. length p \<le> maxMessageSize) ps"
  shows "\<exists>c'. read_messages (length ps) c = (Inr ps, c') \<and> stream c' = rest"
  using assms
proof (induction ps arbitrary: c)
  case Nil
  then show ?case by simp
next
  case (Cons p ps)
  obtain r c1 where 1: "ReadMessage c = (r, c1)" by force
  have "read_frame (stream c) = (Inr p, concat (map frame ps) @ rest)"
    using Cons.prems by simp
  with ReadMessage_refines [OF Cons.prems(1) 1]
  have c1: "r = Inr p" "stream c1 = concat (map frame ps) @ rest" "c_end c1 = EOF" by auto
  with Cons.IH [of c1] Cons.prems obtain c' where
    "read_messages (length ps) c1 = (Inr ps, c')" "stream c' = rest" by auto
  with 1 c1 show ?case by simp
qed

lemma write_messages_frames:
  assumes "c_werr c = None" "c_room c = None"
  shows "\<exists>c'. write_messages ps c = (None, c') \<and> c_out c' = c_out c @ concat (map frame ps)"
  using assms
proof (induction ps arbitrary: c)
  case Nil
  then show ?case by simp
next
  case (Cons p ps)
  obtain e c1 where 1: "WriteMessage p c = (e, c1)" by force
  have "e = None" "c_werr c1 = None" "c_out c1 = c_out c @ frame p"
    using WriteMessage_sends [OF Cons.prems(1) 1] Cons.prems(2)
    by (auto simp: sends_def accepts_def take_room_def)
  moreover have "c_room c1 = None"
    using 1 Cons.prems unfolding WriteMessage_def bufio_Write_def bufio_flush_def socket_Write_def
    by (auto simp: Let_def bufio_size_def split: if_splits option.splits prod.splits)
  ultimately show ?case using Cons.IH [of c1] 1 by auto
qed


section \<open>Properties\<close>

text \<open>
  C9: Framing is transparent. Whatever messages of at most 100 MiB are written to a healthy connection,
  and however the network cuts the resulting bytes into segments, the reader gets back exactly those
  messages in order, and the bytes after them are left unread.
\<close>

theorem framing_roundtrip:
  assumes "c_werr c = None" "c_room c = None" "c_out c = []"
    and "list_all (\<lambda>p. length p \<le> maxMessageSize) ps"
    and "concat (c_in d) = c_out (snd (write_messages ps c)) @ rest" "c_end d = EOF"
  shows "fst (write_messages ps c) = None \<and>
    (\<exists>d'. read_messages (length ps) d = (Inr ps, d') \<and> concat (c_in d') = rest)"
  using write_messages_frames [OF assms(1,2), of ps] read_messages_frames [OF assms(6) _ assms(4), of rest]
    assms(3,5) by auto

theorem framing_roundtrip_witness:
  "fst (write_messages [[7], [], [8, 9]] (NewConn [] EOF)) = None \<and>
   (\<exists>d'. read_messages (Suc (Suc (Suc 0))) (NewConn [[1, 0], [0, 0, 7, 0, 0], [0, 0, 2, 0, 0, 0, 8], [9, 5]] EOF) =
      (Inr [[7], [], [8, 9]], d') \<and> concat (c_in d') = [5])"
  using framing_roundtrip [of "NewConn [] EOF" "[[7], [], [8, 9]]"
      "NewConn [[1, 0], [0, 0, 7, 0, 0], [0, 0, 2, 0, 0, 0, 8], [9, 5]] EOF" "[5]"]
  by (simp add: NewConn_def maxMessageSize_def WriteMessage_def bufio_Write_def bufio_flush_def
      socket_Write_def bufio_size_def le_bytes_4)

text \<open>
  A failing socket never sees garbage: after \<^verbatim>\<open>WriteMessage\<close> the socket has taken a prefix of the
  frame, the call returns an error exactly when that prefix is not the whole frame, and after an error
  every later \<^verbatim>\<open>WriteMessage\<close> fails without sending anything.
\<close>

theorem WriteMessage_prefix:
  assumes "c_werr c = None" "c_room c = Some k" "WriteMessage payload c = (e, c')"
  shows "c_out c' = c_out c @ take k (frame payload) \<and>
    (e = None \<longleftrightarrow> length (frame payload) \<le> k) \<and>
    (e \<noteq> None \<longrightarrow> (\<forall>q. fst (WriteMessage q c') \<noteq> None \<and> snd (WriteMessage q c') = c'))"
  using WriteMessage_sends [OF assms(1,3)] assms(2)
  by (auto simp: sends_def accepts_def take_room_def WriteMessage_def bufio_Write_def)

theorem WriteMessage_prefix_witness:
  "let c = (NewConn [] EOF)\<lparr>c_room := Some 5\<rparr> in
     c_out (snd (WriteMessage [7, 8] c)) = [2, 0, 0, 0, 7] \<and> fst (WriteMessage [7, 8] c) \<noteq> None"
  using WriteMessage_prefix [of "(NewConn [] EOF)\<lparr>c_room := Some 5\<rparr>" 5 "[7, 8]"
      "fst (WriteMessage [7, 8] ((NewConn [] EOF)\<lparr>c_room := Some 5\<rparr>))"
      "snd (WriteMessage [7, 8] ((NewConn [] EOF)\<lparr>c_room := Some 5\<rparr>))"]
  by (simp add: NewConn_def Let_def frame_def le_bytes_4)

text \<open>
  C29: \<^verbatim>\<open>ReadMessage\<close> refines the abstract framing of a byte stream: its result, error or payload, and the
  bytes it leaves unread are those of \<^term>\<open>read_frame\<close> on the concatenated segments.
\<close>

theorem ReadMessage_refines_read_frame:
  assumes "c_end c = EOF"
  shows "read_frame (concat (c_in c)) =
    (fst (ReadMessage c), concat (c_in (snd (ReadMessage c))))"
  using ReadMessage_refines [OF assms, of "fst (ReadMessage c)" "snd (ReadMessage c)"] by simp

theorem ReadMessage_refines_read_frame_witness:
  "read_frame (concat [[2, 0], [0], [0, 7]]) =
    (fst (ReadMessage (NewConn [[2, 0], [0], [0, 7]] EOF)),
     concat (c_in (snd (ReadMessage (NewConn [[2, 0], [0], [0, 7]] EOF)))))"
  using ReadMessage_refines_read_frame [of "NewConn [[2, 0], [0], [0, 7]] EOF"]
  by (simp add: NewConn_def)

end
