(* ===== verification/ServerMessages.thy ===== *)
theory ServerMessages
  imports PeerMessages
begin

text \<open>
  \<^verbatim>\<open>src/messages/server/*.go\<close>: the messages between the client and the central server. The client only
  encodes requests and only decodes responses, so encoders are characterised by the exact bytes they
  append and decoders by the wire format they accept, \<open>wire_*\<close> below, together with the rejection of
  every truncation of it. MD5 is a parameter of the login request.
\<close>

section \<open>Login (\<^verbatim>\<open>login.go\<close>)\<close>

record LoginRequest =
  lreq_Username :: string
  lreq_Password :: string
  lreq_Version :: u32
  lreq_MinorVersion :: u32

definition NewLoginRequest :: "string \<Rightarrow> string \<Rightarrow> LoginRequest" where
  "NewLoginRequest username password =
     \<lparr>lreq_Username = username, lreq_Password = password, lreq_Version = 170, lreq_MinorVersion = 100\<rparr>"

text \<open>\<^verbatim>\<open>hex.EncodeToString\<close>.\<close>

definition hex_digit :: "nat \<Rightarrow> char" where
  "hex_digit n = ''0123456789abcdef'' ! (n mod 16)"

fun hex_EncodeToString :: "byte list \<Rightarrow> string" where
  "hex_EncodeToString [] = ''''"
| "hex_EncodeToString (b # bs) = hex_digit (unat b div 16) # hex_digit (unat b mod 16) # hex_EncodeToString bs"

definition computeMD5 :: "(byte list \<Rightarrow> byte list) \<Rightarrow> string \<Rightarrow> string" where
  "computeMD5 md5_Sum s = hex_EncodeToString (md5_Sum (bytes_of_string s))"

definition LoginRequest_Encode :: "(byte list \<Rightarrow> byte list) \<Rightarrow> LoginRequest \<Rightarrow> 'w wr" where
  "LoginRequest_Encode md5_Sum r = (let hash = computeMD5 md5_Sum (lreq_Username r @ lreq_Password r) in do {
     WriteUint32 ServerLogin;
     WriteString (lreq_Username r);
     WriteString (lreq_Password r);
     WriteUint32 (lreq_Version r);
     WriteString hash;
     WriteUint32 (lreq_MinorVersion r) })"

record LoginResponse =
  lresp_Succeeded :: bool
  lresp_Message :: string
  lresp_IPAddress :: "byte list"
  lresp_Hash :: string
  lresp_IsSupporter :: bool

text \<open>\<^verbatim>\<open>net.IPv4(a, b, c, d)\<close> builds the 16-byte form of an IPv4 address.\<close>

definition net_IPv4 :: "byte \<Rightarrow> byte \<Rightarrow> byte \<Rightarrow> byte \<Rightarrow> byte list" where
  "net_IPv4 a b c d = replicate 10 0 @ [0xFF, 0xFF, a, b, c, d]"

definition DecodeLoginResponse :: "(go_error + LoginResponse) rd" where
  "DecodeLoginResponse = do {
     code \<leftarrow> ReadUint32;
     if code \<noteq> ServerLogin then
       State_Monad.return (Inl (ErrorString (''unexpected code '' @ decimal (unat code) @
         '', want '' @ decimal (unat ServerLogin))))
     else do {
       s \<leftarrow> ReadUint8;
       message \<leftarrow> ReadString;
       if s = 1 then do {
         ipBytes \<leftarrow> ReadBytes 4;
         hash \<leftarrow> ReadString;
         sup \<leftarrow> ReadUint8;
         finish ''decode login response''
           \<lparr>lresp_Succeeded = True, lresp_Message = message,
            lresp_IPAddress = (if length ipBytes = 4
               then net_IPv4 (ipBytes ! 3) (ipBytes ! 2) (ipBytes ! 1) (ipBytes ! 0) else []),
            lresp_Hash = hash, lresp_IsSupporter = (sup = 1)\<rparr> }
       else
         finish ''decode login response''
           \<lparr>lresp_Succeeded = False, lresp_Message = message, lresp_IPAddress = [], lresp_Hash = '''',
            lresp_IsSupporter = False\<rparr> } }"

section \<open>Requests\<close>

record SetListenPort =
  slp_Port :: u32

definition SetListenPort_Encode :: "SetListenPort \<Rightarrow> 'w wr" where
  "SetListenPort_Encode m = do { WriteUint32 ServerSetListenPort; WriteUint32 (slp_Port m) }"

type_synonym UserPresence = u32

definition StatusOffline :: UserPresence where [wire_code]: "StatusOffline = 0"
definition StatusAway :: UserPresence where [wire_code]: "StatusAway = 1"
definition StatusOnline :: UserPresence where [wire_code]: "StatusOnline = 2"

definition UserPresence_String :: "UserPresence \<Rightarrow> string" where
  "UserPresence_String p =
     (if p = StatusOffline then ''Offline'' else if p = StatusAway then ''Away''
      else if p = StatusOnline then ''Online'' else ''Unknown'')"

record SetOnlineStatus =
  sos_Status :: UserPresence

definition SetOnlineStatus_Encode :: "SetOnlineStatus \<Rightarrow> 'w wr" where
  "SetOnlineStatus_Encode m = do { WriteUint32 ServerSetOnlineStatus; WriteUint32 (sos_Status m) }"

record SharedFoldersAndFiles =
  sff_Directories :: u32
  sff_Files :: u32

definition SharedFoldersAndFiles_Encode :: "SharedFoldersAndFiles \<Rightarrow> 'w wr" where
  "SharedFoldersAndFiles_Encode m = do {
     WriteUint32 ServerSharedFoldersAndFiles;
     WriteUint32 (sff_Directories m);
     WriteUint32 (sff_Files m) }"

record FileSearch =
  fs_Token :: u32
  fs_Query :: string

definition FileSearch_Encode :: "FileSearch \<Rightarrow> 'w wr" where
  "FileSearch_Encode m = do {
     WriteUint32 ServerFileSearch;
     WriteUint32 (fs_Token m);
     WriteString (fs_Query m) }"

definition Ping_Encode :: "'w wr" where
  "Ping_Encode = WriteUint32 ServerPing"

definition DecodePing :: "go_error option rd" where
  "DecodePing = do {
     code \<leftarrow> ReadUint32;
     if code \<noteq> ServerPing then
       State_Monad.return (Some (ErrorString (''unexpected code '' @ decimal (unat code) @
         '', want '' @ decimal (unat ServerPing))))
     else Reader_Error }"

section \<open>Peer addresses (\<^verbatim>\<open>getpeeraddress.go\<close>, \<^verbatim>\<open>connecttopeer.go\<close>)\<close>

record GetPeerAddress =
  gpa_Username :: string

definition GetPeerAddress_Encode :: "GetPeerAddress \<Rightarrow> 'w wr" where
  "GetPeerAddress_Encode m = do { WriteUint32 ServerGetPeerAddress; WriteString (gpa_Username m) }"

record GetPeerAddressResponse =
  gpar_Username :: string
  gpar_IPAddress :: "byte list"
  gpar_Port :: u32

text \<open>\<^verbatim>\<open>for i := 3; i >= 0; i-- { ipBytes[i] = r.ReadUint8() }\<close>, in one message unrolled.\<close>

definition readIPBytes :: "byte list rd" where
  "readIPBytes = do {
     b3 \<leftarrow> ReadUint8;
     b2 \<leftarrow> ReadUint8;
     b1 \<leftarrow> ReadUint8;
     b0 \<leftarrow> ReadUint8;
     State_Monad.return [b0, b1, b2, b3] }"

definition DecodeGetPeerAddress :: "(go_error + GetPeerAddressResponse) rd" where
  "DecodeGetPeerAddress = expect_code ServerGetPeerAddress (do {
     username \<leftarrow> ReadString;
     ipBytes \<leftarrow> readIPBytes;
     port \<leftarrow> ReadUint32;
     finish ''decode get peer address''
       \<lparr>gpar_Username = username, gpar_IPAddress = ipBytes, gpar_Port = port\<rparr> })"

type_synonym ConnectionType = string

definition ConnectionTypePeer :: ConnectionType where "ConnectionTypePeer = ''P''"
definition ConnectionTypeTransfer :: ConnectionType where "ConnectionTypeTransfer = ''F''"
definition ConnectionTypeDistributed :: ConnectionType where "ConnectionTypeDistributed = ''D''"

record ConnectToPeer =
  ctp_Username :: string
  ctp_Type :: ConnectionType
  ctp_IPAddress :: "byte list"
  ctp_Port :: u32
  ctp_Token :: u32
  ctp_IsPrivileged :: bool

record ConnectToPeerRequest =
  ctpr_Token :: u32
  ctpr_Username :: string
  ctpr_Type :: ConnectionType

definition ConnectToPeerRequest_Encode :: "ConnectToPeerRequest \<Rightarrow> 'w wr" where
  "ConnectToPeerRequest_Encode m = do {
     WriteUint32 ServerConnectToPeer;
     WriteUint32 (ctpr_Token m);
     WriteString (ctpr_Username m);
     WriteString (ctpr_Type m) }"

definition DecodeConnectToPeer :: "(go_error + ConnectToPeer) rd" where
  "DecodeConnectToPeer = do {
     code \<leftarrow> ReadUint32;
     if code \<noteq> ServerConnectToPeer then
       State_Monad.return (Inl (ErrorString (''unexpected code: '' @ decimal (unat code))))
     else do {
       username \<leftarrow> ReadString;
       connType \<leftarrow> ReadString;
       ip \<leftarrow> readIPBytes;
       port \<leftarrow> ReadUint32;
       token \<leftarrow> ReadUint32;
       p \<leftarrow> ReadUint8;
       finish ''decode connect to peer''
         \<lparr>ctp_Username = username, ctp_Type = connType, ctp_IPAddress = ip, ctp_Port = port,
          ctp_Token = token, ctp_IsPrivileged = (p > 0)\<rparr> } }"

section \<open>What the encoders send\<close>

lemma server_requests_bytes [wire_simps]:
  "w_sink (buffer_of (SetListenPort_Encode a)) = le_bytes 4 ServerSetListenPort @ le_bytes 4 (slp_Port a)"
  "w_sink (buffer_of (SetOnlineStatus_Encode b)) = le_bytes 4 ServerSetOnlineStatus @ le_bytes 4 (sos_Status b)"
  "w_sink (buffer_of (SharedFoldersAndFiles_Encode c)) =
     le_bytes 4 ServerSharedFoldersAndFiles @ le_bytes 4 (sff_Directories c) @ le_bytes 4 (sff_Files c)"
  "w_sink (buffer_of (FileSearch_Encode d)) =
     le_bytes 4 ServerFileSearch @ le_bytes 4 (fs_Token d) @ wire_string (fs_Query d)"
  "w_sink (buffer_of Ping_Encode) = le_bytes 4 ServerPing"
  "w_sink (buffer_of (GetPeerAddress_Encode e)) =
     le_bytes 4 ServerGetPeerAddress @ wire_string (gpa_Username e)"
  "w_sink (buffer_of (ConnectToPeerRequest_Encode f)) =
     le_bytes 4 ServerConnectToPeer @ le_bytes 4 (ctpr_Token f) @ wire_string (ctpr_Username f) @
     wire_string (ctpr_Type f)"
  by (simp_all add: buffer_of_def SetListenPort_Encode_def SetOnlineStatus_Encode_def
      SharedFoldersAndFiles_Encode_def FileSearch_Encode_def Ping_Encode_def GetPeerAddress_Encode_def
      ConnectToPeerRequest_Encode_def)

lemma DecodePing_Encode:
  "run_state DecodePing (NewReader (w_sink (buffer_of Ping_Encode))) = (None, NewReader [])"
  by (simp add: wire_simps DecodePing_def)

section \<open>What the decoders accept\<close>

definition wire_ConnectToPeer :: "ConnectToPeer \<Rightarrow> byte list" where
  "wire_ConnectToPeer m = le_bytes 4 ServerConnectToPeer @ wire_string (ctp_Username m) @
     wire_string (ctp_Type m) @ rev (ctp_IPAddress m) @ le_bytes 4 (ctp_Port m) @
     le_bytes 4 (ctp_Token m) @ [if ctp_IsPrivileged m then 1 else 0]"

definition ConnectToPeer_ok :: "ConnectToPeer \<Rightarrow> bool" where
  "ConnectToPeer_ok m \<longleftrightarrow> string_ok (ctp_Username m) \<and> string_ok (ctp_Type m) \<and> length (ctp_IPAddress m) = 4"

definition wire_GetPeerAddressResponse :: "GetPeerAddressResponse \<Rightarrow> byte list" where
  "wire_GetPeerAddressResponse m = le_bytes 4 ServerGetPeerAddress @ wire_string (gpar_Username m) @
     rev (gpar_IPAddress m) @ le_bytes 4 (gpar_Port m)"

definition GetPeerAddressResponse_ok :: "GetPeerAddressResponse \<Rightarrow> bool" where
  "GetPeerAddressResponse_ok m \<longleftrightarrow> string_ok (gpar_Username m) \<and> length (gpar_IPAddress m) = 4"

text \<open>\<open>ip\<close> is the address as four bytes; it travels reversed and is returned in its 16-byte form.\<close>

definition wire_LoginSucceeded :: "string \<Rightarrow> byte list \<Rightarrow> string \<Rightarrow> bool \<Rightarrow> byte list" where
  "wire_LoginSucceeded greeting ip hash supporter = le_bytes 4 ServerLogin @ [1] @ wire_string greeting @
     rev ip @ wire_string hash @ [if supporter then 1 else 0]"

definition wire_LoginFailed :: "string \<Rightarrow> byte list" where
  "wire_LoginFailed reason = le_bytes 4 ServerLogin @ [0] @ wire_string reason"

lemma length_4_cases:
  assumes "length xs = 4"
  obtains a b c d where "xs = [a, b, c, d]"
  using assms by (auto simp: length_Suc_conv numeral_eq_Suc)

lemma reads_IPBytes: "length ip = 4 \<Longrightarrow> reads readIPBytes (rev ip) ip"
  by (elim length_4_cases) (simp add: reads_def readIPBytes_def)

lemma truncates_IPBytes: "length ip = 4 \<Longrightarrow> truncates readIPBytes (rev ip)"
proof (elim length_4_cases)
  fix a b c d assume "ip = [a, b, c, d]"
  have "truncates readIPBytes [d, c, b, a]"
    unfolding readIPBytes_def truncates_def
    by (auto simp: strict_prefix_def prefix_Cons ReadUint8_def binary_Read_def io_ReadFull_def)
  with \<open>ip = _\<close> show ?thesis by simp
qed

lemma keeps_failure_IPBytes [inert_intros]: "keeps_failure readIPBytes"
  unfolding readIPBytes_def by (intro inert_intros)

lemma reads_ReadBytes: "length bs = n \<Longrightarrow> reads (ReadBytes (int n)) bs bs"
  by (simp add: reads_def ReadBytes_def)

lemma truncates_ReadBytes: "length bs = n \<Longrightarrow> truncates (ReadBytes (int n)) bs"
  by (auto simp: truncates_def ReadBytes_def io_ReadFull_def dest!: prefix_length_less)

lemma reads_ReadBytes4: "length ip = 4 \<Longrightarrow> reads (ReadBytes 4) (rev ip) (rev ip)"
  using reads_ReadBytes [of "rev ip" 4] by simp

lemma truncates_ReadBytes4: "length ip = 4 \<Longrightarrow> truncates (ReadBytes 4) (rev ip)"
  using truncates_ReadBytes [of "rev ip" 4] by simp

lemmas server_decode_defs =
  DecodeConnectToPeer_def wire_ConnectToPeer_def ConnectToPeer_ok_def
  DecodeGetPeerAddress_def wire_GetPeerAddressResponse_def GetPeerAddressResponse_ok_def
  DecodeLoginResponse_def wire_LoginSucceeded_def wire_LoginFailed_def

lemmas server_rejects = rejects_intros inert_intros rejects_expect_code
  rejects_bind [OF reads_IPBytes truncates_IPBytes]
  rejects_bind [OF reads_ReadBytes4 truncates_ReadBytes4]

lemma decode_ConnectToPeer:
  "ConnectToPeer_ok m \<Longrightarrow> fst (run_state DecodeConnectToPeer (NewReader (wire_ConnectToPeer m @ rest))) = Inr m"
  by (simp add: server_decode_defs string_ok_def reads_IPBytes [THEN reads_iff])

lemma rejects_ConnectToPeer: "ConnectToPeer_ok m \<Longrightarrow> rejects DecodeConnectToPeer (wire_ConnectToPeer m)"
  by (auto simp: server_decode_defs intro!: server_rejects)

lemma decode_GetPeerAddress:
  "GetPeerAddressResponse_ok m \<Longrightarrow>
   fst (run_state DecodeGetPeerAddress (NewReader (wire_GetPeerAddressResponse m @ rest))) = Inr m"
  by (simp add: server_decode_defs string_ok_def reads_IPBytes [THEN reads_iff])

lemma rejects_GetPeerAddress:
  "GetPeerAddressResponse_ok m \<Longrightarrow> rejects DecodeGetPeerAddress (wire_GetPeerAddressResponse m)"
  by (auto simp: server_decode_defs intro!: server_rejects)

lemma decode_LoginSucceeded:
  assumes "string_ok greeting" "string_ok hash"
  shows "fst (run_state DecodeLoginResponse
      (NewReader (wire_LoginSucceeded greeting [a, b, c, d] hash supporter @ rest))) =
    Inr \<lparr>lresp_Succeeded = True, lresp_Message = greeting, lresp_IPAddress = net_IPv4 a b c d,
         lresp_Hash = hash, lresp_IsSupporter = supporter\<rparr>"
  using assms reads_ReadBytes4 [of "[a, b, c, d]", THEN reads_iff]
  by (simp add: server_decode_defs string_ok_def)

lemma rejects_LoginSucceeded:
  "string_ok greeting \<Longrightarrow> string_ok hash \<Longrightarrow> length ip = 4 \<Longrightarrow>
   rejects DecodeLoginResponse (wire_LoginSucceeded greeting ip hash supporter)"
  by (auto simp: server_decode_defs intro!: server_rejects)

lemma decode_LoginFailed:
  "string_ok reason \<Longrightarrow> fst (run_state DecodeLoginResponse (NewReader (wire_LoginFailed reason @ rest))) =
    Inr \<lparr>lresp_Succeeded = False, lresp_Message = reason, lresp_IPAddress = [], lresp_Hash = '''',
         lresp_IsSupporter = False\<rparr>"
  by (simp add: server_decode_defs string_ok_def)

section \<open>Properties\<close>

text \<open>
  The server's responses decode to what was sent, with addresses read from their reversed wire
  order, and a truncated response is always an error.
\<close>

theorem server_responses_decode:
  "(ConnectToPeer_ok m \<longrightarrow>
     fst (run_state DecodeConnectToPeer (NewReader (wire_ConnectToPeer m @ rest))) = Inr m \<and>
     (\<forall>p. strict_prefix p (wire_ConnectToPeer m) \<longrightarrow> isl (fst (run_state DecodeConnectToPeer (NewReader p))))) \<and>
   (GetPeerAddressResponse_ok g \<longrightarrow>
     fst (run_state DecodeGetPeerAddress (NewReader (wire_GetPeerAddressResponse g @ rest))) = Inr g \<and>
     (\<forall>p. strict_prefix p (wire_GetPeerAddressResponse g) \<longrightarrow>
        isl (fst (run_state DecodeGetPeerAddress (NewReader p))))) \<and>
   (string_ok greeting \<and> string_ok hash \<longrightarrow>
     fst (run_state DecodeLoginResponse
        (NewReader (wire_LoginSucceeded greeting [a, b, c, d] hash supporter @ rest))) =
       Inr \<lparr>lresp_Succeeded = True, lresp_Message = greeting, lresp_IPAddress = net_IPv4 a b c d,
            lresp_Hash = hash, lresp_IsSupporter = supporter\<rparr> \<and>
     (\<forall>p. strict_prefix p (wire_LoginSucceeded greeting [a, b, c, d] hash supporter) \<longrightarrow>
        isl (fst (run_state DecodeLoginResponse (NewReader p)))))"
  using rejectsD [OF rejects_ConnectToPeer] rejectsD [OF rejects_GetPeerAddress]
    rejectsD [OF rejects_LoginSucceeded [of greeting hash "[a, b, c, d]" supporter]]
  by (simp add: decode_ConnectToPeer decode_GetPeerAddress decode_LoginSucceeded)

theorem server_responses_decode_witness:
  "fst (run_state DecodeConnectToPeer (NewReader (wire_ConnectToPeer
      \<lparr>ctp_Username = ''bob'', ctp_Type = ''P'', ctp_IPAddress = [192, 168, 1, 2], ctp_Port = 2234,
       ctp_Token = 5, ctp_IsPrivileged = False\<rparr> @ []))) =
    Inr \<lparr>ctp_Username = ''bob'', ctp_Type = ''P'', ctp_IPAddress = [192, 168, 1, 2], ctp_Port = 2234,
         ctp_Token = 5, ctp_IsPrivileged = False\<rparr>"
proof -
  have "ConnectToPeer_ok \<lparr>ctp_Username = ''bob'', ctp_Type = ''P'', ctp_IPAddress = [192, 168, 1, 2],
      ctp_Port = 2234, ctp_Token = 5, ctp_IsPrivileged = False\<rparr>"
    by (simp add: ConnectToPeer_ok_def)
  then show ?thesis using server_responses_decode by blast
qed

end
