(* ===== verification/Paths.thy ===== *)
theory Paths
  imports Errors
begin

text \<open>
  The functions of \<^verbatim>\<open>strings\<close> and \<^verbatim>\<open>path/filepath\<close> (Unix) that \<^verbatim>\<open>src/client/fileshare.go\<close> calls: splitting,
  prefix and suffix tests, \<^verbatim>\<open>Clean\<close>, \<^verbatim>\<open>Join\<close>, \<^verbatim>\<open>Rel\<close> and \<^verbatim>\<open>Ext\<close>. A path is its list of elements and
  whether it is rooted; \<open>clean_parts\<close> computes them.
\<close>

section \<open>Splitting and joining\<close>

fun split_on :: "char \<Rightarrow> string \<Rightarrow> string list" where
  "split_on c [] = [[]]"
| "split_on c (x # xs) =
     (if x = c then [] # split_on c xs
      else case split_on c xs of [] \<Rightarrow> [[x]] | p # ps \<Rightarrow> (x # p) # ps)"

lemma split_on_not_Nil [simp]: "split_on c xs \<noteq> []"
  by (induction xs) (auto split: list.splits)

lemma split_on_plain: "c \<notin> set x \<Longrightarrow> split_on c x = [x]"
  by (induction x) auto

lemma split_on_sep: "c \<notin> set x \<Longrightarrow> split_on c (x @ c # ys) = x # split_on c ys"
  by (induction x) auto

lemma split_on_append: "split_on c (xs @ c # ys) = split_on c xs @ split_on c ys"
  by (induction xs) (auto split: list.splits)

lemma split_join:
  "ps \<noteq> [] \<Longrightarrow> \<forall>p\<in>set ps. c \<notin> set p \<Longrightarrow> split_on c (join_strings [c] ps) = ps"
  by (induction "[c]" ps rule: join_strings.induct) (auto simp: split_on_plain split_on_sep)

lemma join_inj:
  assumes "ps \<noteq> []" "qs \<noteq> []" "\<forall>p\<in>set ps. c \<notin> set p" "\<forall>q\<in>set qs. c \<notin> set q"
    and "join_strings [c] ps = join_strings [c] qs"
  shows "ps = qs"
  using assms split_join by metis

lemma split_on_elements: "p \<in> set (split_on c xs) \<Longrightarrow> c \<notin> set p"
  by (induction xs arbitrary: p) (auto split: if_splits list.splits)

lemma join_strings_snoc: "ps \<noteq> [] \<Longrightarrow> join_strings sep (ps @ [p]) = join_strings sep ps @ sep @ p"
  by (induction sep ps rule: join_strings.induct) auto

lemma join_Cons: "ps \<noteq> [] \<Longrightarrow> join_strings sep (p # ps) = p @ sep @ join_strings sep ps"
  by (cases ps) simp_all

text \<open>\<^verbatim>\<open>strings.ReplaceAll\<close> for single characters, \<^verbatim>\<open>strings.ContainsAny\<close>, \<^verbatim>\<open>strings.HasPrefix\<close> is \<open>prefix\<close>.\<close>

definition ReplaceAll :: "char \<Rightarrow> char \<Rightarrow> string \<Rightarrow> string" where
  "ReplaceAll a b s = map (\<lambda>c. if c = a then b else c) s"

definition ContainsAny :: "string \<Rightarrow> string \<Rightarrow> bool" where
  "ContainsAny s chars \<longleftrightarrow> (\<exists>c\<in>set s. c \<in> set chars)"

lemma ReplaceAll_join:
  "\<forall>p\<in>set ps. a \<notin> set p \<Longrightarrow> ReplaceAll a b (join_strings [a] ps) = join_strings [b] ps"
proof (induction "[a]" ps rule: join_strings.induct)
  case (2 x)
  then show ?case by (auto simp: ReplaceAll_def intro: map_idI)
next
  case (3 x y ys)
  have "ReplaceAll a b x = x" using 3 by (auto simp: ReplaceAll_def intro: map_idI)
  with 3 show ?case by (simp add: ReplaceAll_def)
qed (simp add: ReplaceAll_def)

text \<open>Everything up to the last separator, and the rest: \<^verbatim>\<open>strings.LastIndex\<close> and slicing.\<close>

definition before_last :: "char \<Rightarrow> string \<Rightarrow> string option" where
  "before_last c s = (if c \<in> set s then Some (rev (drop 1 (dropWhile (\<lambda>x. x \<noteq> c) (rev s)))) else None)"

lemma before_last_append: "c \<notin> set b \<Longrightarrow> before_last c (a @ c # b) = Some a"
  by (simp add: before_last_def dropWhile_append)

section \<open>Paths\<close>

definition IsAbs :: "string \<Rightarrow> bool" where
  "IsAbs p = prefix ''/'' p"

text \<open>\<^verbatim>\<open>Clean\<close>'s loop over the elements; \<open>acc\<close> is the output so far, last element first.\<close>

fun resolve_dots :: "bool \<Rightarrow> string list \<Rightarrow> string list \<Rightarrow> string list" where
  "resolve_dots rooted acc [] = rev acc"
| "resolve_dots rooted acc (c # cs) =
     (if c = '''' \<or> c = ''.'' then resolve_dots rooted acc cs
      else if c = ''..'' then
        (case acc of
           a # acc' \<Rightarrow> if a \<noteq> ''..'' then resolve_dots rooted acc' cs else resolve_dots rooted (c # acc) cs
         | [] \<Rightarrow> if rooted then resolve_dots rooted [] cs else resolve_dots rooted [c] cs)
      else resolve_dots rooted (c # acc) cs)"

definition clean_parts :: "string \<Rightarrow> bool \<times> string list" where
  "clean_parts p = (IsAbs p, resolve_dots (IsAbs p) [] (split_on (CHR ''/'') p))"

definition render_path :: "bool \<times> string list \<Rightarrow> string" where
  "render_path p = (case p of (rooted, cs) \<Rightarrow>
     if rooted then ''/'' @ join_strings ''/'' cs
     else if cs = [] then ''.'' else join_strings ''/'' cs)"

definition Clean :: "string \<Rightarrow> string" where
  "Clean p = render_path (clean_parts p)"

definition Join :: "string \<Rightarrow> string \<Rightarrow> string" where
  "Join a b = (if a = '''' \<and> b = '''' then '''' else if a = '''' then Clean b
               else if b = '''' then Clean a else Clean (a @ ''/'' @ b))"

text \<open>Drop the common leading elements.\<close>

fun strip_common :: "string list \<Rightarrow> string list \<Rightarrow> string list \<times> string list" where
  "strip_common (b # bs) (t # ts) = (if b = t then strip_common bs ts else (b # bs, t # ts))"
| "strip_common bs ts = (bs, ts)"

text \<open>
  \<^verbatim>\<open>Rel\<close>: both paths cleaned; equal paths give \<^verbatim>\<open>"."\<close>; a rooted and an unrooted path have no
  relation; the base may not need a \<^verbatim>\<open>".."\<close> undone. A target that cleans to \<^verbatim>\<open>"."\<close> is the one element \<^verbatim>\<open>"."\<close>.
\<close>

definition Rel :: "string \<Rightarrow> string \<Rightarrow> go_error + string" where
  "Rel basepath targpath = (case (clean_parts basepath, clean_parts targpath) of ((rb, bs), (rt, ts)) \<Rightarrow>
     if (rb, bs) = (rt, ts) then Inr ''.''
     else let ts' = (if \<not> rt \<and> ts = [] then [''.''] else ts);
              err = Inl (ErrorString (''Rel: can't make '' @ targpath @ '' relative to '' @ basepath))
          in if rb \<noteq> rt then err
             else case strip_common bs ts' of (bs', ts'') \<Rightarrow>
               if bs' \<noteq> [] \<and> ts'' \<noteq> [] \<and> hd bs' = ''..'' then err
               else Inr (join_strings ''/'' (replicate (length bs') ''..'' @ ts'')))"

text \<open>\<^verbatim>\<open>Ext\<close>: from the last dot of the last element on, or empty.\<close>

definition Ext :: "string \<Rightarrow> string" where
  "Ext p = (let base = last (split_on (CHR ''/'') p) in
     case before_last (CHR ''.'') base of None \<Rightarrow> '''' | Some pre \<Rightarrow> drop (length pre) base)"

section \<open>Ordinary names\<close>

text \<open>A directory entry's name: not empty, not \<^verbatim>\<open>.\<close> or \<^verbatim>\<open>..\<close>, without a slash.\<close>

definition ordinary :: "string \<Rightarrow> bool" where
  "ordinary n \<longleftrightarrow> n \<noteq> '''' \<and> n \<noteq> ''.'' \<and> n \<noteq> ''..'' \<and> CHR ''/'' \<notin> set n"

lemma resolve_ordinary:
  "\<forall>n\<in>set ns. ordinary n \<Longrightarrow> resolve_dots r acc (cs @ ns) = resolve_dots r acc cs @ ns"
proof (induction r acc cs rule: resolve_dots.induct)
  case (1 r acc)
  then show ?case
  proof (induction ns arbitrary: acc)
    case (Cons n ns)
    from Cons.prems have "resolve_dots r acc (n # ns) = resolve_dots r (n # acc) ns"
      by (simp add: ordinary_def)
    with Cons show ?case by simp
  qed simp
qed (auto split: list.splits)

lemma clean_parts_append:
  assumes "p \<noteq> ''''" "ordinary n"
  shows "clean_parts (p @ ''/'' @ n) = (fst (clean_parts p), snd (clean_parts p) @ [n])"
proof -
  have "IsAbs (p @ ''/'' @ n) = IsAbs p" using assms(1) by (cases p) (simp_all add: IsAbs_def)
  moreover have "split_on (CHR ''/'') (p @ ''/'' @ n) = split_on (CHR ''/'') p @ [n]"
    using split_on_append [of "CHR ''/''" p n] assms(2) by (simp add: split_on_plain ordinary_def)
  ultimately show ?thesis using assms(2) by (simp add: clean_parts_def resolve_ordinary)
qed

lemma resolve_elements:
  "c \<in> set (resolve_dots r acc cs) \<Longrightarrow> c \<in> set acc \<or> c \<in> set cs \<and> c \<noteq> '''' \<and> c \<noteq> ''.''"
  by (induction r acc cs rule: resolve_dots.induct) (auto split: if_splits list.splits)

lemma resolve_rooted:
  "''..'' \<notin> set acc \<Longrightarrow> ''..'' \<notin> set (resolve_dots True acc cs)"
  by (induction True acc cs rule: resolve_dots.induct) (auto split: if_splits list.splits)

lemma clean_parts_ordinary:
  assumes "IsAbs p" "c \<in> set (snd (clean_parts p))"
  shows "ordinary c"
  using assms resolve_elements [of c True "[]" "split_on (CHR ''/'') p"]
    resolve_rooted [of "[]" "split_on (CHR ''/'') p"] split_on_elements [of c "CHR ''/''" p]
  by (auto simp: clean_parts_def ordinary_def)

text \<open>Cleaning a cleaned rooted path changes nothing.\<close>

lemma clean_parts_render:
  assumes "\<forall>c\<in>set cs. ordinary c"
  shows "clean_parts (render_path (True, cs)) = (True, cs)"
proof -
  have "split_on (CHR ''/'') (''/'' @ join_strings ''/'' cs) = '''' # split_on (CHR ''/'') (join_strings ''/'' cs)"
    by simp
  moreover have "resolve_dots True [] (split_on (CHR ''/'') (join_strings ''/'' cs)) = cs"
  proof (cases "cs = []")
    case False
    then have "split_on (CHR ''/'') (join_strings ''/'' cs) = cs"
      using assms by (intro split_join) (auto simp: ordinary_def)
    then show ?thesis using resolve_ordinary [OF assms, of True "[]" "[]"] by simp
  qed simp
  ultimately show ?thesis by (simp add: clean_parts_def render_path_def IsAbs_def)
qed

lemma IsAbs_render [simp]: "IsAbs (render_path (True, cs))"
  by (simp add: render_path_def IsAbs_def)

text \<open>The path of an entry below an absolute directory.\<close>

lemma Join_absolute:
  assumes "IsAbs p" "ordinary n"
  shows "Join p n = render_path (True, snd (clean_parts p) @ [n])"
    and "clean_parts (Join p n) = (True, snd (clean_parts p) @ [n])"
    and "IsAbs (Join p n)"
proof -
  have p: "p \<noteq> ''''" using assms(1) by (auto simp: IsAbs_def)
  moreover have "n \<noteq> ''''" using assms(2) by (simp add: ordinary_def)
  moreover have "fst (clean_parts p)" using assms(1) by (simp add: clean_parts_def)
  ultimately show *: "Join p n = render_path (True, snd (clean_parts p) @ [n])"
    using clean_parts_append [OF p assms(2)] by (simp add: Join_def Clean_def)
  show "clean_parts (Join p n) = (True, snd (clean_parts p) @ [n])"
    unfolding * using clean_parts_ordinary [OF assms(1)] assms(2) by (intro clean_parts_render) auto
  show "IsAbs (Join p n)" by (simp add: *)
qed

lemma strip_common_append: "strip_common bs (bs @ ts) = ([], ts)"
proof (induction bs)
  case Nil
  then show ?case by (cases ts) simp_all
qed simp

lemma Rel_below:
  assumes "IsAbs base" "clean_parts path = (True, snd (clean_parts base) @ ns)" "ns \<noteq> []"
  shows "Rel base path = Inr (join_strings ''/'' ns)"
proof -
  have "fst (clean_parts base)" using assms(1) by (simp add: clean_parts_def)
  then show ?thesis using assms(2,3)
    by (cases "clean_parts base") (simp add: Rel_def strip_common_append)
qed

end
