(* ===== verification/FileShare.thy ===== *)
theory FileShare
  imports GoRuntime Paths SearchMessages
begin

text \<open>
  \<^verbatim>\<open>src/client/fileshare.go\<close>: shared folders, the scan that builds the file index, its lookups, counts
  and persistence. The file system is a value \<open>Fs\<close> (what \<^verbatim>\<open>os.Stat\<close> and \<^verbatim>\<open>os.Lstat\<close> answer; a directory
  carries the entries \<^verbatim>\<open>os.ReadDir\<close> returns, in its order, and a possible error); \<^verbatim>\<open>filepath.WalkDir\<close> is
  written out over it. Unicode lower-casing (\<^verbatim>\<open>strings.ToLower\<close>) and JSON are parameters.
\<close>

section \<open>Data\<close>

record SharedFolder =
  sf_LocalPath :: string
  sf_VirtualPath :: string

record SharedFile =
  sh_LocalPath :: string
  sh_SoulseekPath :: string
  sh_Size :: i64
  sh_Extension :: string
  sh_Attributes :: "FileAttribute list"

type_synonym AttributeResolver = "string \<Rightarrow> FileAttribute list"

record FileSharer =
  fs_folders :: "SharedFolder list"
  fs_files :: "(string, SharedFile) gomap"
  fs_attrResolver :: "AttributeResolver option"

definition NewFileSharer :: FileSharer where
  "NewFileSharer = \<lparr>fs_folders = [], fs_files = [], fs_attrResolver = None\<rparr>"

section \<open>The file system\<close>

text \<open>A directory entry: a file with what \<^verbatim>\<open>d.Info()\<close> answers, or a directory with what \<^verbatim>\<open>os.ReadDir\<close> answers.\<close>

datatype fs_node =
    FileNode string "go_error + i64"
  | DirNode string "go_error option" "fs_node list"

fun node_name :: "fs_node \<Rightarrow> string" where
  "node_name (FileNode n i) = n"
| "node_name (DirNode n e es) = n"

fun node_IsDir :: "fs_node \<Rightarrow> bool" where
  "node_IsDir (FileNode n i) = False"
| "node_IsDir (DirNode n e es) = True"

record Fs =
  os_Stat :: "string \<Rightarrow> go_error + bool" \<comment> \<open>\<open>info.IsDir()\<close>\<close>
  os_Lstat :: "string \<Rightarrow> go_error + fs_node"
  strings_ToLower :: "string \<Rightarrow> string"

section \<open>\<^verbatim>\<open>filepath.WalkDir\<close>\<close>

datatype walk_result = WalkNil | SkipDir | WalkErr go_error

type_synonym 's walk_fn = "string \<Rightarrow> fs_node option \<Rightarrow> go_error option \<Rightarrow> 's \<Rightarrow> walk_result \<times> 's"

fun skip_is_nil :: "walk_result \<Rightarrow> walk_result" where
  "skip_is_nil SkipDir = WalkNil"
| "skip_is_nil r = r"

fun walkDir :: "'s walk_fn \<Rightarrow> string \<Rightarrow> fs_node \<Rightarrow> 's \<Rightarrow> walk_result \<times> 's"
  and walkEntries :: "'s walk_fn \<Rightarrow> string \<Rightarrow> fs_node list \<Rightarrow> 's \<Rightarrow> walk_result \<times> 's" where
  "walkDir fn path (FileNode n i) s = fn path (Some (FileNode n i)) None s"
| "walkDir fn path (DirNode n e es) s =
     (case fn path (Some (DirNode n e es)) None s of
        (WalkNil, s1) \<Rightarrow>
          (case e of
             None \<Rightarrow> walkEntries fn path es s1
           | Some err \<Rightarrow>
               (case fn path (Some (DirNode n e es)) (Some err) s1 of
                  (WalkNil, s2) \<Rightarrow> walkEntries fn path es s2
                | (r, s2) \<Rightarrow> (skip_is_nil r, s2)))
      | (r, s1) \<Rightarrow> (skip_is_nil r, s1))"
| "walkEntries fn path [] s = (WalkNil, s)"
| "walkEntries fn path (d # ds) s =
     (case walkDir fn (Join path (node_name d)) d s of
        (WalkNil, s1) \<Rightarrow> walkEntries fn path ds s1
      | (SkipDir, s1) \<Rightarrow> (WalkNil, s1)
      | (WalkErr err, s1) \<Rightarrow> (WalkErr err, s1))"

definition WalkDir :: "Fs \<Rightarrow> string \<Rightarrow> 's walk_fn \<Rightarrow> 's \<Rightarrow> walk_result \<times> 's" where
  "WalkDir fsys root fn s =
     (case os_Lstat fsys root of
        Inl err \<Rightarrow> (case fn root None (Some err) s of (r, s1) \<Rightarrow> (skip_is_nil r, s1))
      | Inr d \<Rightarrow> (case walkDir fn root d s of (r, s1) \<Rightarrow> (skip_is_nil r, s1)))"

section \<open>Path conversion\<close>

definition localToSoulseek :: "string \<Rightarrow> string \<Rightarrow> string \<Rightarrow> string" where
  "localToSoulseek localPath folderPath virtualPath =
     (case Rel folderPath localPath of
        Inl err \<Rightarrow> ''''
      | Inr rel \<Rightarrow> virtualPath @ [CHR 0x5C] @ ReplaceAll (CHR ''/'') (CHR 0x5C) rel)"

definition soulseekDir :: "string \<Rightarrow> string" where
  "soulseekDir soulseekPath =
     (case before_last (CHR 0x5C) soulseekPath of None \<Rightarrow> '''' | Some dir \<Rightarrow> dir)"

section \<open>Operations\<close>

fun has_virtual :: "string \<Rightarrow> SharedFolder list \<Rightarrow> bool" where
  "has_virtual v [] = False"
| "has_virtual v (f # fs) = (sf_VirtualPath f = v \<or> has_virtual v fs)"

text \<open>
  The error and the (possibly) extended sharer. The quoting of \<^verbatim>\<open>%q\<close> in the duplicate message is rendered for
  names of printable ASCII characters.
\<close>

definition AddSharedFolder :: "Fs \<Rightarrow> string \<Rightarrow> string \<Rightarrow> FileSharer \<Rightarrow> go_error option \<times> FileSharer" where
  "AddSharedFolder fsys localPath virtualPath fs =
     (if \<not> IsAbs localPath then (Some (ErrorString ''localPath must be absolute''), fs)
      else if ContainsAny virtualPath [CHR ''/'', CHR 0x5C]
        then (Some (ErrorString ''virtualPath cannot contain slashes''), fs)
      else if virtualPath = '''' then (Some (ErrorString ''virtualPath cannot be empty''), fs)
      else case os_Stat fsys localPath of
             Inl err \<Rightarrow> (Some (WrapError ''stat path'' err), fs)
           | Inr isDir \<Rightarrow>
               if \<not> isDir then (Some (ErrorString ''localPath must be a directory''), fs)
               else if has_virtual virtualPath (fs_folders fs)
                 then (Some (ErrorString (''virtualPath '' @ [CHR 0x22] @ virtualPath @ [CHR 0x22] @ '' already registered'')), fs)
               else (None, fs\<lparr>fs_folders := fs_folders fs @
                       [\<lparr>sf_LocalPath = localPath, sf_VirtualPath = virtualPath\<rparr>]\<rparr>))"

fun remove_virtual :: "string \<Rightarrow> SharedFolder list \<Rightarrow> SharedFolder list" where
  "remove_virtual v [] = []"
| "remove_virtual v (f # fs) = (if sf_VirtualPath f = v then fs else f # remove_virtual v fs)"

definition RemoveSharedFolder :: "string \<Rightarrow> FileSharer \<Rightarrow> FileSharer" where
  "RemoveSharedFolder virtualPath fs =
     (if \<not> has_virtual virtualPath (fs_folders fs) then fs
      else let pre = virtualPath @ [CHR 0x5C]
           in fs\<lparr>fs_folders := remove_virtual virtualPath (fs_folders fs),
                 fs_files := filter (\<lambda>(path, f). \<not> (prefix pre path \<or> path = virtualPath)) (fs_files fs)\<rparr>)"

definition SetAttributeResolver :: "AttributeResolver option \<Rightarrow> FileSharer \<Rightarrow> FileSharer" where
  "SetAttributeResolver fn fs = fs\<lparr>fs_attrResolver := fn\<rparr>"

text \<open>\<^verbatim>\<open>strings.ToLower(strings.TrimPrefix(filepath.Ext(name), "."))\<close>\<close>

definition file_extension :: "Fs \<Rightarrow> string \<Rightarrow> string" where
  "file_extension fsys name =
     (let ext = Ext name in strings_ToLower fsys (if prefix ''.'' ext then drop 1 ext else ext))"

text \<open>The callback of the walk, with the index under construction as its state.\<close>

definition index_file :: "Fs \<Rightarrow> AttributeResolver option \<Rightarrow> SharedFolder \<Rightarrow> (string, SharedFile) gomap walk_fn" where
  "index_file fsys attrResolver folder path d err newFiles =
     (case err of
        Some e \<Rightarrow> (WalkErr e, newFiles)
      | None \<Rightarrow>
          (case d of
             None \<Rightarrow> (WalkNil, newFiles) \<comment> \<open>not reached: without an entry there is an error\<close>
           | Some (DirNode name e es) \<Rightarrow>
               (if prefix ''.'' name then SkipDir else WalkNil, newFiles)
           | Some (FileNode name info) \<Rightarrow>
               if prefix ''.'' name then (WalkNil, newFiles)
               else case info of
                      Inl e \<Rightarrow> (WalkErr e, newFiles)
                    | Inr sz \<Rightarrow>
                        let soulseekPath = localToSoulseek path (sf_LocalPath folder) (sf_VirtualPath folder);
                            fil = \<lparr>sh_LocalPath = path, sh_SoulseekPath = soulseekPath, sh_Size = sz,
                                   sh_Extension = file_extension fsys name,
                                   sh_Attributes = (case attrResolver of None \<Rightarrow> [] | Some f \<Rightarrow> f path)\<rparr>
                        in (WalkNil, Store soulseekPath fil newFiles)))"

fun scan_folders ::
  "Fs \<Rightarrow> AttributeResolver option \<Rightarrow> SharedFolder list \<Rightarrow> (string, SharedFile) gomap \<Rightarrow> go_error + (string, SharedFile) gomap" where
  "scan_folders fsys attrResolver [] newFiles = Inr newFiles"
| "scan_folders fsys attrResolver (folder # folders) newFiles =
     (case WalkDir fsys (sf_LocalPath folder) (index_file fsys attrResolver folder) newFiles of
        (WalkErr e, files) \<Rightarrow> Inl (WrapError (''walk '' @ sf_LocalPath folder) e)
      | (r, files) \<Rightarrow> scan_folders fsys attrResolver folders files)"

definition Rescan :: "Fs \<Rightarrow> FileSharer \<Rightarrow> go_error option \<times> FileSharer" where
  "Rescan fsys fs =
     (case scan_folders fsys (fs_attrResolver fs) (fs_folders fs) [] of
        Inl e \<Rightarrow> (Some e, fs)
      | Inr newFiles \<Rightarrow> (None, fs\<lparr>fs_files := newFiles\<rparr>))"

definition GetFile :: "string \<Rightarrow> FileSharer \<Rightarrow> SharedFile option" where
  "GetFile soulseekPath fs = Load soulseekPath (fs_files fs)"

definition GetSharedFiles :: "FileSharer \<Rightarrow> SharedFile list" where
  "GetSharedFiles fs = map snd (fs_files fs)"

definition GetStats :: "FileSharer \<Rightarrow> nat \<times> nat" where
  "GetStats fs =
     (let dirs = remdups (filter (\<lambda>d. d \<noteq> '''') (map (\<lambda>(path, f). soulseekDir path) (fs_files fs)))
      in (length dirs, length (fs_files fs)))"

definition GetFolders :: "FileSharer \<Rightarrow> SharedFolder list" where
  "GetFolders fs = fs_folders fs"

section \<open>Persistence\<close>

record persistedIndex =
  ix_Version :: int
  ix_Folders :: "SharedFolder list"
  ix_Files :: "SharedFile option list" \<comment> \<open>pointers: JSON \<open>null\<close> decodes to nil\<close>
  ix_SavedAt :: time

definition currentIndexVersion :: int where "currentIndexVersion = 1"

text \<open>
  \<^verbatim>\<open>foldersMatch\<close>: the map of the first list, where a later folder with the same virtual path wins, must give
  each folder of the second its local path; a missing key reads as the empty string.
\<close>

definition foldersMatch :: "SharedFolder list \<Rightarrow> SharedFolder list \<Rightarrow> bool" where
  "foldersMatch a b \<longleftrightarrow>
     (if length a \<noteq> length b then False
      else let aMap = fold (\<lambda>f m. Store (sf_VirtualPath f) (sf_LocalPath f) m) a []
           in list_all (\<lambda>f. (case Load (sf_VirtualPath f) aMap of None \<Rightarrow> '''' | Some p \<Rightarrow> p) = sf_LocalPath f) b)"

definition SaveIndex :: "(persistedIndex \<Rightarrow> go_error option \<times> byte list) \<Rightarrow> time \<Rightarrow> FileSharer \<Rightarrow> go_error option \<times> byte list" where
  "SaveIndex json_Encode now fs =
     json_Encode \<lparr>ix_Version = currentIndexVersion, ix_Folders = fs_folders fs,
                  ix_Files = map (Some \<circ> snd) (fs_files fs), ix_SavedAt = now\<rparr>"

text \<open>The loading loop; a nil entry is dereferenced.\<close>

fun load_files :: "SharedFile option list \<Rightarrow> (string, SharedFile) gomap \<Rightarrow> go_panic + (string, SharedFile) gomap" where
  "load_files [] m = Inr m"
| "load_files (None # fs) m = Inl NilDereference"
| "load_files (Some f # fs) m = load_files fs (Store (sh_SoulseekPath f) f m)"

definition LoadIndex ::
  "(byte list \<Rightarrow> go_error + persistedIndex) \<Rightarrow> byte list \<Rightarrow> FileSharer \<Rightarrow> go_panic + (go_error option \<times> FileSharer)" where
  "LoadIndex json_Decode r fs =
     (case json_Decode r of
        Inl err \<Rightarrow> Inr (Some (WrapError ''decode index'' err), fs)
      | Inr idx \<Rightarrow>
          if ix_Version idx \<noteq> currentIndexVersion
          then Inr (Some (ErrorString (''unsupported index version: '' @ decimal_int (ix_Version idx))), fs)
          else if \<not> foldersMatch (fs_folders fs) (ix_Folders idx)
          then Inr (Some (ErrorString ''folder configuration has changed''), fs)
          else case load_files (ix_Files idx) [] of
                 Inl panic \<Rightarrow> Inl panic
               | Inr files \<Rightarrow> Inr (None, fs\<lparr>fs_files := files\<rparr>))"

section \<open>What a scan finds\<close>

text \<open>
  The files of a tree that a scan shares: every component of the way down, the root included, has a name that
  does not start with a dot. A file is given by the names below the root and its size.
\<close>

abbreviation hidden :: "string \<Rightarrow> bool" where
  "hidden n \<equiv> prefix ''.'' n"

fun visible :: "string list \<Rightarrow> fs_node \<Rightarrow> (string list \<times> i64) list" where
  "visible ns (FileNode n i) = (if hidden n then [] else case i of Inl e \<Rightarrow> [] | Inr sz \<Rightarrow> [(ns, sz)])"
| "visible ns (DirNode n e es) =
     (if hidden n then [] else concat (map (\<lambda>d. visible (ns @ [node_name d]) d) es))"

text \<open>
  A tree a scan can read: no error in the part it looks at, and the entries of a directory have distinct ordinary
  names without a backslash.
\<close>

fun scannable :: "fs_node \<Rightarrow> bool" where
  "scannable (FileNode n i) = (hidden n \<or> (\<exists>sz. i = Inr sz))"
| "scannable (DirNode n e es) =
     (hidden n \<or> e = None \<and> distinct (map node_name es) \<and>
        (\<forall>d\<in>set es. ordinary (node_name d) \<and> CHR 0x5C \<notin> set (node_name d) \<and> scannable d))"

definition soulseek_path :: "string \<Rightarrow> string list \<Rightarrow> string" where
  "soulseek_path v ns = join_strings [CHR 0x5C] (v # ns)"

definition shared_file :: "Fs \<Rightarrow> AttributeResolver option \<Rightarrow> SharedFolder \<Rightarrow> string list \<times> i64 \<Rightarrow> SharedFile" where
  "shared_file fsys res folder x = (case x of (ns, sz) \<Rightarrow>
     let path = render_path (True, snd (clean_parts (sf_LocalPath folder)) @ ns)
     in \<lparr>sh_LocalPath = path, sh_SoulseekPath = soulseek_path (sf_VirtualPath folder) ns, sh_Size = sz,
         sh_Extension = file_extension fsys (last ns),
         sh_Attributes = (case res of None \<Rightarrow> [] | Some f \<Rightarrow> f path)\<rparr>)"

definition store_shared :: "SharedFile \<Rightarrow> (string, SharedFile) gomap \<Rightarrow> (string, SharedFile) gomap" where
  "store_shared f m = Store (sh_SoulseekPath f) f m"

lemma localToSoulseek_below:
  assumes "IsAbs base" "clean_parts path = (True, snd (clean_parts base) @ ns)" "ns \<noteq> []"
    and "\<forall>n\<in>set ns. ordinary n"
  shows "localToSoulseek path base v = soulseek_path v ns"
proof -
  have "ReplaceAll (CHR ''/'') (CHR 0x5C) (join_strings ''/'' ns) = join_strings [CHR 0x5C] ns"
    using assms(4) by (intro ReplaceAll_join) (simp add: ordinary_def)
  then show ?thesis
    using Rel_below [OF assms(1-3)] assms(3)
    by (simp add: localToSoulseek_def soulseek_path_def join_Cons)
qed

text \<open>The walk adds exactly the visible files, in order.\<close>

lemma index_file_dir [simp]:
  "index_file fsys res folder path (Some (DirNode n e es)) None m = (if hidden n then SkipDir else WalkNil, m)"
  by (simp add: index_file_def)

lemma index_file_node:
  assumes "IsAbs (sf_LocalPath folder)" "ns \<noteq> []" "\<forall>n\<in>set ns. ordinary n" "last ns = n"
  shows "index_file fsys res folder (render_path (True, snd (clean_parts (sf_LocalPath folder)) @ ns))
           (Some (FileNode n (Inr sz))) None m =
         (WalkNil, if hidden n then m else store_shared (shared_file fsys res folder (ns, sz)) m)"
proof -
  let ?path = "render_path (True, snd (clean_parts (sf_LocalPath folder)) @ ns)"
  have "clean_parts ?path = (True, snd (clean_parts (sf_LocalPath folder)) @ ns)"
    using clean_parts_ordinary [OF assms(1)] assms(3) by (intro clean_parts_render) auto
  then have "localToSoulseek ?path (sf_LocalPath folder) (sf_VirtualPath folder) = soulseek_path (sf_VirtualPath folder) ns"
    using assms by (intro localToSoulseek_below) auto
  then show ?thesis using assms(4)
    by (simp add: index_file_def store_shared_def shared_file_def Let_def)
qed

lemma walk_visible:
  assumes "IsAbs (sf_LocalPath folder)"
  shows "scannable d \<Longrightarrow> IsAbs path \<Longrightarrow> clean_parts path = (True, snd (clean_parts (sf_LocalPath folder)) @ ns) \<Longrightarrow>
      (\<not> node_IsDir d \<longrightarrow> ns \<noteq> [] \<and> last ns = node_name d \<and>
         path = render_path (True, snd (clean_parts (sf_LocalPath folder)) @ ns)) \<Longrightarrow>
      \<forall>n\<in>set ns. ordinary n \<Longrightarrow>
      walkDir (index_file fsys res folder) path d m =
        (WalkNil, fold (store_shared \<circ> shared_file fsys res folder) (visible ns d) m)"
    and "\<forall>d\<in>set ds. ordinary (node_name d) \<and> scannable d \<Longrightarrow> IsAbs path \<Longrightarrow>
      clean_parts path = (True, snd (clean_parts (sf_LocalPath folder)) @ ns) \<Longrightarrow>
      \<forall>n\<in>set ns. ordinary n \<Longrightarrow>
      walkEntries (index_file fsys res folder) path ds m =
        (WalkNil, fold (store_shared \<circ> shared_file fsys res folder)
           (concat (map (\<lambda>d. visible (ns @ [node_name d]) d) ds)) m)"
proof (induction "index_file fsys res folder" path d m and "index_file fsys res folder" path ds m
    arbitrary: ns and ns rule: walkDir_walkEntries.induct)
  case (1 path n i m)
  then show ?case
    by (auto simp: index_file_node [OF assms]) (auto simp: index_file_def)
next
  case (2 path n e es m)
  then show ?case by (cases "hidden n") simp_all
next
  case (3 path m)
  then show ?case by simp
next
  case (4 path d ds m)
  have "ordinary (node_name d)" using 4 by simp
  from Join_absolute [OF \<open>IsAbs path\<close> this] 4 show ?case by simp
qed

section \<open>Soulseek paths are unambiguous\<close>

lemma visible_prefix: "(ns', sz) \<in> set (visible ns d) \<Longrightarrow> \<exists>ms. ns' = ns @ ms"
  by (induction ns d arbitrary: ns' rule: visible.induct) (fastforce split: if_splits sum.splits)+

lemma visible_names:
  "scannable d \<Longrightarrow> (ns', sz) \<in> set (visible ns d) \<Longrightarrow> n \<in> set ns' \<Longrightarrow>
     n \<in> set ns \<or> ordinary n \<and> CHR 0x5C \<notin> set n"
  by (induction ns d arbitrary: ns' rule: visible.induct) (fastforce split: if_splits sum.splits)+

lemma visible_distinct: "scannable d \<Longrightarrow> distinct (map fst (visible ns d))"
proof (induction ns d rule: visible.induct)
  case (2 ns n e es)
  show ?case
  proof (cases "hidden n")
    case False
    then have es: "distinct (map node_name es)" "\<forall>d\<in>set es. scannable d" using 2 by auto
    have IH: "distinct (map fst (visible (ns @ [node_name d]) d))" if "d \<in> set es" for d
      using 2 that False es(2) by auto
    have "distinct (map fst (concat (map (\<lambda>d. visible (ns @ [node_name d]) d) ds)))" if "set ds \<subseteq> set es" "distinct (map node_name ds)" for ds
      using that
    proof (induction ds)
      case (Cons d ds)
      have "fst x \<noteq> fst y" if "x \<in> set (visible (ns @ [node_name d]) d)" "d' \<in> set ds"
        "y \<in> set (visible (ns @ [node_name d']) d')" for x y d'
        using visible_prefix [of "fst x" "snd x" "ns @ [node_name d]" d]
          visible_prefix [of "fst y" "snd y" "ns @ [node_name d']" d'] that Cons.prems(2) by (auto dest: notin_imageD)
      with Cons IH [of d] show ?case by fastforce
    qed simp
    with es(1) False show ?thesis by simp
  qed simp
qed (auto split: sum.splits)

text \<open>The configuration \<^verbatim>\<open>AddSharedFolder\<close> maintains.\<close>

definition folders_ok :: "SharedFolder list \<Rightarrow> bool" where
  "folders_ok fs \<longleftrightarrow> distinct (map sf_VirtualPath fs) \<and>
     (\<forall>f\<in>set fs. IsAbs (sf_LocalPath f) \<and> sf_VirtualPath f \<noteq> '''' \<and>
        CHR ''/'' \<notin> set (sf_VirtualPath f) \<and> CHR 0x5C \<notin> set (sf_VirtualPath f))"

text \<open>What is below each folder on disk, when every folder can be scanned.\<close>

definition scannable_folder :: "Fs \<Rightarrow> SharedFolder \<Rightarrow> bool" where
  "scannable_folder fsys f \<longleftrightarrow>
     (case os_Lstat fsys (sf_LocalPath f) of Inl e \<Rightarrow> False | Inr d \<Rightarrow> node_IsDir d \<and> scannable d)"

definition folder_files :: "Fs \<Rightarrow> AttributeResolver option \<Rightarrow> SharedFolder \<Rightarrow> SharedFile list" where
  "folder_files fsys res f =
     (case os_Lstat fsys (sf_LocalPath f) of Inl e \<Rightarrow> [] | Inr d \<Rightarrow> map (shared_file fsys res f) (visible [] d))"

lemma WalkDir_folder:
  assumes "IsAbs (sf_LocalPath f)" "scannable_folder fsys f"
  shows "WalkDir fsys (sf_LocalPath f) (index_file fsys res f) m =
           (WalkNil, fold store_shared (folder_files fsys res f) m)"
proof -
  obtain d where d: "os_Lstat fsys (sf_LocalPath f) = Inr d" "node_IsDir d" "scannable d"
    using assms(2) by (auto simp: scannable_folder_def split: sum.splits)
  have "clean_parts (sf_LocalPath f) = (True, snd (clean_parts (sf_LocalPath f)) @ [])"
    using assms(1) by (simp add: clean_parts_def)
  from walk_visible(1) [OF assms(1) d(3) assms(1) this, of fsys res m] d show ?thesis
    by (simp add: WalkDir_def folder_files_def fold_map)
qed

lemma scan_folders_ok:
  "folders_ok fs \<Longrightarrow> \<forall>f\<in>set fs. scannable_folder fsys f \<Longrightarrow>
     scan_folders fsys res fs m = Inr (fold store_shared (concat (map (folder_files fsys res) fs)) m)"
  by (induction fs arbitrary: m) (auto simp: folders_ok_def WalkDir_folder)

lemma shared_file_inj:
  assumes "folders_ok fs" "f \<in> set fs" "g \<in> set fs"
    and "\<forall>n\<in>set ns. CHR 0x5C \<notin> set n" "\<forall>n\<in>set ms. CHR 0x5C \<notin> set n"
    and "soulseek_path (sf_VirtualPath f) ns = soulseek_path (sf_VirtualPath g) ms"
  shows "f = g \<and> ns = ms"
proof -
  have "sf_VirtualPath f # ns = sf_VirtualPath g # ms"
    using assms by (intro join_inj [where c = "CHR 0x5C"]) (auto simp: folders_ok_def soulseek_path_def)
  with assms(1-3) show ?thesis by (auto simp: folders_ok_def distinct_map inj_on_def)
qed

lemma sh_SoulseekPath_shared [simp]:
  "sh_SoulseekPath (shared_file fsys res f x) = soulseek_path (sf_VirtualPath f) (fst x)"
  by (simp add: shared_file_def split_beta Let_def)

lemma scanned_path_no_backslash:
  "scannable d \<Longrightarrow> x \<in> set (visible [] d) \<Longrightarrow> \<forall>n\<in>set (fst x). CHR 0x5C \<notin> set n"
  using visible_names [of d "fst x" "snd x" "[]"] by auto

lemma folder_files_distinct:
  assumes "folders_ok fs" "\<forall>f\<in>set fs. scannable_folder fsys f"
  shows "distinct (map sh_SoulseekPath (concat (map (folder_files fsys res) fs)))"
proof -
  have files: "\<exists>d x. os_Lstat fsys (sf_LocalPath f) = Inr d \<and> scannable d \<and> x \<in> set (visible [] d) \<and> y = shared_file fsys res f x"
    if "f \<in> set fs" "y \<in> set (folder_files fsys res f)" for f y
    using assms(2) that
    by (cases "os_Lstat fsys (sf_LocalPath f)") (auto simp: scannable_folder_def folder_files_def)
  have one: "distinct (map sh_SoulseekPath (folder_files fsys res f))" if f: "f \<in> set fs" for f
  proof (cases "os_Lstat fsys (sf_LocalPath f)")
    case (Inr d)
    then have d: "scannable d" using assms(2) f by (auto simp: scannable_folder_def)
    have "inj_on (\<lambda>x. soulseek_path (sf_VirtualPath f) (fst x)) (set (visible [] d))"
      using shared_file_inj [OF assms(1) f f] scanned_path_no_backslash [OF d] visible_distinct [OF d, of "[]"]
      by (auto simp: inj_on_def distinct_map)
    then show ?thesis using visible_distinct [OF d, of "[]"] Inr
      by (simp add: folder_files_def distinct_map comp_def comp_inj_on_iff [symmetric])
  qed (simp add: folder_files_def)
  have two: "sh_SoulseekPath x \<noteq> sh_SoulseekPath y"
    if "f \<in> set fs" "g \<in> set fs" "f \<noteq> g" "x \<in> set (folder_files fsys res f)" "y \<in> set (folder_files fsys res g)" for f g x y
    using files [OF that(1,4)] files [OF that(2,5)] shared_file_inj [OF assms(1) that(1,2)] that(3)
      scanned_path_no_backslash by fastforce
  have "distinct (map sh_SoulseekPath (concat (map (folder_files fsys res) gs)))" if "set gs \<subseteq> set fs" "distinct gs" for gs
    using that
  proof (induction gs)
    case (Cons g gs)
    have "sh_SoulseekPath x \<noteq> sh_SoulseekPath y"
      if "x \<in> set (folder_files fsys res g)" "f \<in> set gs" "y \<in> set (folder_files fsys res f)" for x y f
      using two [of g f x y] Cons.prems that by auto
    with Cons one [of g] show ?case by fastforce
  qed simp
  moreover have "distinct fs" using assms(1) by (auto simp: folders_ok_def distinct_map)
  ultimately show ?thesis by blast
qed

text \<open>Storing values under distinct keys keeps every one of them, and nothing else.\<close>

lemma fold_store_shared:
  "distinct (map sh_SoulseekPath xs) \<Longrightarrow> \<forall>x\<in>set xs. Load (sh_SoulseekPath x) m = None \<Longrightarrow>
     fold store_shared xs m = m @ map (\<lambda>x. (sh_SoulseekPath x, x)) xs"
proof (induction xs arbitrary: m)
  case (Cons x xs)
  have "Store k v m = m @ [(k, v)]" if "Load k m = None" for k v and m :: "(string, SharedFile) gomap"
    using that by (induction m) (auto split: if_splits)
  then have "store_shared x m = m @ [(sh_SoulseekPath x, x)]"
    using Cons.prems(2) by (simp add: store_shared_def)
  moreover have "\<forall>y\<in>set xs. Load (sh_SoulseekPath y) (m @ [(sh_SoulseekPath x, x)]) = None"
    using Cons.prems by (auto simp: map_add_def dest: notin_imageD)
  ultimately show ?case using Cons by simp
qed simp


section \<open>The interface the upload side uses\<close>

text \<open>
  The upload request handler looks files up by the path a peer asks for. It relies on these laws: the answer carries
  the asked path, a removed folder's files are gone and no others, and configuring folders does not touch the index
  otherwise.
\<close>

locale file_index =
  fixes ok :: "'i \<Rightarrow> bool"
    and lookup :: "string \<Rightarrow> 'i \<Rightarrow> SharedFile option"
    and remove_folder :: "string \<Rightarrow> 'i \<Rightarrow> 'i"
    and folders :: "'i \<Rightarrow> string set"
  assumes lookup_path: "ok i \<Longrightarrow> lookup p i = Some f \<Longrightarrow> sh_SoulseekPath f = p"
    and ok_remove: "ok i \<Longrightarrow> ok (remove_folder v i)"
    and lookup_remove: "ok i \<Longrightarrow> v \<in> folders i \<Longrightarrow>
          lookup p (remove_folder v i) = (if prefix (v @ [CHR 0x5C]) p \<or> p = v then None else lookup p i)"
    and folders_remove: "ok i \<Longrightarrow> folders (remove_folder v i) = folders i - {v}"
    and remove_absent: "ok i \<Longrightarrow> v \<notin> folders i \<Longrightarrow> remove_folder v i = i"
begin

lemma removed_not_found:
  "ok i \<Longrightarrow> v \<in> folders i \<Longrightarrow> lookup (soulseek_path v ns) (remove_folder v i) = None"
  by (cases ns) (auto simp: lookup_remove soulseek_path_def)

lemma others_kept:
  assumes "ok i" "CHR 0x5C \<notin> set v" "CHR 0x5C \<notin> set w" "v \<noteq> w" "ns \<noteq> []"
  shows "lookup (soulseek_path w ns) (remove_folder v i) = lookup (soulseek_path w ns) i"
proof -
  have *: "\<not> prefix (v @ [CHR 0x5C]) (soulseek_path w ns)" "soulseek_path w ns \<noteq> v"
  proof -
    have p: "soulseek_path w ns = w @ CHR 0x5C # join_strings [CHR 0x5C] ns"
      using assms(5) by (simp add: soulseek_path_def join_Cons)
    show "soulseek_path w ns \<noteq> v" using assms(2) p by auto
    show "\<not> prefix (v @ [CHR 0x5C]) (soulseek_path w ns)"
      using assms(2-4) append_sep_inj [of "CHR 0x5C" w v] p by (auto simp: prefix_def)
  qed
  then show ?thesis using assms(1) by (cases "v \<in> folders i") (simp_all add: lookup_remove remove_absent)
qed

lemma remove_idem: "ok i \<Longrightarrow> remove_folder v (remove_folder v i) = remove_folder v i"
  by (intro remove_absent) (simp_all add: folders_remove ok_remove)

end

definition sharer_ok :: "FileSharer \<Rightarrow> bool" where
  "sharer_ok fs \<longleftrightarrow> folders_ok (fs_folders fs) \<and> map_ok (fs_files fs) \<and>
     (\<forall>(p, f)\<in>set (fs_files fs). sh_SoulseekPath f = p)"

definition virtual_paths :: "FileSharer \<Rightarrow> string set" where
  "virtual_paths fs = sf_VirtualPath ` set (fs_folders fs)"

lemma has_virtual_iff: "has_virtual v fs \<longleftrightarrow> v \<in> sf_VirtualPath ` set fs"
  by (induction fs) auto

lemma remove_virtual_filter:
  "distinct (map sf_VirtualPath fs) \<Longrightarrow> remove_virtual v fs = filter (\<lambda>f. sf_VirtualPath f \<noteq> v) fs"
proof (induction fs)
  case (Cons f fs)
  have "sf_VirtualPath f = v \<Longrightarrow> filter (\<lambda>f. sf_VirtualPath f \<noteq> v) fs = fs"
    using Cons.prems by (auto simp: filter_id_conv dest: notin_imageD)
  with Cons show ?case by simp
qed simp

lemma folders_ok_filter: "folders_ok fs \<Longrightarrow> folders_ok (filter P fs)"
  by (simp add: folders_ok_def distinct_map_filter)

lemma sharer_ok_remove: "sharer_ok fs \<Longrightarrow> sharer_ok (RemoveSharedFolder v fs)"
  by (auto simp: sharer_ok_def RemoveSharedFolder_def Let_def remove_virtual_filter folders_ok_filter
      map_ok_filter folders_ok_def [of "fs_folders fs"])

interpretation fsi: file_index sharer_ok GetFile RemoveSharedFolder virtual_paths
proof
  fix fs v p f
  assume ok: "sharer_ok fs"
  show "sharer_ok (RemoveSharedFolder v fs)" using ok by (rule sharer_ok_remove)
  show "sh_SoulseekPath f = p" if "GetFile p fs = Some f"
    using ok that by (auto simp: GetFile_def sharer_ok_def dest: map_of_SomeD)
  show "GetFile p (RemoveSharedFolder v fs) = (if prefix (v @ [CHR 0x5C]) p \<or> p = v then None else GetFile p fs)"
    if "v \<in> virtual_paths fs"
    using ok that
    by (auto simp: GetFile_def RemoveSharedFolder_def has_virtual_iff virtual_paths_def Let_def sharer_ok_def
        Load_filter split: option.splits)
  show "virtual_paths (RemoveSharedFolder v fs) = virtual_paths fs - {v}"
    using ok
    by (auto simp: virtual_paths_def RemoveSharedFolder_def has_virtual_iff Let_def sharer_ok_def folders_ok_def
        remove_virtual_filter)
  show "RemoveSharedFolder v fs = fs" if "v \<notin> virtual_paths fs"
    using that by (simp add: RemoveSharedFolder_def has_virtual_iff virtual_paths_def)
qed

section \<open>Properties\<close>

text \<open>
  C34: A rescan indexes exactly the visible files. Where all that is not hidden below the shared folders can be read and no name there
  contains a backslash (\<open>scannable\<close>), it returns no error, keeps the folders, and afterwards a path is found if and only if it is the virtual path of a shared folder followed by the names on
  the way to a file, none of them (nor the folder's own directory name) starting with a dot; the entry found has the
  file's absolute path, size, extension and attributes. No two files share a path, so the file count reported to the
  server is the number of visible files. (With backslashes in names two files can share a path: \<open>backslash_names_collide\<close>.)
\<close>

theorem Rescan_indexes_visible_files:
  assumes "folders_ok (fs_folders fs)" "\<forall>f\<in>set (fs_folders fs). scannable_folder fsys f"
  shows "\<exists>fs'. Rescan fsys fs = (None, fs') \<and> sharer_ok fs' \<and> fs_folders fs' = fs_folders fs
     \<and> (\<forall>p file. GetFile p fs' = Some file \<longleftrightarrow>
          (\<exists>f\<in>set (fs_folders fs). file \<in> set (folder_files fsys (fs_attrResolver fs) f) \<and> sh_SoulseekPath file = p))
     \<and> snd (GetStats fs') = sum_list (map (\<lambda>f. length (folder_files fsys (fs_attrResolver fs) f)) (fs_folders fs))"
proof -
  let ?files = "concat (map (folder_files fsys (fs_attrResolver fs)) (fs_folders fs))"
  let ?m = "map (\<lambda>x. (sh_SoulseekPath x, x)) ?files"
  have dist: "distinct (map sh_SoulseekPath ?files)" by (rule folder_files_distinct [OF assms])
  then have "fold store_shared ?files [] = ?m" by (simp add: fold_store_shared)
  then have scan: "Rescan fsys fs = (None, fs\<lparr>fs_files := ?m\<rparr>)"
    using scan_folders_ok [OF assms] by (simp add: Rescan_def)
  have ok: "map_ok ?m" using dist by (simp add: map_ok_def comp_def)
  have "GetFile p (fs\<lparr>fs_files := ?m\<rparr>) = Some x \<longleftrightarrow> x \<in> set ?files \<and> sh_SoulseekPath x = p" for p x
    unfolding GetFile_def using Load_iff [OF ok, of p x] by auto
  moreover have "snd (GetStats (fs\<lparr>fs_files := ?m\<rparr>)) = length ?files" by (simp add: GetStats_def Let_def)
  moreover have "sharer_ok (fs\<lparr>fs_files := ?m\<rparr>)" using ok assms(1) by (auto simp: sharer_ok_def)
  ultimately show ?thesis using scan by (auto simp: length_concat comp_def)
qed


definition ascii_lower :: "string \<Rightarrow> string" where
  "ascii_lower s = map (\<lambda>c. if 65 \<le> (of_char c :: nat) \<and> (of_char c :: nat) \<le> 90 then char_of ((of_char c :: nat) + 32) else c) s"

definition demo_fs :: Fs where
  "demo_fs = \<lparr>os_Stat = (\<lambda>p. Inr True),
     os_Lstat = (\<lambda>p. Inr (DirNode ''music'' None
       [DirNode ''.git'' (Some (OSError ''permission denied'')) [], FileNode ''a.MP3'' (Inr 10),
        DirNode ''live'' None [FileNode ''.hidden'' (Inl (OSError ''gone'')), FileNode ''b.flac'' (Inr 20)]])),
     strings_ToLower = ascii_lower\<rparr>"

definition demo_sharer :: FileSharer where
  "demo_sharer = snd (AddSharedFolder demo_fs ''/srv/music/'' ''Music'' NewFileSharer)"

lemma demo_folders: "fs_folders demo_sharer = [\<lparr>sf_LocalPath = ''/srv/music/'', sf_VirtualPath = ''Music''\<rparr>]"
  by (simp add: demo_sharer_def demo_fs_def AddSharedFolder_def NewFileSharer_def IsAbs_def ContainsAny_def)

lemma demo_scannable: "\<forall>f\<in>set (fs_folders demo_sharer). scannable_folder demo_fs f"
  by (simp add: demo_folders scannable_folder_def demo_fs_def ordinary_def)

lemma demo_folders_ok: "folders_ok (fs_folders demo_sharer)"
  by (simp add: demo_folders folders_ok_def IsAbs_def)

lemma demo_files: "folder_files demo_fs None \<lparr>sf_LocalPath = ''/srv/music/'', sf_VirtualPath = ''Music''\<rparr> =
    [\<lparr>sh_LocalPath = ''/srv/music/a.MP3'', sh_SoulseekPath = soulseek_path ''Music'' [''a.MP3''], sh_Size = 10,
      sh_Extension = ''mp3'', sh_Attributes = []\<rparr>,
     \<lparr>sh_LocalPath = ''/srv/music/live/b.flac'', sh_SoulseekPath = soulseek_path ''Music'' [''live'', ''b.flac''], sh_Size = 20,
      sh_Extension = ''flac'', sh_Attributes = []\<rparr>]"
  by code_simp

theorem Rescan_indexes_visible_files_witness:
  "\<exists>fs'. Rescan demo_fs demo_sharer = (None, fs') \<and> snd (GetStats fs') = 2
     \<and> map_option sh_Extension (GetFile (soulseek_path ''Music'' [''a.MP3'']) fs') = Some ''mp3''
     \<and> GetFile (soulseek_path ''Music'' [''live'', ''.hidden'']) fs' = None"
proof -
  have res: "fs_attrResolver demo_sharer = None"
    by (simp add: demo_sharer_def demo_fs_def AddSharedFolder_def NewFileSharer_def IsAbs_def ContainsAny_def)
  from Rescan_indexes_visible_files [OF demo_folders_ok demo_scannable, unfolded demo_folders res]
  obtain fs' where fs': "Rescan demo_fs demo_sharer = (None, fs')" "snd (GetStats fs') = 2"
    "\<forall>p file. GetFile p fs' = Some file \<longleftrightarrow>
       file \<in> set (folder_files demo_fs None \<lparr>sf_LocalPath = ''/srv/music/'', sf_VirtualPath = ''Music''\<rparr>)
       \<and> sh_SoulseekPath file = p"
    by (auto simp: demo_files)
  have "GetFile (soulseek_path ''Music'' [''a.MP3'']) fs' =
      Some \<lparr>sh_LocalPath = ''/srv/music/a.MP3'', sh_SoulseekPath = soulseek_path ''Music'' [''a.MP3''], sh_Size = 10,
        sh_Extension = ''mp3'', sh_Attributes = []\<rparr>"
    using fs'(3) by (simp add: demo_files)
  moreover have "GetFile (soulseek_path ''Music'' [''live'', ''.hidden'']) fs' = None"
  proof (rule ccontr)
    assume "GetFile (soulseek_path ''Music'' [''live'', ''.hidden'']) fs' \<noteq> None"
    then obtain x where "GetFile (soulseek_path ''Music'' [''live'', ''.hidden'']) fs' = Some x" by blast
    with fs'(3) have "x \<in> set (folder_files demo_fs None \<lparr>sf_LocalPath = ''/srv/music/'', sf_VirtualPath = ''Music''\<rparr>)"
      "sh_SoulseekPath x = soulseek_path ''Music'' [''live'', ''.hidden'']" by blast+
    then show False by (auto simp: demo_files soulseek_path_def)
  qed
  ultimately show ?thesis using fs'(1,2) by auto
qed


text \<open>The file \<^verbatim>\<open>a\b\<close> and the file \<^verbatim>\<open>b\<close> in the directory \<^verbatim>\<open>a\<close> have the same path on the network: one of them is lost.\<close>

lemma backslash_names_collide:
  "let fsys = demo_fs\<lparr>os_Lstat := (\<lambda>p. Inr (DirNode ''music'' None
       [FileNode (''a'' @ CHR 0x5C # ''b'') (Inr 10), DirNode ''a'' None [FileNode ''b'' (Inr 20)]]))\<rparr>
   in length (folder_files fsys None \<lparr>sf_LocalPath = ''/srv/music/'', sf_VirtualPath = ''Music''\<rparr>) = 2 \<and>
      snd (GetStats (snd (Rescan fsys demo_sharer))) = 1"
  by code_simp

lemma AddSharedFolder_cases:
  "AddSharedFolder fsys l v fs = (e, fs') \<Longrightarrow>
     (e \<noteq> None \<and> fs' = fs) \<or>
     (e = None \<and> IsAbs l \<and> v \<noteq> '''' \<and> \<not> ContainsAny v [CHR ''/'', CHR 0x5C] \<and> v \<notin> virtual_paths fs \<and>
        os_Stat fsys l = Inr True \<and>
        fs' = fs\<lparr>fs_folders := fs_folders fs @ [\<lparr>sf_LocalPath = l, sf_VirtualPath = v\<rparr>]\<rparr>)"
  by (auto simp: AddSharedFolder_def has_virtual_iff virtual_paths_def split: if_splits sum.splits)

text \<open>
  Folder configuration. Whatever sequence of additions and removals is made, every shared folder has an absolute
  local path and its own non-empty virtual name without slashes (so peers' paths stay unambiguous); an addition
  that fails changes nothing; one that succeeds adds a directory that exists and whose name was free. Removing a folder
  makes all its files unavailable at once and leaves the files of every other folder available.
\<close>

theorem folder_configuration:
  assumes "sharer_ok fs"
  shows "sharer_ok (snd (AddSharedFolder fsys l v fs)) \<and> sharer_ok (RemoveSharedFolder v fs)
       \<and> (case AddSharedFolder fsys l v fs of
            (Some e, fs') \<Rightarrow> fs' = fs
          | (None, fs') \<Rightarrow> os_Stat fsys l = Inr True \<and> v \<notin> virtual_paths fs \<and>
                           virtual_paths fs' = insert v (virtual_paths fs) \<and> fs_files fs' = fs_files fs)
       \<and> (v \<in> virtual_paths fs \<longrightarrow> GetFile (soulseek_path v ns) (RemoveSharedFolder v fs) = None)
       \<and> (v \<in> virtual_paths fs \<longrightarrow> w \<in> virtual_paths fs \<longrightarrow> v \<noteq> w \<longrightarrow> ns \<noteq> [] \<longrightarrow>
            GetFile (soulseek_path w ns) (RemoveSharedFolder v fs) = GetFile (soulseek_path w ns) fs)"
proof (intro conjI impI)
  obtain e fs' where add: "AddSharedFolder fsys l v fs = (e, fs')" by fastforce
  note cases = AddSharedFolder_cases [OF add]
  have "sharer_ok fs'"
    using assms cases by (elim disjE conjE) (simp, force simp: sharer_ok_def folders_ok_def ContainsAny_def virtual_paths_def)
  then show "sharer_ok (snd (AddSharedFolder fsys l v fs))" by (simp add: add)
  show "sharer_ok (RemoveSharedFolder v fs)" using assms by (rule sharer_ok_remove)
  show "case AddSharedFolder fsys l v fs of
            (Some e, fs') \<Rightarrow> fs' = fs
          | (None, fs') \<Rightarrow> os_Stat fsys l = Inr True \<and> v \<notin> virtual_paths fs \<and>
                           virtual_paths fs' = insert v (virtual_paths fs) \<and> fs_files fs' = fs_files fs"
    using cases add by (cases e) (auto simp: virtual_paths_def)
  show "GetFile (soulseek_path v ns) (RemoveSharedFolder v fs) = None" if "v \<in> virtual_paths fs"
    using assms that by (rule fsi.removed_not_found)
  show "GetFile (soulseek_path w ns) (RemoveSharedFolder v fs) = GetFile (soulseek_path w ns) fs"
    if "v \<in> virtual_paths fs" "w \<in> virtual_paths fs" "v \<noteq> w" "ns \<noteq> []"
    using assms that by (intro fsi.others_kept) (auto simp: sharer_ok_def folders_ok_def virtual_paths_def)
qed

theorem folder_configuration_witness:
  "sharer_ok NewFileSharer \<and> sharer_ok (snd (AddSharedFolder demo_fs ''/srv/music/'' ''Music'' NewFileSharer))
   \<and> virtual_paths (snd (AddSharedFolder demo_fs ''/srv/music/'' ''Music'' NewFileSharer)) = {''Music''}"
proof -
  have "sharer_ok NewFileSharer" by (simp add: sharer_ok_def NewFileSharer_def folders_ok_def)
  moreover from folder_configuration [OF this, of demo_fs "''/srv/music/''" "''Music''"]
  have "sharer_ok (snd (AddSharedFolder demo_fs ''/srv/music/'' ''Music'' NewFileSharer))" by blast
  moreover have "virtual_paths (snd (AddSharedFolder demo_fs ''/srv/music/'' ''Music'' NewFileSharer)) = {''Music''}"
    using demo_folders by (simp add: virtual_paths_def demo_sharer_def)
  ultimately show ?thesis by blast
qed

text \<open>On configurations without duplicate names \<^verbatim>\<open>foldersMatch\<close> compares the sets of folders.\<close>

lemma fold_folder_map:
  "distinct (map sf_VirtualPath a) \<Longrightarrow>
     Load v (fold (\<lambda>f m. Store (sf_VirtualPath f) (sf_LocalPath f) m) a m) =
       (case map_of (map (\<lambda>f. (sf_VirtualPath f, sf_LocalPath f)) a) v of Some p \<Rightarrow> Some p | None \<Rightarrow> Load v m)"
proof (induction a arbitrary: m)
  case (Cons f a)
  have "map_of (map (\<lambda>f. (sf_VirtualPath f, sf_LocalPath f)) a) (sf_VirtualPath f) = None"
    using Cons.prems by (auto simp: map_of_eq_None_iff)
  with Cons show ?case by (auto split: option.splits)
qed simp

lemma foldersMatch_iff:
  assumes "folders_ok a" "folders_ok b"
  shows "foldersMatch a b \<longleftrightarrow> set a = set b"
proof -
  have da: "distinct (map sf_VirtualPath a)" and a: "distinct a" and b: "distinct b"
    using assms by (auto simp: folders_ok_def distinct_map)
  have "(case Load (sf_VirtualPath f) (fold (\<lambda>f m. Store (sf_VirtualPath f) (sf_LocalPath f) m) a []) of
           None \<Rightarrow> '''' | Some p \<Rightarrow> p) = sf_LocalPath f \<longleftrightarrow> f \<in> set a" if "f \<in> set b" for f
  proof -
    have ne: "sf_LocalPath f \<noteq> ''''" using assms(2) that by (auto simp: folders_ok_def IsAbs_def)
    have dist: "distinct (map fst (map (\<lambda>f. (sf_VirtualPath f, sf_LocalPath f)) a))" using da by (simp add: comp_def)
    have "(sf_VirtualPath f, sf_LocalPath f) \<in> (\<lambda>f. (sf_VirtualPath f, sf_LocalPath f)) ` set a \<longleftrightarrow> f \<in> set a"
      by (auto simp: image_iff) (metis (full_types) SharedFolder.equality old.unit.exhaust)
    then have "map_of (map (\<lambda>f. (sf_VirtualPath f, sf_LocalPath f)) a) (sf_VirtualPath f) = Some (sf_LocalPath f) \<longleftrightarrow> f \<in> set a"
      using map_of_eq_Some_iff [OF dist, of "sf_VirtualPath f" "sf_LocalPath f"] by simp
    then show ?thesis using ne by (auto simp: fold_folder_map [OF da] split: option.splits)
  qed
  then have "foldersMatch a b \<longleftrightarrow> length a = length b \<and> set b \<subseteq> set a"
    by (auto simp: foldersMatch_def list_all_iff Let_def)
  also have "\<dots> \<longleftrightarrow> set a = set b"
    by (metis a b card_subset_eq distinct_card finite_set order_refl)
  finally show ?thesis .
qed

lemma load_files_some: "load_files (map Some xs) m = Inr (fold store_shared xs m)"
  by (induction xs arbitrary: m) (simp_all add: store_shared_def)

text \<open>
  C35: A saved index can be loaded back. If saving succeeds and the JSON library decodes what it encoded, then loading the saved index into
  a sharer with the same folders (in any order) succeeds and restores every lookup; loading it under any other
  folder configuration is refused with an error and leaves the sharer as it was.
\<close>

theorem index_roundtrip:
  assumes json: "SaveIndex json_Encode now fs = (None, saved)" "json_Decode saved =
      Inr \<lparr>ix_Version = 1, ix_Folders = fs_folders fs, ix_Files = map (Some \<circ> snd) (fs_files fs), ix_SavedAt = now\<rparr>"
    and sharers: "sharer_ok fs" "sharer_ok gs"
  shows "(set (fs_folders gs) = set (fs_folders fs) \<longrightarrow>
            (\<exists>gs'. LoadIndex json_Decode saved gs = Inr (None, gs') \<and>
               sharer_ok gs' \<and> fs_folders gs' = fs_folders gs \<and> (\<forall>p. GetFile p gs' = GetFile p fs)))
       \<and> (set (fs_folders gs) \<noteq> set (fs_folders fs) \<longrightarrow>
            (\<exists>e. LoadIndex json_Decode saved gs = Inr (Some e, gs)))"
proof -
  have match: "foldersMatch (fs_folders gs) (fs_folders fs) \<longleftrightarrow> set (fs_folders gs) = set (fs_folders fs)"
    using sharers by (intro foldersMatch_iff) (simp_all add: sharer_ok_def)
  let ?files = "map snd (fs_files fs)"
  have keys: "map (\<lambda>x. (sh_SoulseekPath x, x)) ?files = fs_files fs"
    using sharers(1) by (auto simp: sharer_ok_def intro!: map_idI)
  have "map sh_SoulseekPath ?files = map fst (fs_files fs)"
    using sharers(1) by (auto simp: sharer_ok_def)
  moreover have "distinct (map fst (fs_files fs))" using sharers(1) by (simp add: sharer_ok_def map_ok_def)
  ultimately have "distinct (map sh_SoulseekPath ?files)" by argo
  from fold_store_shared [OF this, of "[]"] have "fold store_shared ?files [] = fs_files fs"
    unfolding keys by simp
  then have load: "load_files (map (Some \<circ> snd) (fs_files fs)) [] = Inr (fs_files fs)"
    using load_files_some [of ?files "[]"] by simp
  have "LoadIndex json_Decode saved gs =
      Inr (if set (fs_folders gs) = set (fs_folders fs) then (None, gs\<lparr>fs_files := fs_files fs\<rparr>)
           else (Some (ErrorString ''folder configuration has changed''), gs))"
    by (simp add: LoadIndex_def json currentIndexVersion_def match load)
  moreover have "sharer_ok (gs\<lparr>fs_files := fs_files fs\<rparr>)" using sharers by (simp add: sharer_ok_def)
  ultimately show ?thesis by (auto simp: GetFile_def)
qed

theorem index_roundtrip_witness:
  "\<exists>enc dec saved. \<exists>gs'. SaveIndex enc 7 demo_sharer = (None, saved) \<and> LoadIndex dec saved demo_sharer = Inr (None, gs')
     \<and> (\<forall>p. GetFile p gs' = GetFile p demo_sharer)"
proof -
  define dec :: "byte list \<Rightarrow> go_error + persistedIndex" where
    "dec = (\<lambda>bs. Inr \<lparr>ix_Version = 1, ix_Folders = fs_folders demo_sharer,
              ix_Files = map (Some \<circ> snd) (fs_files demo_sharer), ix_SavedAt = 7\<rparr>)"
  have "sharer_ok demo_sharer"
    using demo_folders_ok by (simp add: sharer_ok_def)
      (simp add: demo_sharer_def demo_fs_def AddSharedFolder_def NewFileSharer_def IsAbs_def ContainsAny_def)
  moreover have saved: "SaveIndex (\<lambda>i. (None, [])) 7 demo_sharer = (None, [])" by (simp add: SaveIndex_def)
  ultimately have "\<exists>gs'. LoadIndex dec [] demo_sharer = Inr (None, gs') \<and> (\<forall>p. GetFile p gs' = GetFile p demo_sharer)"
    using index_roundtrip [OF saved, of dec demo_sharer] by (auto simp: dec_def)
  with saved show ?thesis by blast
qed


end
