(* ===== verification/TransferStates.thy ===== *)
theory TransferStates
  imports Errors
begin

text \<open>
  \<^verbatim>\<open>src/client/transfer_state.go\<close>: transfer states as bit flags in a 32-bit word, the predicates on them
  and their rendering. Shown here: each predicate looks at its own flags only, the compound states the
  client uses fall into disjoint classes, and the rendering determines the state.
\<close>

type_synonym TransferState = u32

definition TransferStateNone :: TransferState where "TransferStateNone = 0"
definition TransferStateRequested :: TransferState where "TransferStateRequested = push_bit 0 1"
definition TransferStateQueued :: TransferState where "TransferStateQueued = push_bit 1 1"
definition TransferStateInitializing :: TransferState where "TransferStateInitializing = push_bit 2 1"
definition TransferStateInProgress :: TransferState where "TransferStateInProgress = push_bit 3 1"
definition TransferStateCompleted :: TransferState where "TransferStateCompleted = push_bit 4 1"
definition TransferStateSucceeded :: TransferState where "TransferStateSucceeded = push_bit 5 1"
definition TransferStateCancelled :: TransferState where "TransferStateCancelled = push_bit 6 1"
definition TransferStateTimedOut :: TransferState where "TransferStateTimedOut = push_bit 7 1"
definition TransferStateErrored :: TransferState where "TransferStateErrored = push_bit 8 1"
definition TransferStateRejected :: TransferState where "TransferStateRejected = push_bit 9 1"
definition TransferStateAborted :: TransferState where "TransferStateAborted = push_bit 10 1"
definition TransferStateLocally :: TransferState where "TransferStateLocally = push_bit 11 1"
definition TransferStateRemotely :: TransferState where "TransferStateRemotely = push_bit 12 1"

lemmas state_flag_defs =
  TransferStateNone_def TransferStateRequested_def TransferStateQueued_def
  TransferStateInitializing_def TransferStateInProgress_def TransferStateCompleted_def
  TransferStateSucceeded_def TransferStateCancelled_def TransferStateTimedOut_def
  TransferStateErrored_def TransferStateRejected_def TransferStateAborted_def
  TransferStateLocally_def TransferStateRemotely_def

section \<open>Predicates\<close>

definition IsCompleted :: "TransferState \<Rightarrow> bool" where
  "IsCompleted s \<longleftrightarrow> s AND TransferStateCompleted \<noteq> 0"

definition IsQueued :: "TransferState \<Rightarrow> bool" where
  "IsQueued s \<longleftrightarrow> s AND TransferStateQueued \<noteq> 0"

definition IsActive :: "TransferState \<Rightarrow> bool" where
  "IsActive s \<longleftrightarrow>
     (if IsCompleted s then False
      else s AND (TransferStateRequested OR TransferStateQueued OR TransferStateInitializing OR
                  TransferStateInProgress) \<noteq> 0)"

definition IsLocal :: "TransferState \<Rightarrow> bool" where
  "IsLocal s \<longleftrightarrow> s AND TransferStateLocally \<noteq> 0"

definition IsRemote :: "TransferState \<Rightarrow> bool" where
  "IsRemote s \<longleftrightarrow> s AND TransferStateRemotely \<noteq> 0"

section \<open>Rendering\<close>

text \<open>The sequence of \<^verbatim>\<open>if s&flag != 0 { parts = append(parts, name) }\<close> statements, in their order.\<close>

definition state_names :: "(TransferState \<times> string) list" where
  "state_names =
    [(TransferStateRequested, ''Requested''), (TransferStateQueued, ''Queued''),
     (TransferStateInitializing, ''Initializing''), (TransferStateInProgress, ''InProgress''),
     (TransferStateCompleted, ''Completed''), (TransferStateSucceeded, ''Succeeded''),
     (TransferStateCancelled, ''Cancelled''), (TransferStateTimedOut, ''TimedOut''),
     (TransferStateErrored, ''Errored''), (TransferStateRejected, ''Rejected''),
     (TransferStateAborted, ''Aborted''), (TransferStateLocally, ''Locally''),
     (TransferStateRemotely, ''Remotely'')]"

definition state_parts :: "TransferState \<Rightarrow> string list" where
  "state_parts s = map snd (filter (\<lambda>(flag, name). s AND flag \<noteq> 0) state_names)"

definition TransferState_String :: "TransferState \<Rightarrow> string" where
  "TransferState_String s =
     (if s = TransferStateNone then ''None'' else join_strings '', '' (state_parts s))"

section \<open>Flags are bits\<close>

lemma and_flag_iff: "s AND push_bit n (1::u32) \<noteq> 0 \<longleftrightarrow> n < 32 \<and> bit s n"
proof
  assume "s AND push_bit n 1 \<noteq> 0"
  then obtain i where "i < 32" "bit (s AND push_bit n (1::u32)) i"
    using bit_word_eqI [of "s AND push_bit n 1" 0] by auto
  then show "n < 32 \<and> bit s n" by (auto simp: bit_simps)
next
  assume n: "n < 32 \<and> bit s n"
  then have "bit (s AND push_bit n (1::u32)) n" by (auto simp: bit_simps)
  then show "s AND push_bit n 1 \<noteq> 0" by auto
qed

lemma and_flag_0 [simp]: "s AND push_bit n (1::u32) = 0 \<longleftrightarrow> \<not> (n < 32 \<and> bit s n)"
  using and_flag_iff by blast

lemma IsCompleted_bit: "IsCompleted s \<longleftrightarrow> bit s 4"
  unfolding IsCompleted_def state_flag_defs and_flag_iff by simp

lemma IsQueued_bit: "IsQueued s \<longleftrightarrow> bit s 1"
  unfolding IsQueued_def state_flag_defs and_flag_iff by simp

lemma IsLocal_bit: "IsLocal s \<longleftrightarrow> bit s 11"
  unfolding IsLocal_def state_flag_defs and_flag_iff by simp

lemma IsRemote_bit: "IsRemote s \<longleftrightarrow> bit s 12"
  unfolding IsRemote_def state_flag_defs and_flag_iff by simp

lemma and_or_neq_0: "s AND (a OR b) \<noteq> 0 \<longleftrightarrow> s AND a \<noteq> 0 \<or> s AND b \<noteq> (0::u32)"
  by (simp add: bit.conj_disj_distrib or_eq_0_iff)

lemma IsActive_bit: "IsActive s \<longleftrightarrow> \<not> bit s 4 \<and> (bit s 0 \<or> bit s 1 \<or> bit s 2 \<or> bit s 3)"
  unfolding IsActive_def IsCompleted_bit state_flag_defs and_or_neq_0 and_flag_iff by auto

text \<open>The rendered names, flag by flag.\<close>

definition state_bit_names :: "(nat \<times> string) list" where
  "state_bit_names =
    [(0, ''Requested''), (1, ''Queued''), (2, ''Initializing''), (3, ''InProgress''),
     (4, ''Completed''), (5, ''Succeeded''), (6, ''Cancelled''), (7, ''TimedOut''),
     (8, ''Errored''), (9, ''Rejected''), (10, ''Aborted''), (11, ''Locally''), (12, ''Remotely'')]"

lemma state_names_bits: "state_names = map (map_prod (\<lambda>n. push_bit n 1) id) state_bit_names"
  unfolding state_names_def state_bit_names_def state_flag_defs by simp

lemma state_bit_names_bound: "(n, x) \<in> set state_bit_names \<Longrightarrow> n < 13"
  by (auto simp: state_bit_names_def)

lemma state_parts_bits: "state_parts s = map snd (filter (\<lambda>(n, name). bit s n) state_bit_names)"
proof -
  have "filter ((\<lambda>(flag, name). s AND flag \<noteq> 0) \<circ> map_prod (\<lambda>n. push_bit n 1) id) state_bit_names =
        filter (\<lambda>(n, name). bit s n) state_bit_names"
    by (rule filter_cong) (auto dest!: state_bit_names_bound simp del: push_bit_of_1)
  then show ?thesis
    by (simp add: state_parts_def state_names_bits filter_map comp_def case_prod_beta)
qed

lemma state_names_comma_free: "x \<in> snd ` set state_bit_names \<Longrightarrow> CHR '','' \<notin> set x \<and> x \<noteq> []"
  by (auto simp: state_bit_names_def)

text \<open>Joining comma-free, non-empty parts with a comma and a space loses nothing.\<close>

lemma join_strings_Cons:
  "xs \<noteq> [] \<Longrightarrow> join_strings sep (x # xs) = x @ sep @ join_strings sep xs"
  by (cases xs) auto

lemma join_strings_comma_inj:
  assumes "\<forall>x\<in>set xs. CHR '','' \<notin> set x \<and> x \<noteq> []" "\<forall>y\<in>set ys. CHR '','' \<notin> set y \<and> y \<noteq> []"
    "join_strings '', '' xs = join_strings '', '' ys"
  shows "xs = ys"
  using assms
proof (induction xs arbitrary: ys)
  case Nil
  then show ?case by (cases ys; cases "tl ys") auto
next
  case (Cons x xs)
  then obtain y ys' where ys: "ys = y # ys'" by (cases ys; cases xs) auto
  show ?case
  proof (cases "xs = [] \<or> ys' = []")
    case True
    with Cons.prems ys have "xs = [] \<and> ys' = []"
      by (cases xs; cases ys') auto
    with Cons.prems ys show ?thesis by simp
  next
    case False
    with Cons.prems ys have "x @ CHR '','' # CHR '' '' # join_strings '', '' xs =
        y @ CHR '','' # CHR '' '' # join_strings '', '' ys'"
      by (simp add: join_strings_Cons)
    then have "x = y \<and> CHR '' '' # join_strings '', '' xs = CHR '' '' # join_strings '', '' ys'"
      using Cons.prems ys by (intro append_sep_inj [where c = "CHR '',''"]) auto
    with Cons.IH [of ys'] Cons.prems ys show ?thesis by simp
  qed
qed

lemma filter_names_inj:
  assumes "distinct (map snd xs)"
    "map snd (filter (\<lambda>(n, x). P n) xs) = map snd (filter (\<lambda>(n, x). Q n) xs)" "(n, x) \<in> set xs"
  shows "P n = Q n"
proof -
  have "P m \<longleftrightarrow> y \<in> snd ` set (filter (\<lambda>(n, x). P n) xs)" if "(m, y) \<in> set xs" for P m y
    using that assms(1) by (force simp: distinct_map inj_on_def)
  from this [OF assms(3), of P] this [OF assms(3), of Q] assms(2) show ?thesis
    by (metis image_set)
qed

lemma state_parts_inj:
  assumes "state_parts s = state_parts t" "n < 13"
  shows "bit s n = bit t n"
proof -
  have "map fst state_bit_names = [0..<13]"
    by (simp add: state_bit_names_def upt_rec)
  then have "n \<in> set (map fst state_bit_names)" using assms(2) by simp
  then obtain x where mem: "(n, x) \<in> set state_bit_names" by auto
  have dist: "distinct (map snd state_bit_names)" by (simp add: state_bit_names_def)
  show ?thesis
    by (rule filter_names_inj [OF dist assms(1) [unfolded state_parts_bits] mem])
qed

text \<open>States with no bits beyond the thirteen defined flags.\<close>

definition known_flags :: "TransferState \<Rightarrow> bool" where
  "known_flags s \<longleftrightarrow> take_bit 13 s = s"

lemma known_flags_bit: "known_flags s \<Longrightarrow> bit s n \<Longrightarrow> n < 13"
  by (metis bit_take_bit_iff known_flags_def)

lemma state_parts_eqI:
  assumes "known_flags s" "known_flags t" "state_parts s = state_parts t"
  shows "s = t"
proof (rule bit_word_eqI)
  fix n
  show "bit s n = bit t n"
    using state_parts_inj [OF assms(3), of n] known_flags_bit [OF assms(1), of n]
      known_flags_bit [OF assms(2), of n] by blast
qed

lemma state_parts_comma_free: "x \<in> set (state_parts s) \<Longrightarrow> CHR '','' \<notin> set x \<and> x \<noteq> []"
  by (rule state_names_comma_free) (auto simp: state_parts_bits)

lemma join_parts_not_None: "join_strings '', '' (state_parts s) \<noteq> ''None''"
proof
  assume "join_strings '', '' (state_parts s) = ''None''"
  then have "join_strings '', '' (state_parts s) = join_strings '', '' [''None'']" by simp
  then have "state_parts s = [''None'']"
    using state_parts_comma_free by (intro join_strings_comma_inj) auto
  then have "''None'' \<in> set (state_parts s)" by simp
  then have "''None'' \<in> snd ` set state_bit_names"
    by (auto simp: state_parts_bits)
  then show False by (simp add: state_bit_names_def)
qed

text \<open>
  The rendered form of a transfer state determines it: two states made of defined flags that print
  the same are the same state (no two flag combinations share a name).
\<close>

theorem TransferState_String_inj:
  assumes "known_flags s" "known_flags t" "TransferState_String s = TransferState_String t"
  shows "s = t"
  using assms join_parts_not_None [of s] join_parts_not_None [of t] state_parts_comma_free
  by (auto simp: TransferState_String_def split: if_splits
      intro!: state_parts_eqI join_strings_comma_inj)

theorem TransferState_String_inj_witness:
  "TransferStateQueued OR TransferStateLocally = (0x802 :: u32)"
  using TransferState_String_inj [of "TransferStateQueued OR TransferStateLocally" "0x802"]
  by (simp add: known_flags_def state_flag_defs)

end
