(* ===== verification/Transfers.thy ===== *)
theory Transfers
  imports FileShare TransferStates Complex_Main
begin

text \<open>
  \<^verbatim>\<open>src/client/transfer.go\<close>: one transfer's record, its state changes with their time stamps, the average speed,
  and the progress channel. \<^verbatim>\<open>float64\<close> arithmetic is carried out exactly, in the rationals: rounding is not
  modelled. A writer and a connection are handles (\<^typ>\<open>nat\<close>); \<^verbatim>\<open>time.Now()\<close> is the argument \<open>now\<close>.
\<close>

section \<open>Data\<close>

type_synonym float64 = rat
type_synonym handle = nat

record TransferReadyInfo =
  ri_RemoteToken :: u32
  ri_FileSize :: i64

record TransferProgress =
  tp_State :: TransferState
  tp_BytesTransferred :: i64
  tp_FileSize :: i64
  tp_AverageSpeed :: float64
  tp_QueuePosition :: u32
  tp_Error :: "go_error option"

definition progressUpdateInterval :: int where "progressUpdateInterval = second"
definition speedAlpha :: float64 where "speedAlpha = 1 / 5"

record Transfer =
  t_Direction :: u32
  t_Username :: string
  t_Filename :: string
  t_Token :: u32
  t_RemoteToken :: u32
  t_Size :: i64
  t_StartOffset :: i64
  t_Transferred :: i64
  t_StartTime :: time
  t_EndTime :: time
  t_Error :: "go_error option"
  t_queuePosition :: u32
  t_state :: TransferState
  t_prevState :: TransferState
  t_avgSpeed :: float64
  t_lastProgressTime :: time
  t_lastProgressBytes :: i64
  t_speedInitialized :: bool
  t_progressCh :: "TransferProgress chan"
  t_transferReadyCh :: "TransferReadyInfo chan option"
  t_transferConnCh :: "handle chan option"
  t_writer :: "handle option"
  t_sharedFile :: "SharedFile option"

definition NewTransfer :: "u32 \<Rightarrow> string \<Rightarrow> string \<Rightarrow> u32 \<Rightarrow> Transfer" where
  "NewTransfer direction username filename token =
    \<lparr>t_Direction = direction, t_Username = username, t_Filename = filename, t_Token = token, t_RemoteToken = 0,
     t_Size = 0, t_StartOffset = 0, t_Transferred = 0, t_StartTime = 0, t_EndTime = 0, t_Error = None,
     t_queuePosition = 0, t_state = TransferStateNone, t_prevState = TransferStateNone, t_avgSpeed = 0,
     t_lastProgressTime = 0, t_lastProgressBytes = 0, t_speedInitialized = False, t_progressCh = make_chan 100,
     t_transferReadyCh = None, t_transferConnCh = None, t_writer = None, t_sharedFile = None\<rparr>"

section \<open>State and time\<close>

text \<open>\<^verbatim>\<open>Duration.Seconds()\<close>\<close>

definition Seconds :: "int \<Rightarrow> float64" where
  "Seconds d = of_int d / of_int second"

definition float_of :: "i64 \<Rightarrow> float64" where
  "float_of x = of_int (sint x)"

definition calculateFinalSpeed :: "Transfer \<Rightarrow> Transfer" where
  "calculateFinalSpeed t =
     (if IsZero (t_StartTime t) \<or> IsZero (t_EndTime t) then t
      else let duration = Seconds (t_EndTime t - t_StartTime t)
           in if duration > 0 then t\<lparr>t_avgSpeed := float_of (t_Transferred t - t_StartOffset t) / duration\<rparr> else t)"

definition SetState :: "time \<Rightarrow> TransferState \<Rightarrow> Transfer \<Rightarrow> Transfer" where
  "SetState now state t =
     (let t = t\<lparr>t_prevState := t_state t, t_state := state\<rparr>;
          t = (if state AND TransferStateInProgress \<noteq> 0 \<and> IsZero (t_StartTime t) then t\<lparr>t_StartTime := now\<rparr> else t)
      in if state AND TransferStateCompleted \<noteq> 0 \<and> IsZero (t_EndTime t)
         then calculateFinalSpeed (t\<lparr>t_EndTime := now\<rparr>) else t)"

definition PercentComplete :: "Transfer \<Rightarrow> float64" where
  "PercentComplete t =
     (if t_Size t = 0 then 0 else float_of (t_Transferred t) / float_of (t_Size t) * 100)"

definition BytesRemaining :: "Transfer \<Rightarrow> i64" where
  "BytesRemaining t = t_Size t - t_Transferred t"

definition AverageSpeed :: "Transfer \<Rightarrow> float64" where
  "AverageSpeed t = t_avgSpeed t"

definition setAverageSpeed :: "float64 \<Rightarrow> Transfer \<Rightarrow> Transfer" where
  "setAverageSpeed speed t = t\<lparr>t_avgSpeed := speed\<rparr>"

text \<open>
  \<^verbatim>\<open>time.Duration(seconds * 1e9)\<close> truncates towards zero; a value outside \<^verbatim>\<open>int64\<close> is implementation-defined in Go
  and is left as the exact integer here.
\<close>

definition RemainingTime :: "Transfer \<Rightarrow> int" where
  "RemainingTime t =
     (if t_avgSpeed t \<le> 0 then 0
      else let remaining = t_Size t - t_Transferred t
           in if sint remaining \<le> 0 then 0
              else let seconds = float_of remaining / t_avgSpeed t in \<lfloor>seconds * of_int second\<rfloor>)"

definition UpdateProgress :: "time \<Rightarrow> i64 \<Rightarrow> Transfer \<Rightarrow> Transfer" where
  "UpdateProgress now bytesTransferred t =
     (let t = t\<lparr>t_Transferred := bytesTransferred\<rparr>
      in if IsCompleted (t_state t) then t
         else if \<not> IsZero (t_lastProgressTime t) \<and> now - t_lastProgressTime t < progressUpdateInterval then t
         else let t = (if \<not> IsZero (t_lastProgressTime t)
                       then let elapsed = Seconds (now - t_lastProgressTime t)
                            in if elapsed > 0
                               then let currentSpeed = float_of (bytesTransferred - t_lastProgressBytes t) / elapsed
                                    in if \<not> t_speedInitialized t
                                       then t\<lparr>t_avgSpeed := currentSpeed, t_speedInitialized := True\<rparr>
                                       else t\<lparr>t_avgSpeed := speedAlpha * currentSpeed + (1 - speedAlpha) * t_avgSpeed t\<rparr>
                               else t
                       else t)
              in t\<lparr>t_lastProgressTime := now, t_lastProgressBytes := bytesTransferred\<rparr>)"

section \<open>Keys\<close>

definition FileKey :: "Transfer \<Rightarrow> string" where
  "FileKey t = decimal (unat (t_Direction t)) @ '':'' @ t_Username t @ '':'' @ t_Filename t"

definition RemoteTokenKey :: "Transfer \<Rightarrow> string" where
  "RemoteTokenKey t = t_Username t @ '':'' @ decimal (unat (t_RemoteToken t))"

section \<open>Progress channel\<close>

definition emitProgress :: "Transfer \<Rightarrow> go_panic + Transfer" where
  "emitProgress t =
     (let progress = \<lparr>tp_State = t_state t, tp_BytesTransferred = t_Transferred t, tp_FileSize = t_Size t,
                      tp_AverageSpeed = t_avgSpeed t, tp_QueuePosition = t_queuePosition t, tp_Error = t_Error t\<rparr>
      in case try_send progress (t_progressCh t) of
           Inl p \<Rightarrow> Inl p
         | Inr (sent, ch) \<Rightarrow> Inr (t\<lparr>t_progressCh := ch\<rparr>))"

definition SetQueuePosition :: "u32 \<Rightarrow> Transfer \<Rightarrow> go_panic + Transfer" where
  "SetQueuePosition position t = emitProgress (t\<lparr>t_queuePosition := position\<rparr>)"

definition Transfer_Close :: "Transfer \<Rightarrow> go_panic + Transfer" where
  "Transfer_Close t = (case close_chan (t_progressCh t) of Inl p \<Rightarrow> Inl p | Inr ch \<Rightarrow> Inr (t\<lparr>t_progressCh := ch\<rparr>))"

definition InitDownloadChannels :: "Transfer \<Rightarrow> Transfer" where
  "InitDownloadChannels t = t\<lparr>t_transferReadyCh := Some (make_chan 1), t_transferConnCh := Some (make_chan 1)\<rparr>"

definition SetSharedFile :: "SharedFile option \<Rightarrow> Transfer \<Rightarrow> Transfer" where
  "SetSharedFile sf t = t\<lparr>t_sharedFile := sf\<rparr>"

text \<open>What a transfer is: these fields are set when it is created and never again.\<close>

definition identity :: "Transfer \<Rightarrow> u32 \<times> string \<times> string \<times> u32" where
  "identity t = (t_Direction t, t_Username t, t_Filename t, t_Token t)"

lemma calculateFinalSpeed_fields [simp]:
  "t_Direction (calculateFinalSpeed t) = t_Direction t" "t_Username (calculateFinalSpeed t) = t_Username t"
  "t_Filename (calculateFinalSpeed t) = t_Filename t" "t_Token (calculateFinalSpeed t) = t_Token t"
  "t_state (calculateFinalSpeed t) = t_state t" "t_prevState (calculateFinalSpeed t) = t_prevState t"
  "t_StartTime (calculateFinalSpeed t) = t_StartTime t" "t_EndTime (calculateFinalSpeed t) = t_EndTime t"
  "t_progressCh (calculateFinalSpeed t) = t_progressCh t"
  "t_Transferred (calculateFinalSpeed t) = t_Transferred t" "t_RemoteToken (calculateFinalSpeed t) = t_RemoteToken t"
  "t_Size (calculateFinalSpeed t) = t_Size t" "t_Error (calculateFinalSpeed t) = t_Error t"
  "t_StartOffset (calculateFinalSpeed t) = t_StartOffset t" "t_sharedFile (calculateFinalSpeed t) = t_sharedFile t"
  "t_transferReadyCh (calculateFinalSpeed t) = t_transferReadyCh t" "t_transferConnCh (calculateFinalSpeed t) = t_transferConnCh t"
  by (simp_all add: calculateFinalSpeed_def Let_def)

lemma SetState_fields [simp]:
  "t_state (SetState now s t) = s" "t_prevState (SetState now s t) = t_state t"
  "t_progressCh (SetState now s t) = t_progressCh t" "identity (SetState now s t) = identity t"
  "t_Transferred (SetState now s t) = t_Transferred t" "t_RemoteToken (SetState now s t) = t_RemoteToken t"
  "t_Size (SetState now s t) = t_Size t" "t_Error (SetState now s t) = t_Error t"
  "t_StartOffset (SetState now s t) = t_StartOffset t" "t_sharedFile (SetState now s t) = t_sharedFile t"
  "t_transferReadyCh (SetState now s t) = t_transferReadyCh t" "t_transferConnCh (SetState now s t) = t_transferConnCh t"
  by (simp_all add: SetState_def Let_def identity_def)

lemma UpdateProgress_fields [simp]:
  "t_state (UpdateProgress now b t) = t_state t" "t_progressCh (UpdateProgress now b t) = t_progressCh t"
  "identity (UpdateProgress now b t) = identity t" "t_Transferred (UpdateProgress now b t) = b"
  "t_RemoteToken (UpdateProgress now b t) = t_RemoteToken t" "t_Size (UpdateProgress now b t) = t_Size t"
  "t_StartOffset (UpdateProgress now b t) = t_StartOffset t" "t_Error (UpdateProgress now b t) = t_Error t"
  "t_transferReadyCh (UpdateProgress now b t) = t_transferReadyCh t" "t_transferConnCh (UpdateProgress now b t) = t_transferConnCh t"
  by (simp_all add: UpdateProgress_def Let_def identity_def)

lemma FileKey_identity: "identity t = identity t' \<Longrightarrow> FileKey t = FileKey t'"
  by (simp add: identity_def FileKey_def)

section \<open>Time stamps\<close>

text \<open>A history of state changes, each with the time it was made.\<close>

definition set_states :: "(time \<times> TransferState) list \<Rightarrow> Transfer \<Rightarrow> Transfer" where
  "set_states evs t = fold (\<lambda>(now, s) t. SetState now s t) evs t"

definition first_time :: "TransferState \<Rightarrow> (time \<times> TransferState) list \<Rightarrow> time" where
  "first_time flag evs = (case find (\<lambda>(now, s). s AND flag \<noteq> 0) evs of None \<Rightarrow> 0 | Some (now, s) \<Rightarrow> now)"

lemma first_time_simps [simp]:
  "first_time flag [] = 0"
  "first_time flag ((now, s) # evs) = (if s AND flag \<noteq> 0 then now else first_time flag evs)"
  by (simp_all add: first_time_def)

lemma SetState_times:
  "t_StartTime (SetState now s t) =
     (if s AND TransferStateInProgress \<noteq> 0 \<and> t_StartTime t = 0 then now else t_StartTime t)"
  "t_EndTime (SetState now s t) =
     (if s AND TransferStateCompleted \<noteq> 0 \<and> t_EndTime t = 0 then now else t_EndTime t)"
  by (simp_all add: SetState_def Let_def IsZero_def)

lemma set_states_times:
  "\<forall>(now, s)\<in>set evs. now \<noteq> 0 \<Longrightarrow>
     t_StartTime (set_states evs t) =
       (if t_StartTime t \<noteq> 0 then t_StartTime t else first_time TransferStateInProgress evs) \<and>
     t_EndTime (set_states evs t) =
       (if t_EndTime t \<noteq> 0 then t_EndTime t else first_time TransferStateCompleted evs)"
  by (induction evs arbitrary: t) (auto simp: set_states_def SetState_times)

lemma set_states_state:
  "t_state (set_states evs t) = (if evs = [] then t_state t else snd (last evs))"
proof (induction evs arbitrary: t)
  case (Cons e evs)
  then show ?case by (cases e) (simp add: set_states_def)
qed (simp add: set_states_def)

lemma final_speed:
  assumes "t_StartTime t \<noteq> 0" "t_EndTime t = 0" "s AND TransferStateCompleted \<noteq> 0" "t_StartTime t < now"
    and "now \<noteq> 0"
  shows "AverageSpeed (SetState now s t) * Seconds (now - t_StartTime t) = float_of (t_Transferred t - t_StartOffset t)"
proof -
  have "Seconds (now - t_StartTime t) > 0" using assms(4) by (simp add: Seconds_def second_def)
  then show ?thesis
    using assms(1-3,5) by (simp add: SetState_def Let_def IsZero_def calculateFinalSpeed_def AverageSpeed_def)
qed

text \<open>
  Time stamps of a transfer. Over any history of state changes, the start time is the time of the first change into
  a state with the InProgress flag and the end time that of the first change into a state with the Completed flag (zero
  while there was none): later changes never move them. The state is the last one set, and when a started transfer
  completes, its average speed times the elapsed seconds is exactly the bytes moved since the resume offset.
\<close>

theorem transfer_time_stamps:
  assumes "\<forall>(now, s)\<in>set evs. now \<noteq> 0"
  shows "t_StartTime (set_states evs (NewTransfer d u f k)) = first_time TransferStateInProgress evs
       \<and> t_EndTime (set_states evs (NewTransfer d u f k)) = first_time TransferStateCompleted evs
       \<and> t_state (set_states evs (NewTransfer d u f k)) = (if evs = [] then TransferStateNone else snd (last evs))
       \<and> (t_StartTime t \<noteq> 0 \<and> t_EndTime t = 0 \<and> s AND TransferStateCompleted \<noteq> 0 \<and> t_StartTime t < now \<and> now \<noteq> 0 \<longrightarrow>
            AverageSpeed (SetState now s t) * Seconds (now - t_StartTime t) = float_of (t_Transferred t - t_StartOffset t))"
proof (intro conjI impI)
  note times = set_states_times [OF assms, of "NewTransfer d u f k"]
  show "t_StartTime (set_states evs (NewTransfer d u f k)) = first_time TransferStateInProgress evs"
    "t_EndTime (set_states evs (NewTransfer d u f k)) = first_time TransferStateCompleted evs"
    using times by (simp_all add: NewTransfer_def)
  show "t_state (set_states evs (NewTransfer d u f k)) = (if evs = [] then TransferStateNone else snd (last evs))"
    by (simp add: set_states_state) (simp add: NewTransfer_def)
  show "AverageSpeed (SetState now s t) * Seconds (now - t_StartTime t) = float_of (t_Transferred t - t_StartOffset t)"
    if "t_StartTime t \<noteq> 0 \<and> t_EndTime t = 0 \<and> s AND TransferStateCompleted \<noteq> 0 \<and> t_StartTime t < now \<and> now \<noteq> 0"
    using that by (intro final_speed) auto
qed

theorem transfer_time_stamps_witness:
  "t_StartTime (set_states [(5, TransferStateQueued), (9, TransferStateInProgress), (12, TransferStateInProgress)]
      (NewTransfer 0 ''u'' ''f'' 1)) = 9"
  using transfer_time_stamps [of "[(5, TransferStateQueued), (9, TransferStateInProgress), (12, TransferStateInProgress)]"
      0 "''u''" "''f''" 1 "NewTransfer 0 ''u'' ''f'' 1" 0 0]
  by (simp add: state_flag_defs)

section \<open>The average speed\<close>

definition update_progress_all :: "(time \<times> i64) list \<Rightarrow> Transfer \<Rightarrow> Transfer" where
  "update_progress_all evs t = fold (\<lambda>(now, b) t. UpdateProgress now b t) evs t"

text \<open>Between any two reports the bytes moved are within the rate bounds.\<close>

definition rate_within :: "float64 \<Rightarrow> float64 \<Rightarrow> time \<times> i64 \<Rightarrow> time \<times> i64 \<Rightarrow> bool" where
  "rate_within lo hi e e' \<longleftrightarrow>
     lo * Seconds (fst e' - fst e) \<le> float_of (snd e' - snd e) \<and>
     float_of (snd e' - snd e) \<le> hi * Seconds (fst e' - fst e)"

definition speed_within :: "float64 \<Rightarrow> float64 \<Rightarrow> Transfer \<Rightarrow> bool" where
  "speed_within lo hi t \<longleftrightarrow> (t_speedInitialized t \<longrightarrow> lo \<le> t_avgSpeed t \<and> t_avgSpeed t \<le> hi)"

lemma ema_within:
  assumes "lo \<le> v" "v \<le> hi" "lo \<le> w" "w \<le> hi"
  shows "lo \<le> speedAlpha * v + (1 - speedAlpha) * w \<and> speedAlpha * v + (1 - speedAlpha) * w \<le> hi"
  using assms by (simp add: speedAlpha_def field_simps)

lemma UpdateProgress_speed:
  assumes "speed_within lo hi t"
    and "t_lastProgressTime t \<noteq> 0 \<Longrightarrow> rate_within lo hi (t_lastProgressTime t, t_lastProgressBytes t) (now, b)"
  shows "speed_within lo hi (UpdateProgress now b t)"
proof (cases "t_lastProgressTime t \<noteq> 0 \<and> Seconds (now - t_lastProgressTime t) > 0")
  case True
  let ?v = "float_of (b - t_lastProgressBytes t) / Seconds (now - t_lastProgressTime t)"
  have "lo \<le> ?v" "?v \<le> hi" using True assms(2) by (simp_all add: rate_within_def field_simps)
  then show ?thesis
    using assms(1) ema_within [of lo ?v hi "t_avgSpeed t"]
    by (auto simp: UpdateProgress_def Let_def IsZero_def speed_within_def)
next
  case False
  then show ?thesis using assms(1) by (auto simp: UpdateProgress_def Let_def IsZero_def speed_within_def)
qed

lemma UpdateProgress_last:
  "(t_lastProgressTime (UpdateProgress now b t), t_lastProgressBytes (UpdateProgress now b t))
     \<in> {(t_lastProgressTime t, t_lastProgressBytes t), (now, b)}"
  by (simp add: UpdateProgress_def Let_def)

lemma update_progress_all_speed:
  assumes "sorted_wrt (rate_within lo hi) evs" "speed_within lo hi t"
    and "t_lastProgressTime t \<noteq> 0 \<Longrightarrow> \<forall>e\<in>set evs. rate_within lo hi (t_lastProgressTime t, t_lastProgressBytes t) e"
  shows "speed_within lo hi (update_progress_all evs t)"
  using assms
proof (induction evs arbitrary: t)
  case (Cons e evs)
  obtain now b where e: "e = (now, b)" by fastforce
  have "speed_within lo hi (UpdateProgress now b t)"
    using Cons.prems e by (intro UpdateProgress_speed) auto
  moreover have "t_lastProgressTime (UpdateProgress now b t) \<noteq> 0 \<Longrightarrow>
      \<forall>e\<in>set evs. rate_within lo hi (t_lastProgressTime (UpdateProgress now b t), t_lastProgressBytes (UpdateProgress now b t)) e"
    using UpdateProgress_last [of now b t] Cons.prems e by auto
  ultimately show ?case using Cons.IH [of "UpdateProgress now b t"] Cons.prems(1) e
    by (simp add: update_progress_all_def)
qed (simp add: update_progress_all_def)

lemma UpdateProgress_uninitialized:
  "\<not> t_speedInitialized (UpdateProgress now b t) \<Longrightarrow>
     \<not> t_speedInitialized t \<and> t_avgSpeed (UpdateProgress now b t) = t_avgSpeed t"
  by (auto simp: UpdateProgress_def Let_def split: if_splits)

lemma uninitialized_zero:
  "\<not> t_speedInitialized (update_progress_all evs t) \<Longrightarrow>
     \<not> t_speedInitialized t \<and> t_avgSpeed (update_progress_all evs t) = t_avgSpeed t"
proof (induction evs arbitrary: t)
  case (Cons e evs)
  obtain now b where e: "e = (now, b)" by fastforce
  from Cons.prems have "\<not> t_speedInitialized (update_progress_all evs (UpdateProgress now b t))"
    by (simp add: e update_progress_all_def)
  from Cons.IH [OF this] UpdateProgress_uninitialized [of now b t] show ?case
    by (simp add: e update_progress_all_def)
qed (simp add: update_progress_all_def)

text \<open>
  The smoothed speed is trustworthy: if between any two progress reports the data moved at no less than \<open>lo\<close> and no
  more than \<open>hi\<close> bytes per second, then after any number of reports, however they are spaced (reports closer than a
  second are folded into the next one), the exponential moving average lies between \<open>lo\<close> and \<open>hi\<close>, or no speed has been
  measured yet and it is still zero. The byte counter is the last report.
\<close>

theorem average_speed_bounds:
  assumes "sorted_wrt (rate_within lo hi) evs"
  shows "(let t = update_progress_all evs (NewTransfer d u f k)
          in (if t_speedInitialized t then lo \<le> AverageSpeed t \<and> AverageSpeed t \<le> hi else AverageSpeed t = 0) \<and>
             t_Transferred t = (if evs = [] then 0 else snd (last evs)))"
proof -
  have "speed_within lo hi (update_progress_all evs (NewTransfer d u f k))"
    by (rule update_progress_all_speed [OF assms]) (simp_all add: NewTransfer_def speed_within_def)
  moreover have "\<not> t_speedInitialized (update_progress_all evs (NewTransfer d u f k)) \<Longrightarrow>
      t_avgSpeed (update_progress_all evs (NewTransfer d u f k)) = 0"
    using uninitialized_zero [of evs "NewTransfer d u f k"] by (simp add: NewTransfer_def)
  moreover have "t_Transferred (update_progress_all evs t) = (if evs = [] then t_Transferred t else snd (last evs))" for t
    by (induction evs arbitrary: t) (auto simp: update_progress_all_def)
  moreover have "t_Transferred (NewTransfer d u f k) = 0" by (simp add: NewTransfer_def)
  ultimately show ?thesis by (auto simp: Let_def speed_within_def AverageSpeed_def)
qed

theorem average_speed_bounds_witness:
  "(let t = update_progress_all [(1, 0), (2000000001, 100), (4000000001, 400)] (NewTransfer 0 ''u'' ''f'' 1)
    in 50 \<le> AverageSpeed t \<and> AverageSpeed t \<le> 150 \<and> AverageSpeed t = 70)"
proof -
  have "t_speedInitialized (update_progress_all [(1, 0), (2000000001, 100), (4000000001, 400)] (NewTransfer 0 ''u'' ''f'' 1))"
    "t_avgSpeed (update_progress_all [(1, 0), (2000000001, 100), (4000000001, 400)] (NewTransfer 0 ''u'' ''f'' 1)) = 70"
    by (simp_all add: update_progress_all_def UpdateProgress_def NewTransfer_def IsZero_def IsCompleted_def state_flag_defs
        progressUpdateInterval_def Seconds_def second_def float_of_def speedAlpha_def Let_def)
  then show ?thesis
    using average_speed_bounds [of 50 150 "[(1, 0), (2000000001, 100), (4000000001, 400)]" 0 "''u''" "''f''" 1]
    by (simp add: Let_def rate_within_def Seconds_def second_def float_of_def AverageSpeed_def)
qed


section \<open>Progress reports\<close>

definition progress_of :: "Transfer \<Rightarrow> TransferProgress" where
  "progress_of t = \<lparr>tp_State = t_state t, tp_BytesTransferred = t_Transferred t, tp_FileSize = t_Size t,
     tp_AverageSpeed = t_avgSpeed t, tp_QueuePosition = t_queuePosition t, tp_Error = t_Error t\<rparr>"

definition open_progress :: "Transfer \<Rightarrow> bool" where
  "open_progress t \<longleftrightarrow> \<not> ch_closed (t_progressCh t)"

lemma emitProgress_open:
  assumes "open_progress t"
  shows "emitProgress t = Inr (t\<lparr>t_progressCh := (t_progressCh t)\<lparr>ch_buf :=
     (if length (ch_buf (t_progressCh t)) < ch_cap (t_progressCh t)
      then ch_buf (t_progressCh t) @ [progress_of t] else ch_buf (t_progressCh t))\<rparr>\<rparr>)"
  using assms by (simp add: emitProgress_def try_send_def open_progress_def progress_of_def)

lemma emitProgress_closed: "\<not> open_progress t \<Longrightarrow> emitProgress t = Inl SendOnClosed"
  by (simp add: emitProgress_def try_send_def open_progress_def)

text \<open>Changes to a transfer between two reports: anything that leaves the progress channel alone.\<close>

fun report_all :: "(Transfer \<Rightarrow> Transfer) list \<Rightarrow> Transfer \<Rightarrow> go_panic + Transfer" where
  "report_all [] t = Inr t"
| "report_all (f # fs) t = (case emitProgress (f t) of Inl p \<Rightarrow> Inl p | Inr t' \<Rightarrow> report_all fs t')"

fun reports :: "(Transfer \<Rightarrow> Transfer) list \<Rightarrow> Transfer \<Rightarrow> TransferProgress list" where
  "reports [] t = []"
| "reports (f # fs) t = progress_of (f t) # reports fs (f t)"

text \<open>A change that does not look at the progress channel.\<close>

definition channel_blind :: "(Transfer \<Rightarrow> Transfer) \<Rightarrow> bool" where
  "channel_blind f \<longleftrightarrow> (\<forall>t ch. f (t\<lparr>t_progressCh := ch\<rparr>) = (f t)\<lparr>t_progressCh := ch\<rparr>)"

lemma channel_blindD: "channel_blind f \<Longrightarrow> f (t\<lparr>t_progressCh := ch\<rparr>) = (f t)\<lparr>t_progressCh := ch\<rparr>"
  by (simp add: channel_blind_def)

lemma channel_blind_same: "channel_blind f \<Longrightarrow> t_progressCh (f t) = t_progressCh t"
proof -
  assume "channel_blind f"
  from channel_blindD [OF this, where t = t and ch = "t_progressCh t"]
  have "f t = (f t)\<lparr>t_progressCh := t_progressCh t\<rparr>" by simp
  then have "t_progressCh (f t) = t_progressCh ((f t)\<lparr>t_progressCh := t_progressCh t\<rparr>)" by (rule arg_cong)
  then show ?thesis by simp
qed

lemma progress_of_channel [simp]: "progress_of (t\<lparr>t_progressCh := ch\<rparr>) = progress_of t"
  by (simp add: progress_of_def)

lemma reports_channel:
  "\<forall>f\<in>set fs. channel_blind f \<Longrightarrow> reports fs (t\<lparr>t_progressCh := ch\<rparr>) = reports fs t"
  by (induction fs arbitrary: t) (simp_all add: channel_blindD)

lemma take_take_append: "take n (take n xs @ ys) = take n (xs @ ys)"
  by (simp add: min_def)

lemma report_all_buffer:
  assumes "\<forall>f\<in>set fs. channel_blind f" "open_progress t" "chan_ok (t_progressCh t)"
  shows "\<exists>t'. report_all fs t = Inr t' \<and> open_progress t' \<and>
     ch_buf (t_progressCh t') = take (ch_cap (t_progressCh t)) (ch_buf (t_progressCh t) @ reports fs t)"
  using assms
proof (induction fs arbitrary: t)
  case Nil
  then show ?case by (simp add: chan_ok_def)
next
  case (Cons f fs)
  have same: "t_progressCh (f t) = t_progressCh t" using Cons.prems by (intro channel_blind_same) simp
  define ch where "ch = (t_progressCh t)\<lparr>ch_buf := take (ch_cap (t_progressCh t)) (ch_buf (t_progressCh t) @ [progress_of (f t)])\<rparr>"
  have emit: "emitProgress (f t) = Inr ((f t)\<lparr>t_progressCh := ch\<rparr>)"
    using Cons.prems(2,3) same emitProgress_open [of "f t"]
    by (auto simp: open_progress_def chan_ok_def ch_def)
  have "chan_ok ch" "open_progress ((f t)\<lparr>t_progressCh := ch\<rparr>)"
    using Cons.prems by (simp_all add: ch_def chan_ok_def open_progress_def)
  with Cons.IH [of "(f t)\<lparr>t_progressCh := ch\<rparr>"] Cons.prems(1) emit show ?case
    using take_take_append [of "ch_cap (t_progressCh t)" "ch_buf (t_progressCh t) @ [progress_of (f t)]" "reports fs (f t)"]
    by (auto simp: reports_channel ch_def simp del: take_append)
qed

lemma channel_blind_updates:
  "channel_blind (SetState now s)" "channel_blind (UpdateProgress now b)" "channel_blind (\<lambda>t. t\<lparr>t_queuePosition := p\<rparr>)"
  by (simp_all add: channel_blind_def SetState_def UpdateProgress_def calculateFinalSpeed_def Let_def)

text \<open>
  Progress reports never block and never fail while a transfer is registered. Starting from a new transfer, however
  its state and byte counts change between reports, reporting succeeds every time, and a consumer that has not read yet
  finds the first 100 reports, in order, each with the state and counts at the time it was made; later reports are
  dropped until it reads. Once the transfer is closed, a further report panics (and so does a second close).
\<close>

theorem progress_reports:
  assumes "\<forall>f\<in>set fs. channel_blind f"
  shows "\<exists>t. report_all fs (NewTransfer d u f k) = Inr t
       \<and> ch_buf (t_progressCh t) = take 100 (reports fs (NewTransfer d u f k))
       \<and> (\<exists>t'. Transfer_Close t = Inr t' \<and> emitProgress t' = Inl SendOnClosed \<and> Transfer_Close t' = Inl CloseOfClosed)"
proof -
  have "open_progress (NewTransfer d u f k)" "t_progressCh (NewTransfer d u f k) = make_chan 100"
    by (simp_all add: NewTransfer_def open_progress_def)
  with report_all_buffer [OF assms, of "NewTransfer d u f k"]
  obtain t where t: "report_all fs (NewTransfer d u f k) = Inr t" "open_progress t"
    "ch_buf (t_progressCh t) = take 100 (reports fs (NewTransfer d u f k))" by auto
  define t' where "t' = t\<lparr>t_progressCh := (t_progressCh t)\<lparr>ch_closed := True\<rparr>\<rparr>"
  have "Transfer_Close t = Inr t'" using t(2) by (simp add: Transfer_Close_def close_chan_def open_progress_def t'_def)
  moreover have "emitProgress t' = Inl SendOnClosed"
    by (rule emitProgress_closed) (simp add: t'_def open_progress_def)
  moreover have "Transfer_Close t' = Inl CloseOfClosed" by (simp add: Transfer_Close_def close_chan_def t'_def)
  ultimately show ?thesis using t by blast
qed

theorem progress_reports_witness:
  "\<exists>t. report_all [SetState 5 TransferStateQueued, UpdateProgress 9 77] (NewTransfer 0 ''u'' ''f'' 1) = Inr t
     \<and> map tp_BytesTransferred (ch_buf (t_progressCh t)) = [0, 77]"
proof -
  have "\<forall>f\<in>set [SetState 5 TransferStateQueued, UpdateProgress 9 77]. channel_blind f"
    by (simp add: channel_blind_updates)
  from progress_reports [OF this, of 0 "''u''" "''f''" 1]
  obtain t where "report_all [SetState 5 TransferStateQueued, UpdateProgress 9 77] (NewTransfer 0 ''u'' ''f'' 1) = Inr t"
    "ch_buf (t_progressCh t) = take 100 (reports [SetState 5 TransferStateQueued, UpdateProgress 9 77] (NewTransfer 0 ''u'' ''f'' 1))"
    by blast
  then show ?thesis by (simp add: progress_of_def) (simp add: NewTransfer_def)
qed


end
