(* ===== verification/Registry.thy ===== *)
theory Registry
  imports Transfers
begin

text \<open>
  \<^verbatim>\<open>src/client/transfer_registry.go\<close>: the three indexes of active transfers. The maps hold pointers to transfers, so
  the model has a heap: a reference is an index into \<open>reg_heap\<close>, allocated by \<open>register\<close> and never reused. Each
  operation is one atomic step; the goroutines that hold a transfer change it between steps (\<open>mutate\<close> in
  \<open>reg_reachable\<close>).
\<close>

section \<open>Formatting keys\<close>

text \<open>
  \<^verbatim>\<open>itoa\<close> writes the digits from the end of a ten-byte buffer; an index below zero would panic.
\<close>

fun itoa_loop :: "nat \<Rightarrow> u32 \<Rightarrow> string \<Rightarrow> go_panic + string" where
  "itoa_loop i n buf =
     (if n = 0 then Inr (drop i buf)
      else case i of
             0 \<Rightarrow> Inl IndexOutOfRange
           | Suc j \<Rightarrow> itoa_loop j (n div 10) (buf[j := char_of_byte (ucast (48 + n mod 10))]))"

declare itoa_loop.simps [simp del]

definition itoa :: "u32 \<Rightarrow> go_panic + string" where
  "itoa n = (if n = 0 then Inr ''0'' else itoa_loop 10 n (replicate 10 (char_of_byte 0)))"

lemma digit_byte: "d < 10 \<Longrightarrow> char_of_byte (ucast (48 + d :: u32)) = digit_char (unat d)"
proof -
  assume "d < 10"
  then have "unat d \<in> {0, 1, 2, 3, 4, 5, 6, 7, 8, 9}" by (simp add: word_less_nat_alt) presburger
  then have "d \<in> {0, 1, 2, 3, 4, 5, 6, 7, 8, 9}"
    by (simp add: word_unat_eq_iff)
  then show ?thesis by (auto simp: char_of_byte_def digit_char_def)
qed

lemma itoa_loop_decimal:
  assumes "unat n < 10 ^ i" "i \<le> length buf"
  shows "itoa_loop i n buf = Inr ((if n = 0 then [] else decimal (unat n)) @ drop i buf)"
  using assms
proof (induction i arbitrary: n buf)
  case 0
  then show ?case by (simp add: itoa_loop.simps [of 0] word_unat_eq_iff)
next
  case (Suc i)
  let ?c = "char_of_byte (ucast (48 + n mod 10))"
  have div: "unat (n div 10) = unat n div 10" "unat (n mod 10) = unat n mod 10"
    by (simp_all add: unat_div_distrib unat_mod_distrib)
  have c: "?c = digit_char (unat n mod 10)"
    using digit_byte [of "n mod 10"] by (simp add: div word_less_nat_alt)
  have drop: "drop i (buf[i := ?c]) = ?c # drop (Suc i) buf"
    using Suc.prems(2) by (simp add: Cons_nth_drop_Suc [symmetric] drop_update_cancel)
  show ?case
  proof (cases "n = 0")
    case False
    have "itoa_loop (Suc i) n buf = itoa_loop i (n div 10) (buf[i := ?c])"
      using False by (simp add: itoa_loop.simps [of "Suc i"])
    also have "\<dots> = Inr ((if n div 10 = 0 then [] else decimal (unat n div 10)) @ ?c # drop (Suc i) buf)"
      using Suc.IH [of "n div 10" "buf[i := ?c]"] Suc.prems drop by (simp add: div)
    also have "(if n div 10 = 0 then [] else decimal (unat n div 10)) @ ?c # drop (Suc i) buf = decimal (unat n) @ drop (Suc i) buf"
    proof -
      have "n div 10 = 0 \<longleftrightarrow> unat n < 10" by (simp add: word_unat_eq_iff div div_eq_0_iff)
      then show ?thesis by (subst (2) decimal.simps) (auto simp: c)
    qed
    finally show ?thesis using False by simp
  qed (simp add: itoa_loop.simps)
qed

text \<open>The buffer is large enough: \<^verbatim>\<open>itoa\<close> never panics and prints the decimal representation.\<close>

lemma itoa_decimal [simp]: "itoa n = Inr (decimal (unat n))"
proof (cases "n = 0")
  case False
  have "unat n < 2 ^ 32" using unsigned_less [of n, where ?'a = nat] by simp
  then have "unat n < 10 ^ 10" by simp
  from itoa_loop_decimal [OF this, of "replicate 10 (char_of_byte 0)"] False show ?thesis by (simp add: itoa_def)
qed (simp add: itoa_def decimal.simps [of 0])

section \<open>The registry\<close>

type_synonym ref = nat

record TransferRegistry =
  reg_byToken :: "(u32, ref) gomap"
  reg_byRemoteToken :: "(string, ref) gomap"
  reg_byFileKey :: "(string, ref) gomap"
  reg_heap :: "Transfer list"

definition NewTransferRegistry :: TransferRegistry where
  "NewTransferRegistry = \<lparr>reg_byToken = [], reg_byRemoteToken = [], reg_byFileKey = [], reg_heap = []\<rparr>"

abbreviation deref :: "TransferRegistry \<Rightarrow> ref \<Rightarrow> Transfer" where
  "deref r p \<equiv> reg_heap r ! p"

text \<open>Update the transfer a pointer refers to.\<close>

definition modify :: "ref \<Rightarrow> (Transfer \<Rightarrow> Transfer) \<Rightarrow> TransferRegistry \<Rightarrow> TransferRegistry" where
  "modify p f r = r\<lparr>reg_heap := (reg_heap r)[p := f (deref r p)]\<rparr>"

definition fileKey :: "u32 \<Rightarrow> string \<Rightarrow> string \<Rightarrow> string" where
  "fileKey direction username filename = projr (itoa direction) @ '':'' @ username @ '':'' @ filename"

definition remoteKey :: "string \<Rightarrow> u32 \<Rightarrow> string" where
  "remoteKey username remoteToken = username @ '':'' @ projr (itoa remoteToken)"

definition register ::
  "u32 \<Rightarrow> string \<Rightarrow> string \<Rightarrow> u32 \<Rightarrow> i64 \<Rightarrow> TransferRegistry \<Rightarrow> (go_error + ref) \<times> TransferRegistry" where
  "register direction username filename token sz r =
     (let tr = (NewTransfer direction username filename token)\<lparr>t_Size := sz\<rparr>;
          p = length (reg_heap r);
          fileKey = FileKey tr
      in case LoadOrStore fileKey p (reg_byFileKey r) of
           (Some q, _) \<Rightarrow> (Inl (DuplicateTransferError direction username filename), r)
         | (None, byFileKey) \<Rightarrow>
             (case LoadOrStore token p (reg_byToken r) of
                (Some q, _) \<Rightarrow>
                  (Inl (DuplicateTransferError direction username filename),
                   r\<lparr>reg_byFileKey := Delete fileKey byFileKey\<rparr>)
              | (None, byToken) \<Rightarrow>
                  (Inr p, r\<lparr>reg_byFileKey := byFileKey, reg_byToken := byToken, reg_heap := reg_heap r @ [tr]\<rparr>)))"

definition RegisterDownload :: "string \<Rightarrow> string \<Rightarrow> u32 \<Rightarrow> TransferRegistry \<Rightarrow> (go_error + ref) \<times> TransferRegistry" where
  "RegisterDownload username filename token = register TransferDownload username filename token 0"

definition RegisterUpload :: "string \<Rightarrow> string \<Rightarrow> u32 \<Rightarrow> i64 \<Rightarrow> TransferRegistry \<Rightarrow> (go_error + ref) \<times> TransferRegistry" where
  "RegisterUpload username filename token sz = register TransferUpload username filename token sz"

definition GetByToken :: "u32 \<Rightarrow> TransferRegistry \<Rightarrow> ref option" where
  "GetByToken token r = Load token (reg_byToken r)"

definition GetByRemoteToken :: "string \<Rightarrow> u32 \<Rightarrow> TransferRegistry \<Rightarrow> ref option" where
  "GetByRemoteToken username remoteToken r = Load (remoteKey username remoteToken) (reg_byRemoteToken r)"

definition GetByFile :: "string \<Rightarrow> string \<Rightarrow> u32 \<Rightarrow> TransferRegistry \<Rightarrow> ref option" where
  "GetByFile username filename direction r = Load (fileKey direction username filename) (reg_byFileKey r)"

definition SetRemoteToken :: "u32 \<Rightarrow> u32 \<Rightarrow> TransferRegistry \<Rightarrow> go_error option \<times> TransferRegistry" where
  "SetRemoteToken token remoteToken r =
     (case GetByToken token r of
        None \<Rightarrow> (Some (TransferNotFoundError token), r)
      | Some p \<Rightarrow>
          let r = modify p (\<lambda>t. t\<lparr>t_RemoteToken := remoteToken\<rparr>) r;
              key = remoteKey (t_Username (deref r p)) remoteToken
          in (None, r\<lparr>reg_byRemoteToken := Store key p (reg_byRemoteToken r)\<rparr>))"

definition Registry_SetState :: "time \<Rightarrow> u32 \<Rightarrow> TransferState \<Rightarrow> TransferRegistry \<Rightarrow> go_error option \<times> TransferRegistry" where
  "Registry_SetState now token state r =
     (case GetByToken token r of
        None \<Rightarrow> (Some (TransferNotFoundError token), r)
      | Some p \<Rightarrow> (None, modify p (SetState now state) r))"

definition Registry_UpdateProgress :: "time \<Rightarrow> u32 \<Rightarrow> i64 \<Rightarrow> TransferRegistry \<Rightarrow> go_error option \<times> TransferRegistry" where
  "Registry_UpdateProgress now token bytesTransferred r =
     (case GetByToken token r of
        None \<Rightarrow> (Some (TransferNotFoundError token), r)
      | Some p \<Rightarrow> (None, modify p (UpdateProgress now bytesTransferred) r))"

definition SetSize :: "u32 \<Rightarrow> i64 \<Rightarrow> TransferRegistry \<Rightarrow> go_error option \<times> TransferRegistry" where
  "SetSize token sz r =
     (case GetByToken token r of
        None \<Rightarrow> (Some (TransferNotFoundError token), r)
      | Some p \<Rightarrow> (None, modify p (\<lambda>t. t\<lparr>t_Size := sz\<rparr>) r))"

definition Complete :: "time \<Rightarrow> u32 \<Rightarrow> TransferState \<Rightarrow> go_error option \<Rightarrow> TransferRegistry \<Rightarrow> go_error option \<times> TransferRegistry" where
  "Complete now token state err r =
     (case GetByToken token r of
        None \<Rightarrow> (Some (TransferNotFoundError token), r)
      | Some p \<Rightarrow> (None, modify p (SetState now state) (modify p (\<lambda>t. t\<lparr>t_Error := err\<rparr>) r)))"

definition Registry_Remove :: "u32 \<Rightarrow> TransferRegistry \<Rightarrow> go_panic + TransferRegistry" where
  "Registry_Remove token r =
     (case Load token (reg_byToken r) of
        None \<Rightarrow> Inr r
      | Some p \<Rightarrow>
          let r = r\<lparr>reg_byToken := Delete token (reg_byToken r)\<rparr>;
              tr = deref r p;
              r = r\<lparr>reg_byFileKey := Delete (FileKey tr) (reg_byFileKey r)\<rparr>;
              r = (if t_RemoteToken tr \<noteq> 0
                   then r\<lparr>reg_byRemoteToken := Delete (remoteKey (t_Username tr) (t_RemoteToken tr)) (reg_byRemoteToken r)\<rparr>
                   else r)
          in case Transfer_Close tr of
               Inl panic \<Rightarrow> Inl panic
             | Inr tr' \<Rightarrow> Inr (modify p (\<lambda>_. tr') r))"

definition Registry_All :: "TransferRegistry \<Rightarrow> ref list" where
  "Registry_All r = map snd (reg_byToken r)"

definition Downloads :: "TransferRegistry \<Rightarrow> ref list" where
  "Downloads r = filter (\<lambda>p. t_Direction (deref r p) = TransferDownload) (map snd (reg_byToken r))"

definition Uploads :: "TransferRegistry \<Rightarrow> ref list" where
  "Uploads r = filter (\<lambda>p. t_Direction (deref r p) = TransferUpload) (map snd (reg_byToken r))"

section \<open>Keys identify transfers\<close>

lemma fileKey_FileKey: "FileKey t = fileKey (t_Direction t) (t_Username t) (t_Filename t)"
  by (simp add: FileKey_def fileKey_def)

lemma fileKey_inj:
  assumes "CHR '':'' \<notin> set u" "CHR '':'' \<notin> set u'" "fileKey d u f = fileKey d' u' f'"
  shows "d = d' \<and> u = u' \<and> f = f'"
proof -
  have "decimal (unat d) = decimal (unat d') \<and> u @ CHR '':'' # f = u' @ CHR '':'' # f'"
    using assms(3) append_sep_inj [of "CHR '':''" "decimal (unat d)" "decimal (unat d')"] by (simp add: fileKey_def)
  with append_sep_inj [of "CHR '':''" u u' f f'] assms(1,2) show ?thesis by (simp add: word_unat_eq_iff)
qed

lemma remoteKey_inj [simp]: "remoteKey u n = remoteKey u' n' \<longleftrightarrow> u = u' \<and> n = n'"
  using append_sep_inj_last [of "CHR '':''" "decimal (unat n)" "decimal (unat n')" u u']
  by (auto simp: remoteKey_def word_unat_eq_iff)

section \<open>Invariant\<close>

text \<open>
  The indexes agree: a registered token leads to a live transfer with that token, whose progress channel is open and
  which is the one its file key leads to, and conversely.
\<close>

definition token_index_ok :: "TransferRegistry \<Rightarrow> bool" where
  "token_index_ok r \<longleftrightarrow> (\<forall>tok p. Load tok (reg_byToken r) = Some p \<longrightarrow>
     p < length (reg_heap r) \<and> t_Token (deref r p) = tok \<and> open_progress (deref r p) \<and>
     Load (FileKey (deref r p)) (reg_byFileKey r) = Some p)"

definition file_index_ok :: "TransferRegistry \<Rightarrow> bool" where
  "file_index_ok r \<longleftrightarrow> (\<forall>k p. Load k (reg_byFileKey r) = Some p \<longrightarrow>
     p < length (reg_heap r) \<and> FileKey (deref r p) = k \<and> Load (t_Token (deref r p)) (reg_byToken r) = Some p)"

definition reg_ok :: "TransferRegistry \<Rightarrow> bool" where
  "reg_ok r \<longleftrightarrow> map_ok (reg_byToken r) \<and> map_ok (reg_byFileKey r) \<and> map_ok (reg_byRemoteToken r) \<and>
     token_index_ok r \<and> file_index_ok r"

lemmas reg_ok_defs = reg_ok_def token_index_ok_def file_index_ok_def

lemma reg_ok_tokenD:
  assumes "reg_ok r" "GetByToken tok r = Some p"
  shows "p < length (reg_heap r)" "t_Token (deref r p) = tok" "open_progress (deref r p)"
    "Load (FileKey (deref r p)) (reg_byFileKey r) = Some p"
  using assms by (auto simp: reg_ok_defs GetByToken_def)

lemma reg_ok_fileD:
  assumes "reg_ok r" "Load k (reg_byFileKey r) = Some p"
  shows "p < length (reg_heap r)" "FileKey (deref r p) = k" "GetByToken (t_Token (deref r p)) r = Some p"
  using assms by (auto simp: reg_ok_defs GetByToken_def)

lemma reg_ok_new: "reg_ok NewTransferRegistry"
  by (simp add: reg_ok_defs NewTransferRegistry_def)

lemma modify_simps [simp]:
  "reg_byToken (modify p f r) = reg_byToken r" "reg_byFileKey (modify p f r) = reg_byFileKey r"
  "reg_byRemoteToken (modify p f r) = reg_byRemoteToken r" "length (reg_heap (modify p f r)) = length (reg_heap r)"
  "GetByToken t (modify p f r) = GetByToken t r" "GetByFile u fn d (modify p f r) = GetByFile u fn d r"
  by (simp_all add: modify_def GetByToken_def GetByFile_def)

lemma deref_modify:
  "q < length (reg_heap r) \<Longrightarrow> deref (modify p f r) q = (if p = q then f (deref r p) else deref r q)"
  by (auto simp: modify_def nth_list_update)

text \<open>A change that keeps what a transfer is, and its progress channel open.\<close>

definition benign :: "(Transfer \<Rightarrow> Transfer) \<Rightarrow> bool" where
  "benign f \<longleftrightarrow> (\<forall>t. identity (f t) = identity t \<and> (open_progress t \<longrightarrow> open_progress (f t)))"

lemma benign_updates [simp]:
  "benign (SetState now s)" "benign (UpdateProgress now b)" "benign (\<lambda>t. t\<lparr>t_Size := sz\<rparr>)"
  "benign (\<lambda>t. t\<lparr>t_Error := e\<rparr>)" "benign (\<lambda>t. t\<lparr>t_RemoteToken := k\<rparr>)" "benign InitDownloadChannels"
  by (simp_all add: benign_def open_progress_def) (simp_all add: identity_def InitDownloadChannels_def)

lemma reg_ok_modify:
  assumes "reg_ok r" "benign f"
  shows "reg_ok (modify p f r)"
proof -
  have "identity (f t) = identity t" for t using assms(2) by (simp add: benign_def)
  then have same: "t_Token (f t) = t_Token t" "FileKey (f t) = FileKey t" for t
    by (simp add: identity_def, intro FileKey_identity)
  have "open_progress t \<Longrightarrow> open_progress (f t)" for t using assms(2) by (simp add: benign_def)
  with assms(1) show ?thesis by (auto simp: reg_ok_defs deref_modify same)
qed

lemma reg_ok_remote: "reg_ok r \<Longrightarrow> map_ok m \<Longrightarrow> reg_ok (r\<lparr>reg_byRemoteToken := m\<rparr>)"
  by (simp add: reg_ok_defs)

section \<open>Registering and removing\<close>

lemma FileKey_new [simp]:
  "FileKey ((NewTransfer d u f t)\<lparr>t_Size := sz\<rparr>) = fileKey d u f"
  by (simp add: fileKey_FileKey NewTransfer_def)

lemma register_duplicate:
  assumes "reg_ok r" "GetByFile u f d r \<noteq> None \<or> GetByToken t r \<noteq> None"
  shows "register d u f t sz r = (Inl (DuplicateTransferError d u f), r)"
  using assms
  by (auto simp: register_def LoadOrStore_def GetByFile_def GetByToken_def Let_def Delete_Store split: option.splits)

lemma register_fresh:
  assumes "GetByFile u f d r = None" "GetByToken t r = None"
  shows "register d u f t sz r =
     (Inr (length (reg_heap r)),
      r\<lparr>reg_byFileKey := Store (fileKey d u f) (length (reg_heap r)) (reg_byFileKey r),
        reg_byToken := Store t (length (reg_heap r)) (reg_byToken r),
        reg_heap := reg_heap r @ [(NewTransfer d u f t)\<lparr>t_Size := sz\<rparr>]\<rparr>)"
  using assms by (simp add: register_def LoadOrStore_def GetByFile_def GetByToken_def Let_def)

lemma reg_ok_register: "reg_ok r \<Longrightarrow> reg_ok (snd (register d u f t sz r))"
proof (cases "GetByFile u f d r \<noteq> None \<or> GetByToken t r \<noteq> None")
  case False
  assume ok: "reg_ok r"
  let ?tr = "(NewTransfer d u f t)\<lparr>t_Size := sz\<rparr>" and ?n = "length (reg_heap r)"
  have new: "t_Token ?tr = t" "open_progress ?tr" by (simp_all add: NewTransfer_def open_progress_def)
  have free: "Load (fileKey d u f) (reg_byFileKey r) = None" "Load t (reg_byToken r) = None"
    using False by (simp_all add: GetByToken_def GetByFile_def)
  obtain r' where r': "r' = snd (register d u f t sz r)" by simp
  have fields: "reg_byFileKey r' = Store (fileKey d u f) ?n (reg_byFileKey r)"
    "reg_byToken r' = Store t ?n (reg_byToken r)" "reg_heap r' = reg_heap r @ [?tr]"
    "reg_byRemoteToken r' = reg_byRemoteToken r"
    using False by (simp_all add: r' register_fresh)
  have "token_index_ok r'"
    unfolding token_index_ok_def
  proof (intro allI impI)
    fix tok p assume *: "Load tok (reg_byToken r') = Some p"
    show "p < length (reg_heap r') \<and> t_Token (deref r' p) = tok \<and> open_progress (deref r' p) \<and>
        Load (FileKey (deref r' p)) (reg_byFileKey r') = Some p"
    proof (cases "tok = t")
      case False
      then have "GetByToken tok r = Some p" using * by (simp add: fields GetByToken_def)
      from reg_ok_tokenD [OF ok this] free(1) show ?thesis by (auto simp: fields nth_append)
    qed (use * new in \<open>simp add: fields nth_append\<close>)
  qed
  moreover have "file_index_ok r'"
    unfolding file_index_ok_def
  proof (intro allI impI)
    fix k p assume *: "Load k (reg_byFileKey r') = Some p"
    show "p < length (reg_heap r') \<and> FileKey (deref r' p) = k \<and> Load (t_Token (deref r' p)) (reg_byToken r') = Some p"
    proof (cases "k = fileKey d u f")
      case False
      then have "Load k (reg_byFileKey r) = Some p" using * by (simp add: fields)
      from reg_ok_fileD [OF ok this] free(2) show ?thesis by (auto simp: fields nth_append GetByToken_def)
    qed (use * new in \<open>simp add: fields nth_append\<close>)
  qed
  ultimately show ?thesis using ok fields by (simp add: reg_ok_def r' [symmetric])
qed (simp add: register_duplicate)

lemma Remove_absent: "GetByToken t r = None \<Longrightarrow> Registry_Remove t r = Inr r"
  by (simp add: Registry_Remove_def GetByToken_def)

lemma Remove_present:
  assumes "reg_ok r" "GetByToken t r = Some p"
  shows "\<exists>r'. Registry_Remove t r = Inr r' \<and> reg_byToken r' = Delete t (reg_byToken r) \<and>
     reg_byFileKey r' = Delete (FileKey (deref r p)) (reg_byFileKey r) \<and>
     reg_byRemoteToken r' = (if t_RemoteToken (deref r p) \<noteq> 0
        then Delete (remoteKey (t_Username (deref r p)) (t_RemoteToken (deref r p))) (reg_byRemoteToken r)
        else reg_byRemoteToken r) \<and>
     (\<exists>ch. reg_heap r' = (reg_heap r)[p := (deref r p)\<lparr>t_progressCh := ch\<rparr>])"
  using reg_ok_tokenD [OF assms] assms(2)
  by (auto simp: Registry_Remove_def GetByToken_def Transfer_Close_def close_chan_def open_progress_def Let_def modify_def)

lemma reg_ok_Remove:
  assumes "reg_ok r" "Registry_Remove t r = Inr r'"
  shows "reg_ok r'"
proof (cases "GetByToken t r")
  case (Some p)
  obtain ch where r': "reg_byToken r' = Delete t (reg_byToken r)"
    "reg_byFileKey r' = Delete (FileKey (deref r p)) (reg_byFileKey r)"
    "map_ok (reg_byRemoteToken r')" "reg_heap r' = (reg_heap r)[p := (deref r p)\<lparr>t_progressCh := ch\<rparr>]"
    using Remove_present [OF assms(1) Some] assms by (auto simp: reg_ok_def split: if_splits)
  have p: "p < length (reg_heap r)" "t_Token (deref r p) = t" "Load t (reg_byToken r) = Some p"
    using reg_ok_tokenD [OF assms(1) Some] Some by (simp_all add: GetByToken_def)
  have other: "q \<noteq> p" if "Load tok (reg_byToken r) = Some q" "tok \<noteq> t" for q tok
    using that reg_ok_tokenD(2) [OF assms(1), of tok q] p(2) by (auto simp: GetByToken_def)
  have other': "q \<noteq> p" if "Load k (reg_byFileKey r) = Some q" "k \<noteq> FileKey (deref r p)" for q k
    using that reg_ok_fileD(2) [OF assms(1)] by blast
  have key: "FileKey (deref r q) \<noteq> FileKey (deref r p)" if "Load tok (reg_byToken r) = Some q" "tok \<noteq> t" for q tok
    using that other [OF that] reg_ok_tokenD(4) [OF assms(1), of tok q] reg_ok_tokenD(4) [OF assms(1) Some]
    by (auto simp: GetByToken_def)
  have tok: "t_Token (deref r q) \<noteq> t" if "Load k (reg_byFileKey r) = Some q" "k \<noteq> FileKey (deref r p)" for q k
    using that other' [OF that] reg_ok_fileD(3) [OF assms(1), of k q] p(3) by (auto simp: GetByToken_def)
  have heap: "deref r' q = deref r q" if "q \<noteq> p" for q using that by (simp add: r')
  have "token_index_ok r'"
    unfolding token_index_ok_def
  proof (intro allI impI)
    fix tok q assume "Load tok (reg_byToken r') = Some q"
    then have q: "Load tok (reg_byToken r) = Some q" "tok \<noteq> t" by (auto simp: r' split: if_splits)
    with reg_ok_tokenD [OF assms(1), of tok q] key [OF q] heap [OF other [OF q]]
    show "q < length (reg_heap r') \<and> t_Token (deref r' q) = tok \<and> open_progress (deref r' q) \<and>
        Load (FileKey (deref r' q)) (reg_byFileKey r') = Some q"
      by (simp add: r' GetByToken_def)
  qed
  moreover have "file_index_ok r'"
    unfolding file_index_ok_def
  proof (intro allI impI)
    fix k q assume "Load k (reg_byFileKey r') = Some q"
    then have q: "Load k (reg_byFileKey r) = Some q" "k \<noteq> FileKey (deref r p)" by (auto simp: r' split: if_splits)
    with reg_ok_fileD [OF assms(1), of k q] tok [OF q] heap [OF other' [OF q]]
    show "q < length (reg_heap r') \<and> FileKey (deref r' q) = k \<and> Load (t_Token (deref r' q)) (reg_byToken r') = Some q"
      by (simp add: r' GetByToken_def)
  qed
  ultimately show ?thesis using assms(1) r' by (simp add: reg_ok_def)
qed (use assms Remove_absent in auto)


section \<open>The interface of the registry\<close>

text \<open>
  What the download and upload sides rely on: a file is registered at most once per direction, a refused registration
  changes nothing, a registered transfer is found by token and by file until it is removed, and removing is safe.
\<close>

locale transfer_index =
  fixes ok :: "'r \<Rightarrow> bool"
    and by_token :: "u32 \<Rightarrow> 'r \<Rightarrow> ref option"
    and by_file :: "string \<Rightarrow> string \<Rightarrow> u32 \<Rightarrow> 'r \<Rightarrow> ref option"
    and add :: "u32 \<Rightarrow> string \<Rightarrow> string \<Rightarrow> u32 \<Rightarrow> i64 \<Rightarrow> 'r \<Rightarrow> (go_error + ref) \<times> 'r"
    and remove :: "u32 \<Rightarrow> 'r \<Rightarrow> go_panic + 'r"
  assumes add_dup: "ok r \<Longrightarrow> by_file u f d r \<noteq> None \<or> by_token t r \<noteq> None \<Longrightarrow>
        add d u f t sz r = (Inl (DuplicateTransferError d u f), r)"
    and add_new: "ok r \<Longrightarrow> by_file u f d r = None \<Longrightarrow> by_token t r = None \<Longrightarrow>
        \<exists>p r'. add d u f t sz r = (Inr p, r') \<and> ok r' \<and> by_file u f d r' = Some p \<and>
          (\<forall>t'. by_token t' r' = (if t' = t then Some p else by_token t' r))"
    and remove_ok: "ok r \<Longrightarrow> \<exists>r'. remove t r = Inr r' \<and> ok r' \<and>
          (\<forall>t'. by_token t' r' = (if t' = t then None else by_token t' r))"
    and remove_file: "ok r \<Longrightarrow> by_file u f d r = Some p \<Longrightarrow> by_token t r = Some p \<Longrightarrow>
          \<exists>r'. remove t r = Inr r' \<and> by_file u f d r' = None"
begin

lemma add_success:
  assumes "ok r" "add d u f t sz r = (Inr p, r')"
  shows "by_file u f d r = None" "by_token t r = None" "ok r'" "by_file u f d r' = Some p"
    "by_token t' r' = (if t' = t then Some p else by_token t' r)"
proof -
  show free: "by_file u f d r = None" "by_token t r = None"
    using add_dup [OF assms(1), of u f d t sz] assms(2) by fastforce+
  from add_new [OF assms(1) free, of sz] assms(2)
  show "ok r'" "by_file u f d r' = Some p" "by_token t' r' = (if t' = t then Some p else by_token t' r)" by auto
qed

text \<open>A second registration of the same file is refused until the first transfer is removed; then it succeeds.\<close>

lemma add_twice:
  assumes "ok r" "add d u f t sz r = (Inr p, r')"
  shows "add d u f t' sz' r' = (Inl (DuplicateTransferError d u f), r')"
  using add_success [OF assms] by (intro add_dup) auto

lemma add_again_after_remove:
  assumes "ok r" "add d u f t sz r = (Inr p, r1)"
  shows "\<exists>r2. remove t r1 = Inr r2 \<and> by_token t r2 = None \<and> by_file u f d r2 = None \<and>
           (\<exists>p' r3. add d u f t sz' r2 = (Inr p', r3) \<and> by_file u f d r3 = Some p' \<and> by_token t r3 = Some p')"
proof -
  have r1: "ok r1" "by_file u f d r1 = Some p" "by_token t r1 = Some p" using add_success [OF assms] by auto
  obtain r2 where r2: "remove t r1 = Inr r2" "ok r2" "by_token t r2 = None" using remove_ok [OF r1(1), of t] by auto
  have "by_file u f d r2 = None" using remove_file [OF r1] r2(1) by auto
  with add_new [OF r2(2) this r2(3), of sz'] r2 show ?thesis by auto
qed

lemma remove_twice:
  assumes "ok r" "remove t r = Inr r1"
  shows "\<exists>r2. remove t r1 = Inr r2 \<and> (\<forall>t'. by_token t' r2 = by_token t' r1)"
proof -
  have r1: "ok r1" "\<forall>t'. by_token t' r1 = (if t' = t then None else by_token t' r)"
    using remove_ok [OF assms(1), of t] assms(2) by auto
  from remove_ok [OF r1(1), of t] r1(2) show ?thesis by auto
qed

end

interpretation reg: transfer_index reg_ok GetByToken GetByFile register Registry_Remove
proof
  fix r u f d t sz p
  assume ok: "reg_ok r"
  show "register d u f t sz r = (Inl (DuplicateTransferError d u f), r)"
    if "GetByFile u f d r \<noteq> None \<or> GetByToken t r \<noteq> None"
    using ok that by (rule register_duplicate)
  show "\<exists>p r'. register d u f t sz r = (Inr p, r') \<and> reg_ok r' \<and> GetByFile u f d r' = Some p \<and>
          (\<forall>t'. GetByToken t' r' = (if t' = t then Some p else GetByToken t' r))"
    if "GetByFile u f d r = None" "GetByToken t r = None"
    using reg_ok_register [OF ok, of d u f t sz] register_fresh [OF that, of sz]
    by (auto simp: GetByToken_def GetByFile_def)
  show "\<exists>r'. Registry_Remove t r = Inr r' \<and> reg_ok r' \<and>
          (\<forall>t'. GetByToken t' r' = (if t' = t then None else GetByToken t' r))"
  proof (cases "GetByToken t r")
    case None
    then show ?thesis using ok by (auto simp: Remove_absent)
  next
    case (Some q)
    from Remove_present [OF ok Some] obtain r' where
      "Registry_Remove t r = Inr r'" "reg_byToken r' = Delete t (reg_byToken r)" by blast
    with reg_ok_Remove [OF ok this(1)] show ?thesis by (auto simp: GetByToken_def)
  qed
  show "\<exists>r'. Registry_Remove t r = Inr r' \<and> GetByFile u f d r' = None"
    if "GetByFile u f d r = Some p" "GetByToken t r = Some p"
    using Remove_present [OF ok that(2)] reg_ok_fileD(2) [OF ok, of "fileKey d u f" p] that(1)
    by (auto simp: GetByFile_def)
qed

section \<open>Reachable registries\<close>

text \<open>
  Any interleaving of the registry's operations, with the goroutines that own transfers changing them in between:
  \<open>mutate\<close> stands for every change that keeps a transfer's identity and does not close its progress channel.
\<close>

inductive reg_reachable :: "TransferRegistry \<Rightarrow> bool" where
  start: "reg_reachable NewTransferRegistry"
| register: "reg_reachable r \<Longrightarrow> reg_reachable (snd (register d u f t sz r))"
| set_remote_token: "reg_reachable r \<Longrightarrow> reg_reachable (snd (SetRemoteToken t k r))"
| set_state: "reg_reachable r \<Longrightarrow> reg_reachable (snd (Registry_SetState now t s r))"
| update_progress: "reg_reachable r \<Longrightarrow> reg_reachable (snd (Registry_UpdateProgress now t b r))"
| set_size: "reg_reachable r \<Longrightarrow> reg_reachable (snd (SetSize t sz r))"
| complete: "reg_reachable r \<Longrightarrow> reg_reachable (snd (Complete now t s e r))"
| remove: "reg_reachable r \<Longrightarrow> Registry_Remove t r = Inr r' \<Longrightarrow> reg_reachable r'"
| mutate: "reg_reachable r \<Longrightarrow> benign f \<Longrightarrow> reg_reachable (modify p f r)"

lemma reg_ok_updates:
  assumes "reg_ok r"
  shows "reg_ok (snd (SetRemoteToken t k r))" "reg_ok (snd (Registry_SetState now t s r))"
    "reg_ok (snd (Registry_UpdateProgress now t b r))" "reg_ok (snd (SetSize t sz r))"
    "reg_ok (snd (Complete now t s e r))"
  using assms
  by (auto simp: SetRemoteToken_def Registry_SetState_def Registry_UpdateProgress_def SetSize_def Complete_def Let_def
      reg_ok_def [THEN iffD1, THEN conjunct1] split: option.splits intro!: reg_ok_modify reg_ok_remote)
    (simp add: reg_ok_def)

lemma reg_reachable_ok: "reg_reachable r \<Longrightarrow> reg_ok r"
  by (induction rule: reg_reachable.induct)
    (simp_all add: reg_ok_new reg_ok_register reg_ok_updates reg_ok_Remove reg_ok_modify)

text \<open>
  C10: The registry is consistent in every state it can reach. Whatever operations have run, in whatever order: a token
  leads to the transfer that was registered with it, whose progress channel is still open; the same transfer is found
  under its direction, user and file name, and nothing else is; removing a token (known or not) never panics, although
  it closes the progress channel; and every listed transfer is an upload or a download that its token leads to.
\<close>

theorem registry_consistent:
  assumes "reg_reachable r"
  shows "(\<forall>t p. GetByToken t r = Some p \<longrightarrow> t_Token (deref r p) = t \<and> open_progress (deref r p) \<and>
            GetByFile (t_Username (deref r p)) (t_Filename (deref r p)) (t_Direction (deref r p)) r = Some p)
       \<and> (\<forall>u f d p. GetByFile u f d r = Some p \<longrightarrow>
            GetByToken (t_Token (deref r p)) r = Some p \<and> FileKey (deref r p) = fileKey d u f)
       \<and> (\<forall>t. \<exists>r'. Registry_Remove t r = Inr r' \<and> GetByToken t r' = None)
       \<and> (\<forall>p\<in>set (Registry_All r). GetByToken (t_Token (deref r p)) r = Some p)"
proof (intro conjI allI impI ballI)
  note ok = reg_reachable_ok [OF assms]
  fix t p
  assume t: "GetByToken t r = Some p"
  show "t_Token (deref r p) = t" "open_progress (deref r p)" using reg_ok_tokenD [OF ok t] by simp_all
  show "GetByFile (t_Username (deref r p)) (t_Filename (deref r p)) (t_Direction (deref r p)) r = Some p"
    using reg_ok_tokenD(4) [OF ok t] by (simp add: GetByFile_def fileKey_FileKey)
next
  note ok = reg_reachable_ok [OF assms]
  fix u f d p
  assume "GetByFile u f d r = Some p"
  then have "Load (fileKey d u f) (reg_byFileKey r) = Some p" by (simp add: GetByFile_def)
  from reg_ok_fileD [OF ok this]
  show "GetByToken (t_Token (deref r p)) r = Some p" "FileKey (deref r p) = fileKey d u f" by simp_all
next
  fix t
  show "\<exists>r'. Registry_Remove t r = Inr r' \<and> GetByToken t r' = None"
    using reg.remove_ok [OF reg_reachable_ok [OF assms], of t] by auto
next
  note ok = reg_reachable_ok [OF assms]
  fix p
  assume "p \<in> set (Registry_All r)"
  then obtain t where "(t, p) \<in> set (reg_byToken r)" by (auto simp: Registry_All_def)
  then have "GetByToken t r = Some p" using ok by (simp add: GetByToken_def Load_iff reg_ok_def)
  with reg_ok_tokenD(2) [OF ok this] show "GetByToken (t_Token (deref r p)) r = Some p" by simp
qed

definition demo_registry :: TransferRegistry where
  "demo_registry = snd (RegisterUpload ''bob'' ''b.mp3'' 2 99 (snd (RegisterDownload ''alice'' ''a.mp3'' 1 NewTransferRegistry)))"

lemma demo_registry_reachable: "reg_reachable demo_registry"
  unfolding demo_registry_def RegisterUpload_def RegisterDownload_def
  by (intro reg_reachable.intros)

lemma demo_registry_values [simp]:
  "GetByToken 1 demo_registry = Some 0" "GetByToken 2 demo_registry = Some 1"
  by code_simp+

theorem registry_consistent_witness:
  "GetByFile ''bob'' ''b.mp3'' TransferUpload demo_registry = Some 1 \<and> open_progress (deref demo_registry 1)
   \<and> (\<exists>r'. Registry_Remove 2 demo_registry = Inr r' \<and> GetByToken 2 r' = None)"
proof -
  have "t_Username (deref demo_registry 1) = ''bob''" "t_Filename (deref demo_registry 1) = ''b.mp3''"
    "t_Direction (deref demo_registry 1) = TransferUpload" by code_simp+
  with registry_consistent [OF demo_registry_reachable] demo_registry_values(2) show ?thesis by metis
qed


text \<open>
  No file is transferred twice at the same time. Once a transfer is registered, every further registration of the
  same direction, user and file name is refused with a duplicate error and leaves the registry exactly as it was (a
  token collision too, where the file key has to be rolled back); after the transfer is removed the file can be
  registered again, under the same token.
\<close>

theorem registry_no_duplicates:
  assumes "reg_reachable r" "register d u f t sz r = (Inr p, r1)"
  shows "register d u f t' sz' r1 = (Inl (DuplicateTransferError d u f), r1)
       \<and> register d' u' f' t sz' r1 = (Inl (DuplicateTransferError d' u' f'), r1)
       \<and> (\<exists>r2 p' r3. Registry_Remove t r1 = Inr r2 \<and> register d u f t sz' r2 = (Inr p', r3) \<and>
            GetByFile u f d r3 = Some p' \<and> GetByToken t r3 = Some p')"
proof (intro conjI)
  note ok = reg_reachable_ok [OF assms(1)]
  show "register d u f t' sz' r1 = (Inl (DuplicateTransferError d u f), r1)"
    using ok assms(2) by (rule reg.add_twice)
  have "reg_ok r1" "GetByToken t r1 \<noteq> None" using reg.add_success [OF ok assms(2)] by auto
  then show "register d' u' f' t sz' r1 = (Inl (DuplicateTransferError d' u' f'), r1)"
    by (intro register_duplicate) auto
  show "\<exists>r2 p' r3. Registry_Remove t r1 = Inr r2 \<and> register d u f t sz' r2 = (Inr p', r3) \<and>
            GetByFile u f d r3 = Some p' \<and> GetByToken t r3 = Some p'"
    using reg.add_again_after_remove [OF ok assms(2), of sz'] by blast
qed

theorem registry_no_duplicates_witness:
  "\<exists>r1. register TransferDownload ''carol'' ''c.mp3'' 3 0 demo_registry = (Inr 2, r1)
     \<and> register TransferDownload ''carol'' ''c.mp3'' 4 0 r1
         = (Inl (DuplicateTransferError TransferDownload ''carol'' ''c.mp3''), r1)"
proof -
  have "\<exists>r1. register TransferDownload ''carol'' ''c.mp3'' 3 0 demo_registry = (Inr 2, r1)"
  proof -
    have "fst (register TransferDownload ''carol'' ''c.mp3'' 3 0 demo_registry) = Inr 2" by code_simp
    then show ?thesis by (metis prod.collapse)
  qed
  then obtain r1 where r1: "register TransferDownload ''carol'' ''c.mp3'' 3 0 demo_registry = (Inr 2, r1)" ..
  with registry_no_duplicates [OF demo_registry_reachable r1, of 4 0] show ?thesis by blast
qed

section \<open>Remote tokens\<close>

lemma GetByToken_inj:
  "reg_ok r \<Longrightarrow> GetByToken t r = Some p \<Longrightarrow> GetByToken t' r = Some p \<Longrightarrow> t = t'"
  using reg_ok_tokenD(2) by metis

text \<open>
  C33: Lookup by the peer's token. When a registered transfer is given a remote token, whatever remote token it has or had, it is found
  under its peer's name and that token, and every other lookup is unchanged: the keys never mix up two peers or two tokens,
  whatever the user names contain. When the transfer is removed, its entry goes with it if the token is not zero. But only this
  entry goes: an earlier token of the transfer, or the token zero, still leads to the transfer after it has been removed.
\<close>

theorem remote_token_lookup:
  assumes "reg_reachable r" "GetByToken t r = Some p"
  shows "fst (SetRemoteToken t k r) = None
       \<and> (\<forall>u k'. GetByRemoteToken u k' (snd (SetRemoteToken t k r)) =
             (if u = t_Username (deref r p) \<and> k' = k then Some p else GetByRemoteToken u k' r))
       \<and> (\<exists>r'. Registry_Remove t (snd (SetRemoteToken t k r)) = Inr r' \<and>
             (\<forall>u k'. GetByRemoteToken u k' r' =
                (if u = t_Username (deref r p) \<and> k' = k then if k = 0 then Some p else None else GetByRemoteToken u k' r)))"
proof -
  note ok = reg_reachable_ok [OF assms(1)]
  let ?r = "snd (SetRemoteToken t k r)"
  have set: "fst (SetRemoteToken t k r) = None" "GetByToken t ?r = Some p"
      "reg_byRemoteToken ?r = Store (remoteKey (t_Username (deref r p)) k) p (reg_byRemoteToken r)"
      "deref ?r p = (deref r p)\<lparr>t_RemoteToken := k\<rparr>"
    using assms(2) reg_ok_tokenD(1) [OF ok assms(2)] by (simp_all add: SetRemoteToken_def Let_def modify_def GetByToken_def)
  have look: "GetByRemoteToken u k' ?r = (if u = t_Username (deref r p) \<and> k' = k then Some p else GetByRemoteToken u k' r)" for u k'
    by (simp add: GetByRemoteToken_def set(3))
  have "reg_ok ?r" using ok by (rule reg_ok_updates)
  from Remove_present [OF this set(2)] obtain r' where r': "Registry_Remove t ?r = Inr r'"
    "reg_byRemoteToken r' = (if k \<noteq> 0 then Delete (remoteKey (t_Username (deref r p)) k) (reg_byRemoteToken ?r) else reg_byRemoteToken ?r)"
    by (auto simp: set(4))
  have "GetByRemoteToken u k' r' = (if u = t_Username (deref r p) \<and> k' = k \<and> k \<noteq> 0 then None else GetByRemoteToken u k' ?r)" for u k'
    by (simp add: GetByRemoteToken_def r'(2))
  with r'(1) set(1) look show ?thesis by (intro conjI exI [of _ r']) auto
qed

theorem remote_token_lookup_witness:
  "let r = snd (SetRemoteToken 2 78 (snd (SetRemoteToken 2 77 demo_registry)))
   in GetByRemoteToken ''bob'' 78 r = Some 1 \<and> (\<exists>r'. Registry_Remove 2 r = Inr r' \<and> GetByRemoteToken ''bob'' 78 r' = None \<and> GetByRemoteToken ''bob'' 77 r' = Some 1)"
proof -
  let ?r = "snd (SetRemoteToken 2 77 demo_registry)"
  have "reg_reachable ?r" using reg_reachable.set_remote_token [OF demo_registry_reachable] by simp
  moreover have "GetByToken 2 ?r = Some 1" "t_Username (deref ?r 1) = ''bob''" "GetByRemoteToken ''bob'' 77 ?r = Some 1" by code_simp+
  ultimately show ?thesis using remote_token_lookup [of ?r 2 1 78] by (auto simp: Let_def)
qed

text \<open>
  Keys. \<^verbatim>\<open>itoa\<close> never runs out of its ten-byte buffer and prints exactly the decimal digits \<^verbatim>\<open>fmt\<close> prints, so the key
  \<^verbatim>\<open>Transfer.FileKey\<close> formats with \<^verbatim>\<open>Sprintf\<close> is the one the registry looks up, and likewise for remote tokens.
  Two file keys of users without a colon in their names are equal only for the same direction, user and file, but a
  colon in a user name lets two different files share a key.
\<close>

theorem registry_keys:
  "itoa n = Inr (decimal (unat n)) \<and> FileKey tr = fileKey (t_Direction tr) (t_Username tr) (t_Filename tr)
   \<and> RemoteTokenKey tr = remoteKey (t_Username tr) (t_RemoteToken tr)
   \<and> (CHR '':'' \<notin> set u \<and> CHR '':'' \<notin> set u' \<longrightarrow> (fileKey d u f = fileKey d' u' f') = ((d, u, f) = (d', u', f')))
   \<and> fileKey d ''a'' ''b:c'' = fileKey d ''a:b'' ''c''"
  using fileKey_inj [of u u' d f d' f']
  by (auto simp: fileKey_FileKey RemoteTokenKey_def remoteKey_def) (simp add: fileKey_def)

theorem registry_keys_witness:
  "itoa 4294967295 = Inr ''4294967295'' \<and> (fileKey 0 ''bob'' ''x'' = fileKey 1 ''bob'' ''x'') = False"
  using registry_keys [of 4294967295 undefined "''bob''" "''bob''" 0 "''x''" 1 "''x''"]
  by (simp add: decimal.simps)

end
