(* ===== verification/Router.thy ===== *)
theory Router
  imports GoRuntime
begin

text \<open>
  \<^verbatim>\<open>src/client/router.go\<close>: handlers by message code. Each code has a slice of entries; since \<^verbatim>\<open>Dispatch\<close> keeps using
  the slice it read after releasing the lock, slices are modelled with their backing arrays: \<^verbatim>\<open>append\<close> writes into the array
  while it has room and copies otherwise, and \<^verbatim>\<open>append(entries[:i], entries[i+1:]...)\<close> shifts the array in place. How much an
  array grows is left open by Go and a parameter here (\<open>grow\<close>). A handler is a handle; the global id counter is a field.
\<close>

section \<open>Slices over arrays\<close>

record handlerEntry =
  he_id :: u64
  he_handler :: nat

record slice =
  sl_arr :: nat
  sl_len :: nat

record MessageRouter =
  rt_handlers :: "(u32, slice) gomap"
  rt_arrays :: "handlerEntry list list" \<comment> \<open>a list's length is the capacity of the array\<close>
  rt_counter :: u64 \<comment> \<open>\<open>handlerIDCounter\<close>\<close>

definition NewMessageRouter :: "u64 \<Rightarrow> MessageRouter" where
  "NewMessageRouter counter = \<lparr>rt_handlers = [], rt_arrays = [], rt_counter = counter\<rparr>"

definition zeroEntry :: handlerEntry where
  "zeroEntry = \<lparr>he_id = 0, he_handler = 0\<rparr>"

text \<open>The entries a slice shows.\<close>

definition view :: "MessageRouter \<Rightarrow> slice \<Rightarrow> handlerEntry list" where
  "view r s = take (sl_len s) (rt_arrays r ! sl_arr s)"

section \<open>Operations\<close>

text \<open>\<^verbatim>\<open>append(s, e)\<close> on the slice of \<open>code\<close>, nil if there is none.\<close>

definition append_entry :: "(nat \<Rightarrow> nat) \<Rightarrow> u32 \<Rightarrow> handlerEntry \<Rightarrow> MessageRouter \<Rightarrow> MessageRouter" where
  "append_entry grow code e r =
     (let fresh = (\<lambda>old. r\<lparr>rt_arrays := rt_arrays r @ [old @ e # replicate (grow (length old)) zeroEntry],
                          rt_handlers := Store code \<lparr>sl_arr = length (rt_arrays r), sl_len = length old + 1\<rparr> (rt_handlers r)\<rparr>)
      in case Load code (rt_handlers r) of
           None \<Rightarrow> fresh []
         | Some s \<Rightarrow>
             if sl_len s < length (rt_arrays r ! sl_arr s)
             then r\<lparr>rt_arrays := (rt_arrays r)[sl_arr s := (rt_arrays r ! sl_arr s)[sl_len s := e]],
                    rt_handlers := Store code (s\<lparr>sl_len := sl_len s + 1\<rparr>) (rt_handlers r)\<rparr>
             else fresh (view r s))"

definition Router_Register :: "(nat \<Rightarrow> nat) \<Rightarrow> u32 \<Rightarrow> nat \<Rightarrow> MessageRouter \<Rightarrow> u64 \<times> MessageRouter" where
  "Router_Register grow code h r =
     (let hid = rt_counter r + 1;
          r = r\<lparr>rt_counter := hid\<rparr>
      in (hid, append_entry grow code \<lparr>he_id = hid, he_handler = h\<rparr> r))"

text \<open>The search for the entry with an id.\<close>

fun entry_index :: "u64 \<Rightarrow> handlerEntry list \<Rightarrow> nat option" where
  "entry_index hid [] = None"
| "entry_index hid (e # es) = (if he_id e = hid then Some 0 else map_option Suc (entry_index hid es))"

text \<open>\<^verbatim>\<open>append(entries[:i], entries[i+1:]...)\<close>: elements \<open>i+1 .. len-1\<close> move down by one, the array keeps its last one.\<close>

definition shift_down :: "nat \<Rightarrow> nat \<Rightarrow> 'a list \<Rightarrow> 'a list" where
  "shift_down i len a = take i a @ drop (i + 1) (take len a) @ drop (len - 1) a"

definition Unregister :: "u32 \<Rightarrow> u64 \<Rightarrow> MessageRouter \<Rightarrow> bool \<times> MessageRouter" where
  "Unregister code hid r =
     (case Load code (rt_handlers r) of
        None \<Rightarrow> (False, r)
      | Some s \<Rightarrow>
          (case entry_index hid (view r s) of
             None \<Rightarrow> (False, r)
           | Some i \<Rightarrow>
               (True, r\<lparr>rt_arrays := (rt_arrays r)[sl_arr s := shift_down i (sl_len s) (rt_arrays r ! sl_arr s)],
                        rt_handlers := Store code (s\<lparr>sl_len := sl_len s - 1\<rparr>) (rt_handlers r)\<rparr>)))"

definition UnregisterAll :: "u32 \<Rightarrow> MessageRouter \<Rightarrow> MessageRouter" where
  "UnregisterAll code r = r\<lparr>rt_handlers := Delete code (rt_handlers r)\<rparr>"

definition HasHandler :: "u32 \<Rightarrow> MessageRouter \<Rightarrow> bool" where
  "HasHandler code r = (case Load code (rt_handlers r) of None \<Rightarrow> False | Some s \<Rightarrow> sl_len s > 0)"

text \<open>
  \<^verbatim>\<open>Dispatch\<close>: read the slice once, then call the entries one after the other, each read from the array when its turn
  comes. \<open>between k\<close> is what other goroutines do to the router just before call number \<open>k\<close>. The result is the entries
  whose handlers are called, in order.
\<close>

fun dispatch_from :: "(nat \<Rightarrow> MessageRouter \<Rightarrow> MessageRouter) \<Rightarrow> slice \<Rightarrow> nat \<Rightarrow> nat \<Rightarrow> MessageRouter \<Rightarrow> handlerEntry list" where
  "dispatch_from between s k 0 r = []"
| "dispatch_from between s k (Suc n) r =
     (let r' = between k r in (rt_arrays r' ! sl_arr s) ! k # dispatch_from between s (k + 1) n r')"

definition Dispatch :: "(nat \<Rightarrow> MessageRouter \<Rightarrow> MessageRouter) \<Rightarrow> u32 \<Rightarrow> MessageRouter \<Rightarrow> handlerEntry list" where
  "Dispatch between code r =
     (case Load code (rt_handlers r) of
        None \<Rightarrow> []
      | Some s \<Rightarrow> dispatch_from between s 0 (sl_len s) r)"

section \<open>Invariant and abstraction\<close>

text \<open>The handlers of a code, as a list.\<close>

definition handlers_of :: "u32 \<Rightarrow> MessageRouter \<Rightarrow> handlerEntry list" where
  "handlers_of code r = (case Load code (rt_handlers r) of None \<Rightarrow> [] | Some s \<Rightarrow> view r s)"

text \<open>Every slice lies within its array, no two codes share one, and all ids in use have been handed out.\<close>

definition router_ok :: "MessageRouter \<Rightarrow> bool" where
  "router_ok r \<longleftrightarrow>
     (\<forall>c s. Load c (rt_handlers r) = Some s \<longrightarrow> sl_arr s < length (rt_arrays r) \<and> sl_len s \<le> length (rt_arrays r ! sl_arr s)) \<and>
     (\<forall>c d s t. Load c (rt_handlers r) = Some s \<longrightarrow> Load d (rt_handlers r) = Some t \<longrightarrow> sl_arr s = sl_arr t \<longrightarrow> c = d) \<and>
     (\<forall>c. distinct (map he_id (handlers_of c r)) \<and> (\<forall>e\<in>set (handlers_of c r). he_id e \<le> rt_counter r))"

lemma view_simps:
  "view (r\<lparr>rt_handlers := m\<rparr>) s = view r s" "view (r\<lparr>rt_counter := c\<rparr>) s = view r s"
  by (simp_all add: view_def)

lemma handlers_of_append:
  assumes "router_ok r"
  shows "handlers_of c (append_entry grow code e r) = (if c = code then handlers_of code r @ [e] else handlers_of c r)"
proof (cases "Load code (rt_handlers r)")
  case None
  have "sl_arr s < length (rt_arrays r)" if "Load c (rt_handlers r) = Some s" for s using assms that by (auto simp: router_ok_def)
  then show ?thesis using None
    by (auto simp: handlers_of_def append_entry_def Let_def view_def nth_append split: option.splits)
next
  case (Some s)
  have s: "sl_arr s < length (rt_arrays r)" "sl_len s \<le> length (rt_arrays r ! sl_arr s)"
    using assms Some by (auto simp: router_ok_def)
  have other: "sl_arr t < length (rt_arrays r)" "sl_arr t \<noteq> sl_arr s" if "Load c (rt_handlers r) = Some t" "c \<noteq> code" for t
    using assms Some that unfolding router_ok_def by blast+
  show ?thesis
  proof (cases "sl_len s < length (rt_arrays r ! sl_arr s)")
    case True
    then have "take (Suc (sl_len s)) ((rt_arrays r ! sl_arr s)[sl_len s := e]) = take (sl_len s) (rt_arrays r ! sl_arr s) @ [e]"
      by (simp add: take_Suc_conv_app_nth)
    with True Some s other show ?thesis
      by (auto simp: handlers_of_def append_entry_def Let_def view_def split: option.splits)
  next
    case False
    with Some s other show ?thesis
      by (auto simp: handlers_of_def append_entry_def Let_def view_def nth_append split: option.splits)
  qed
qed

lemma shift_down_simps:
  assumes "i < len" "len \<le> length a"
  shows "length (shift_down i len a) = length a" "take (len - 1) (shift_down i len a) = take i a @ drop (i + 1) (take len a)"
proof -
  have "length (drop (i + 1) (take len a)) = len - 1 - i" using assms by simp
  then show "length (shift_down i len a) = length a" "take (len - 1) (shift_down i len a) = take i a @ drop (i + 1) (take len a)"
    using assms by (simp_all add: shift_down_def)
qed

lemma entry_index_Some: "entry_index hid es = Some i \<Longrightarrow> i < length es \<and> he_id (es ! i) = hid"
  by (induction es arbitrary: i) (auto split: if_splits)

lemma entry_index_None: "entry_index hid es = None \<longleftrightarrow> hid \<notin> he_id ` set es"
  by (induction es) auto

lemma remove_entry_filter:
  "distinct (map he_id es) \<Longrightarrow> entry_index hid es = Some i \<Longrightarrow> take i es @ drop (i + 1) es = filter (\<lambda>e. he_id e \<noteq> hid) es"
proof (induction es arbitrary: i)
  case (Cons e es)
  then show ?case
  proof (cases "he_id e = hid")
    case True
    then have "filter (\<lambda>e. he_id e \<noteq> hid) es = es" using Cons.prems(1) by (auto simp: filter_id_conv dest: notin_imageD)
    then show ?thesis using True Cons.prems(2) by simp
  qed auto
qed simp

lemma handlers_of_Unregister:
  assumes "router_ok r"
  shows "handlers_of c (snd (Unregister code hid r)) =
           (if c = code then filter (\<lambda>e. he_id e \<noteq> hid) (handlers_of code r) else handlers_of c r)"
    and "fst (Unregister code hid r) \<longleftrightarrow> hid \<in> he_id ` set (handlers_of code r)"
proof -
  have "handlers_of c (snd (Unregister code hid r)) =
           (if c = code then filter (\<lambda>e. he_id e \<noteq> hid) (handlers_of code r) else handlers_of c r) \<and>
        (fst (Unregister code hid r) \<longleftrightarrow> hid \<in> he_id ` set (handlers_of code r))"
  proof (cases "Load code (rt_handlers r)")
    case (Some s)
    have s: "sl_arr s < length (rt_arrays r)" "sl_len s \<le> length (rt_arrays r ! sl_arr s)" "distinct (map he_id (view r s))"
      using assms Some unfolding router_ok_def handlers_of_def by (auto dest: spec [of _ code])
    have other: "sl_arr t \<noteq> sl_arr s" if "Load c (rt_handlers r) = Some t" "c \<noteq> code" for t
      using assms Some that unfolding router_ok_def by blast
    show ?thesis
    proof (cases "entry_index hid (view r s)")
      case None
      then have "\<forall>e\<in>set (view r s). he_id e \<noteq> hid" by (auto simp: entry_index_None)
      with None Some show ?thesis by (auto simp: Unregister_def handlers_of_def filter_id_conv)
    next
      case (Some i)
      note i = entry_index_Some [OF Some]
      have "i < sl_len s" using i s(2) by (simp add: view_def)
      note shift = shift_down_simps [OF this s(2)]
      have "take (sl_len s - 1) (shift_down i (sl_len s) (rt_arrays r ! sl_arr s)) = filter (\<lambda>e. he_id e \<noteq> hid) (view r s)"
        using remove_entry_filter [OF s(3) Some] \<open>i < sl_len s\<close> s(2) shift(2) by (simp add: view_def min_def)
      moreover have "hid \<in> he_id ` set (view r s)" using i nth_mem by blast
      ultimately show ?thesis using Some \<open>Load code (rt_handlers r) = Some s\<close> s(1) other
        by (auto simp: Unregister_def handlers_of_def view_def split: option.splits)
    qed
  qed (simp add: Unregister_def handlers_of_def)
  then show "handlers_of c (snd (Unregister code hid r)) =
           (if c = code then filter (\<lambda>e. he_id e \<noteq> hid) (handlers_of code r) else handlers_of c r)"
    "fst (Unregister code hid r) \<longleftrightarrow> hid \<in> he_id ` set (handlers_of code r)" by blast+
qed

lemma handlers_of_UnregisterAll:
  "handlers_of c (UnregisterAll code r) = (if c = code then [] else handlers_of c r)"
  by (simp add: handlers_of_def UnregisterAll_def view_def split: option.splits)

text \<open>Slices stay within arrays of their own.\<close>

definition slices_ok :: "MessageRouter \<Rightarrow> bool" where
  "slices_ok r \<longleftrightarrow>
     (\<forall>c s. Load c (rt_handlers r) = Some s \<longrightarrow> sl_arr s < length (rt_arrays r) \<and> sl_len s \<le> length (rt_arrays r ! sl_arr s)) \<and>
     (\<forall>c d s t. Load c (rt_handlers r) = Some s \<longrightarrow> Load d (rt_handlers r) = Some t \<longrightarrow> sl_arr s = sl_arr t \<longrightarrow> c = d)"

lemma router_ok_alt:
  "router_ok r \<longleftrightarrow> slices_ok r \<and> (\<forall>c. distinct (map he_id (handlers_of c r)) \<and> (\<forall>e\<in>set (handlers_of c r). he_id e \<le> rt_counter r))"
  by (simp add: router_ok_def slices_ok_def)

lemma slices_okD:
  assumes "slices_ok r" "Load c (rt_handlers r) = Some s"
  shows "sl_arr s < length (rt_arrays r)" "sl_len s \<le> length (rt_arrays r ! sl_arr s)"
    "Load d (rt_handlers r) = Some t \<Longrightarrow> sl_arr s = sl_arr t \<Longrightarrow> c = d"
  using assms unfolding slices_ok_def by blast+

lemma slices_ok_fresh:
  assumes "slices_ok r" "n \<le> length a"
  shows "slices_ok (r\<lparr>rt_arrays := rt_arrays r @ [a], rt_handlers := Store code \<lparr>sl_arr = length (rt_arrays r), sl_len = n\<rparr> (rt_handlers r)\<rparr>)"
proof -
  have old: "sl_arr s < length (rt_arrays r)" "sl_len s \<le> length (rt_arrays r ! sl_arr s)" if "Load c (rt_handlers r) = Some s" for c s
    using slices_okD [OF assms(1) that] by blast+
  show ?thesis unfolding slices_ok_def
    using assms(2) old slices_okD(3) [OF assms(1)]
    by (auto simp: nth_append less_SucI dest: old(1))
qed

lemma slices_ok_same:
  assumes "slices_ok r" "Load code (rt_handlers r) = Some s" "n \<le> length a"
  shows "slices_ok (r\<lparr>rt_arrays := (rt_arrays r)[sl_arr s := a], rt_handlers := Store code (s\<lparr>sl_len := n\<rparr>) (rt_handlers r)\<rparr>)"
  unfolding slices_ok_def
proof (intro conjI allI impI, goal_cases)
  case (1 c t)
  then show ?case using assms slices_okD [OF assms(1)] by (auto split: if_splits)
next
  case (2 c t)
  then show ?case using assms slices_okD [OF assms(1)] by (cases "sl_arr t = sl_arr s") (auto split: if_splits simp: nth_list_update)
next
  case (3 c d t u)
  then show ?case using assms slices_okD(3) [OF assms(1)] by (auto split: if_splits)
qed

lemma slices_ok_append: "slices_ok r \<Longrightarrow> slices_ok (append_entry grow code e r)"
proof (cases "Load code (rt_handlers r)")
  case None
  assume "slices_ok r"
  from slices_ok_fresh [OF this] None show ?thesis by (simp add: append_entry_def Let_def)
next
  case (Some s)
  assume ok: "slices_ok r"
  from slices_ok_fresh [OF this] slices_ok_same [OF this Some] slices_okD(2) [OF ok Some] Some show ?thesis
    by (auto simp: append_entry_def Let_def view_def)
qed

lemma slices_ok_Unregister: "slices_ok r \<Longrightarrow> slices_ok (snd (Unregister code hid r))"
proof -
  assume ok: "slices_ok r"
  have "slices_ok (r\<lparr>rt_arrays := (rt_arrays r)[sl_arr s := shift_down i (sl_len s) (rt_arrays r ! sl_arr s)],
      rt_handlers := Store code (s\<lparr>sl_len := sl_len s - 1\<rparr>) (rt_handlers r)\<rparr>)"
    if s: "Load code (rt_handlers r) = Some s" and "entry_index hid (view r s) = Some i" for s i
  proof (rule slices_ok_same [OF ok s])
    have "i < sl_len s" using entry_index_Some [OF that(2)] by (simp add: view_def)
    from shift_down_simps(1) [OF this slices_okD(2) [OF ok s]] slices_okD(2) [OF ok s]
    show "sl_len s - 1 \<le> length (shift_down i (sl_len s) (rt_arrays r ! sl_arr s))" by simp
  qed
  then show ?thesis using ok by (auto simp: Unregister_def split: option.splits)
qed

lemma slices_ok_UnregisterAll: "slices_ok r \<Longrightarrow> slices_ok (UnregisterAll code r)"
  unfolding slices_ok_def UnregisterAll_def by (auto split: if_splits)


section \<open>The interface of a dispatcher\<close>

text \<open>
  What the client's request/response code relies on: registering appends one handler under an id no handler of the code
  has, unregistering an id removes that handler and no other, and other codes are never affected.
\<close>

locale dispatcher =
  fixes ok :: "'r \<Rightarrow> bool"
    and handlers :: "u32 \<Rightarrow> 'r \<Rightarrow> handlerEntry list"
    and add :: "u32 \<Rightarrow> nat \<Rightarrow> 'r \<Rightarrow> u64 \<times> 'r"
    and del :: "u32 \<Rightarrow> u64 \<Rightarrow> 'r \<Rightarrow> bool \<times> 'r"
    and room :: "'r \<Rightarrow> bool" \<comment> \<open>an id is left\<close>
  assumes ids: "ok r \<Longrightarrow> distinct (map he_id (handlers c r))"
    and add_handlers: "ok r \<Longrightarrow> room r \<Longrightarrow> add c h r = (i, r') \<Longrightarrow> ok r' \<and> i \<notin> he_id ` set (handlers c r) \<and>
          (\<forall>c'. handlers c' r' = (if c' = c then handlers c r @ [\<lparr>he_id = i, he_handler = h\<rparr>] else handlers c' r))"
    and del_handlers: "ok r \<Longrightarrow> del c i r = (b, r') \<Longrightarrow> ok r' \<and> (b \<longleftrightarrow> i \<in> he_id ` set (handlers c r)) \<and>
          (\<forall>c'. handlers c' r' = (if c' = c then filter (\<lambda>e. he_id e \<noteq> i) (handlers c r) else handlers c' r))"
begin

text \<open>A temporary handler leaves no trace: registering and unregistering it restores all handlers.\<close>

lemma add_del:
  assumes "ok r" "room r" "add c h r = (i, r1)" "del c i r1 = (b, r2)"
  shows "b \<and> ok r2 \<and> (\<forall>c'. handlers c' r2 = handlers c' r)"
proof -
  note a = add_handlers [OF assms(1-3)]
  have "filter (\<lambda>e. he_id e \<noteq> i) (handlers c r) = handlers c r" using a by (auto simp: filter_id_conv dest: notin_imageD)
  with a del_handlers [OF _ assms(4)] show ?thesis by simp
qed

lemma del_twice:
  assumes "ok r" "del c i r = (b, r1)" "del c i r1 = (b', r2)"
  shows "\<not> b' \<and> (\<forall>c'. handlers c' r2 = handlers c' r1)"
  using del_handlers [OF assms(1,2)] del_handlers [OF _ assms(3)] by (auto simp: filter_id_conv)

end

lemma u64_less_next: "(c :: u64) \<noteq> - 1 \<Longrightarrow> c < c + 1"
proof (rule ccontr)
  assume "c \<noteq> - 1" "\<not> c < c + 1"
  then have "(unat c + 1) mod 2 ^ 64 \<le> unat c" by (simp add: word_less_nat_alt unat_word_ariths)
  moreover have "unat c < 2 ^ 64" using unsigned_less [of c] by simp
  ultimately have "(unat c + 1) mod 2 ^ 64 = 0" by (cases "unat c + 1 = 2 ^ 64") auto
  then have "unat (c + 1) = 0" by (simp add: unat_word_ariths)
  then have "c + 1 = 0" using unat_eq_zero by blast
  with \<open>c \<noteq> - 1\<close> show False by (simp add: eq_neg_iff_add_eq_0)
qed

lemma router_ok_Register:
  assumes "router_ok r" "rt_counter r \<noteq> - 1"
  shows "router_ok (snd (Router_Register grow code h r))"
    and "fst (Router_Register grow code h r) \<notin> he_id ` set (handlers_of c r)"
    and "handlers_of c (snd (Router_Register grow code h r)) =
           (if c = code then handlers_of code r @ [\<lparr>he_id = fst (Router_Register grow code h r), he_handler = h\<rparr>] else handlers_of c r)"
proof -
  let ?n = "rt_counter r + 1"
  let ?r = "r\<lparr>rt_counter := ?n\<rparr>"
  let ?e = "\<lparr>he_id = ?n, he_handler = h\<rparr>"
  note up = u64_less_next [OF assms(2)]
  have same: "handlers_of c ?r = handlers_of c r" for c
    by (simp add: handlers_of_def view_simps cong: option.case_cong)
  have below: "he_id e \<le> rt_counter r" if "e \<in> set (handlers_of c r)" for e c
    using assms(1) that by (auto simp: router_ok_def)
  have ids: "distinct (map he_id (handlers_of c r))" for c using assms(1) by (auto simp: router_ok_def)
  have fresh: "?n \<notin> he_id ` set (handlers_of c r)" for c using below up by fastforce
  have ok: "router_ok ?r"
    using assms(1) below up unfolding router_ok_alt same
    by (auto simp: slices_ok_def) (meson le_less_trans less_imp_le)
  note app = handlers_of_append [OF ok, of _ grow code ?e, unfolded same]
  have "slices_ok (append_entry grow code ?e ?r)" using ok slices_ok_append by (simp add: router_ok_alt)
  moreover have "distinct (map he_id (handlers_of c (append_entry grow code ?e ?r)))" for c
    using ids fresh by (simp add: app)
  moreover have "he_id e \<le> rt_counter (append_entry grow code ?e ?r)" if "e \<in> set (handlers_of c (append_entry grow code ?e ?r))" for c e
  proof -
    have "rt_counter (append_entry grow code ?e ?r) = ?n" by (simp add: append_entry_def Let_def split: option.splits)
    moreover have "e = ?e \<or> e \<in> set (handlers_of c r)" using that by (auto simp: app split: if_splits)
    ultimately show ?thesis using below [of e c] up by auto
  qed
  ultimately show "router_ok (snd (Router_Register grow code h r))" by (simp add: Router_Register_def Let_def router_ok_alt)
  show "fst (Router_Register grow code h r) \<notin> he_id ` set (handlers_of c r)"
    using fresh by (simp add: Router_Register_def Let_def)
  show "handlers_of c (snd (Router_Register grow code h r)) =
      (if c = code then handlers_of code r @ [\<lparr>he_id = fst (Router_Register grow code h r), he_handler = h\<rparr>] else handlers_of c r)"
    by (simp add: Router_Register_def Let_def app)
qed

lemma router_ok_Unregister: "router_ok r \<Longrightarrow> router_ok (snd (Unregister code hid r))"
proof -
  assume ok: "router_ok r"
  have "rt_counter (snd (Unregister code hid r)) = rt_counter r" by (simp add: Unregister_def split: option.splits)
  then show ?thesis using ok slices_ok_Unregister
    by (auto simp: router_ok_alt handlers_of_Unregister(1) [OF ok] distinct_map_filter)
qed

lemma router_ok_UnregisterAll: "router_ok r \<Longrightarrow> router_ok (UnregisterAll code r)"
  using slices_ok_UnregisterAll by (auto simp: router_ok_alt handlers_of_UnregisterAll) (auto simp: UnregisterAll_def)

lemma router_ok_New: "router_ok (NewMessageRouter c)"
  by (simp add: router_ok_def NewMessageRouter_def handlers_of_def)

interpretation rtr: dispatcher router_ok handlers_of "Router_Register grow" Unregister "\<lambda>r. rt_counter r \<noteq> - 1"
proof (unfold_locales, goal_cases)
  case (1 r c)
  then show ?case by (simp add: router_ok_def)
next
  case (2 r c h i r')
  then show ?case using router_ok_Register [of r] by (metis fst_conv snd_conv)
next
  case (3 r c i b r')
  then show ?case using router_ok_Unregister [of r c i] handlers_of_Unregister [of r] by (metis fst_conv snd_conv)
qed

lemma dispatch_from_quiet:
  "k + n \<le> length (rt_arrays r ! sl_arr s) \<Longrightarrow>
     dispatch_from (\<lambda>_ r. r) s k n r = take n (drop k (rt_arrays r ! sl_arr s))"
proof (induction n arbitrary: k)
  case (Suc n)
  then have "drop k (rt_arrays r ! sl_arr s) = (rt_arrays r ! sl_arr s) ! k # drop (k + 1) (rt_arrays r ! sl_arr s)"
    by (simp add: Cons_nth_drop_Suc)
  with Suc show ?case by (simp add: Let_def)
qed simp

lemma Dispatch_quiet: "router_ok r \<Longrightarrow> Dispatch (\<lambda>_ r. r) code r = handlers_of code r"
  by (auto simp: Dispatch_def handlers_of_def view_def router_ok_def dispatch_from_quiet split: option.splits)

section \<open>Refinement\<close>

text \<open>The abstract router: all live registrations in order, whatever their code, and the last id given out.\<close>

datatype router_op = Op_Register u32 nat | Op_Unregister u32 u64 | Op_UnregisterAll u32

type_synonym router_spec = "(u32 \<times> handlerEntry) list \<times> u64"

fun spec_step :: "router_op \<Rightarrow> router_spec \<Rightarrow> router_spec" where
  "spec_step (Op_Register c h) (es, n) = (es @ [(c, \<lparr>he_id = n + 1, he_handler = h\<rparr>)], n + 1)"
| "spec_step (Op_Unregister c i) (es, n) = (filter (\<lambda>p. \<not> (fst p = c \<and> he_id (snd p) = i)) es, n)"
| "spec_step (Op_UnregisterAll c) (es, n) = (filter (\<lambda>p. fst p \<noteq> c) es, n)"

fun router_step :: "(nat \<Rightarrow> nat) \<Rightarrow> router_op \<Rightarrow> MessageRouter \<Rightarrow> MessageRouter" where
  "router_step grow (Op_Register c h) r = snd (Router_Register grow c h r)"
| "router_step grow (Op_Unregister c i) r = snd (Unregister c i r)"
| "router_step grow (Op_UnregisterAll c) r = UnregisterAll c r"

text \<open>The registrations of one code in the abstract router.\<close>

definition spec_handlers :: "u32 \<Rightarrow> router_spec \<Rightarrow> handlerEntry list" where
  "spec_handlers c a = map snd (filter (\<lambda>p. fst p = c) (fst a))"

definition router_abs :: "MessageRouter \<Rightarrow> router_spec \<Rightarrow> bool" where
  "router_abs r a \<longleftrightarrow> router_ok r \<and> (\<forall>c. handlers_of c r = spec_handlers c a) \<and> rt_counter r = snd a"

lemma filter_code:
  "map snd (filter (\<lambda>p. fst p = c) (filter (\<lambda>p. \<not> (fst p = d \<and> he_id (snd p) = i)) es)) =
     (if c = d then filter (\<lambda>e. he_id e \<noteq> i) (map snd (filter (\<lambda>p. fst p = c) es)) else map snd (filter (\<lambda>p. fst p = c) es))"
proof (cases "c = d")
  case True
  then show ?thesis by (induction es) simp_all
next
  case False
  then show ?thesis by (induction es) simp_all
qed

lemma filter_other_code:
  "map snd (filter (\<lambda>p. fst p = c) (filter (\<lambda>p. fst p \<noteq> d) es)) = (if c = d then [] else map snd (filter (\<lambda>p. fst p = c) es))"
  by (cases "c = d"; induction es) simp_all

lemma spec_handlers_step:
  "spec_handlers c (spec_step (Op_Register d h) a) =
     (if c = d then spec_handlers d a @ [\<lparr>he_id = snd a + 1, he_handler = h\<rparr>] else spec_handlers c a)"
  "spec_handlers c (spec_step (Op_Unregister d i) a) =
     (if c = d then filter (\<lambda>e. he_id e \<noteq> i) (spec_handlers d a) else spec_handlers c a)"
  "spec_handlers c (spec_step (Op_UnregisterAll d) a) = (if c = d then [] else spec_handlers c a)"
  unfolding spec_handlers_def by (cases a; simp only: spec_step.simps fst_conv snd_conv filter_code filter_other_code; simp)+

lemma router_simulation:
  assumes "router_abs r a" "(\<exists>c h. op = Op_Register c h) \<longrightarrow> rt_counter r \<noteq> - 1"
  shows "router_abs (router_step grow op r) (spec_step op a)"
proof (cases op)
  case (Op_Register c h)
  have "snd (spec_step op a) = snd a + 1" using Op_Register by (cases a) simp
  moreover have "rt_counter (router_step grow op r) = rt_counter r + 1" "fst (Router_Register grow c h r) = rt_counter r + 1"
    using Op_Register by (auto simp: Router_Register_def append_entry_def Let_def split: option.splits)
  ultimately show ?thesis using assms Op_Register router_ok_Register [of r]
    by (simp add: router_abs_def spec_handlers_step)
next
  case (Op_Unregister c i)
  have "snd (spec_step op a) = snd a" "rt_counter (router_step grow op r) = rt_counter r"
    using Op_Unregister by (cases a; simp add: Unregister_def split: option.splits)+
  then show ?thesis using assms Op_Unregister router_ok_Unregister [of r] handlers_of_Unregister [of r]
    by (simp add: router_abs_def spec_handlers_step)
next
  case (Op_UnregisterAll c)
  have "snd (spec_step op a) = snd a" "rt_counter (router_step grow op r) = rt_counter r"
    using Op_UnregisterAll by (cases a; simp add: UnregisterAll_def)+
  then show ?thesis using assms Op_UnregisterAll router_ok_UnregisterAll [of r]
    by (simp add: router_abs_def spec_handlers_step handlers_of_UnregisterAll)
qed

lemma HasHandler_iff: "router_ok r \<Longrightarrow> HasHandler c r \<longleftrightarrow> handlers_of c r \<noteq> []"
  using slices_okD(2) [of r c] by (fastforce simp: HasHandler_def handlers_of_def view_def router_ok_alt split: option.splits)

definition is_register :: "router_op \<Rightarrow> bool" where
  "is_register op = (case op of Op_Register _ _ \<Rightarrow> True | _ \<Rightarrow> False)"

lemma spec_counter: "snd (spec_step op a) = snd a + of_bool (is_register op)"
  by (cases op; cases a) (simp_all add: is_register_def)

lemma router_simulation_run:
  assumes "router_abs r a" "unat (snd a) + length (filter is_register ops) < 2 ^ 64"
  shows "router_abs (fold (router_step grow) ops r) (fold spec_step ops a)"
  using assms
proof (induction ops arbitrary: r a)
  case (Cons op ops)
  have room: "is_register op \<longrightarrow> unat (snd a) + 1 < 2 ^ 64" using Cons.prems(2) by auto
  have "rt_counter r \<noteq> - 1" if "is_register op"
  proof
    assume "rt_counter r = - 1"
    then have "snd a = - 1" using Cons.prems(1) by (simp add: router_abs_def)
    then have "unat (snd a) = 2 ^ 64 - 1" by (simp only: unsigned_minus_1_eq_mask mask_eq_exp_minus_1) simp
    then show False using room that by simp
  qed
  then have step: "router_abs (router_step grow op r) (spec_step op a)"
    by (intro router_simulation [OF Cons.prems(1)]) (auto simp: is_register_def)
  have "unat (snd (spec_step op a)) = unat (snd a) + of_bool (is_register op)"
    using room by (cases "is_register op") (simp_all add: spec_counter unat_word_ariths)
  then have "unat (snd (spec_step op a)) + length (filter is_register ops) < 2 ^ 64" using Cons.prems(2) by (simp split: if_splits)
  from Cons.IH [OF step this] show ?case by simp
qed simp

text \<open>
  C28: the router implements an ordered list of registrations. After any sequence of \<^verbatim>\<open>Register\<close>, \<^verbatim>\<open>Unregister\<close> and
  \<^verbatim>\<open>UnregisterAll\<close> calls in which the 64-bit id counter does not run out, a \<^verbatim>\<open>Dispatch\<close> during which no other goroutine
  changes the router calls exactly the handlers still registered for the code, in registration order, and \<^verbatim>\<open>HasHandler\<close>
  says whether there are any, however the backing arrays are grown, shared and shifted.\<close>

theorem router_refines_spec:
  fixes grow :: "nat \<Rightarrow> nat" and ops :: "router_op list" and code :: u32
  assumes "unat n + length (filter is_register ops) < 2 ^ 64"
  defines "r \<equiv> fold (router_step grow) ops (NewMessageRouter n)"
  defines "live \<equiv> spec_handlers code (fold spec_step ops ([], n))"
  shows "Dispatch (\<lambda>_ r. r) code r = live \<and> (HasHandler code r \<longleftrightarrow> live \<noteq> [])"
proof -
  have "router_abs (NewMessageRouter n) ([], n)"
    by (simp add: router_abs_def router_ok_New spec_handlers_def) (simp add: handlers_of_def NewMessageRouter_def)
  from router_simulation_run [OF this, of ops grow] have "router_abs r (fold spec_step ops ([], n))"
    using assms(1) by (simp add: r_def)
  then show ?thesis by (simp add: router_abs_def Dispatch_quiet HasHandler_iff live_def)
qed

theorem router_refines_spec_witness:
  "Dispatch (\<lambda>_ r. r) 26 (fold (router_step (\<lambda>n. n)) [Op_Register 26 7, Op_Register 26 8, Op_Unregister 26 1, Op_Register 26 9] (NewMessageRouter 0)) =
     [\<lparr>he_id = 2, he_handler = 8\<rparr>, \<lparr>he_id = 3, he_handler = 9\<rparr>]"
  using router_refines_spec [of 0 "[Op_Register 26 7, Op_Register 26 8, Op_Unregister 26 1, Op_Register 26 9]" 26 "\<lambda>n. n"]
  by (simp add: is_register_def spec_handlers_def)

text \<open>
  \<^verbatim>\<open>Dispatch\<close> uses the slice after giving up the lock, and \<^verbatim>\<open>Unregister\<close> shifts the same array in place. When three
  handlers are registered for a code and the first is unregistered (for example by itself) while it runs, the running
  dispatch never calls the second handler, although it stays registered throughout, and calls the third one twice.\<close>

theorem router_dispatch_race:
  "\<exists>r0 between. router_ok r0 \<and> map he_handler (handlers_of 26 r0) = [7, 8, 9] \<and>
     between = (\<lambda>k r. if k = 1 then snd (Unregister 26 1 r) else r) \<and>
     map he_handler (handlers_of 26 (between 1 r0)) = [8, 9] \<and>
     map he_handler (Dispatch between 26 r0) = [7, 9, 9]"
proof -
  define r0 where "r0 = fold (router_step (\<lambda>_. 0)) [Op_Register 26 7, Op_Register 26 8, Op_Register 26 9] (NewMessageRouter 0)"
  have abs: "router_abs (NewMessageRouter 0) ([], 0)"
    by (simp add: router_abs_def router_ok_New spec_handlers_def) (simp add: handlers_of_def NewMessageRouter_def)
  have "router_ok r0" using router_simulation_run [OF abs, of "[Op_Register 26 7, Op_Register 26 8, Op_Register 26 9]" "\<lambda>_. 0"]
    by (simp add: r0_def router_abs_def is_register_def)
  moreover have "map he_handler (handlers_of 26 r0) = [7, 8, 9]" unfolding r0_def by code_simp
  moreover have "map he_handler (handlers_of 26 (snd (Unregister 26 1 r0))) = [8, 9]" unfolding r0_def by code_simp
  moreover have "map he_handler (Dispatch (\<lambda>k r. if k = 1 then snd (Unregister 26 1 r) else r) 26 r0) = [7, 9, 9]"
    unfolding r0_def by code_simp
  ultimately show ?thesis by auto
qed

end
