(* ===== verification/ClientState.thy ===== *)
theory ClientState
  imports Connection ServerMessages UploadQueue Registry Slots Router Searches
begin

text \<open>
  The \<^verbatim>\<open>Client\<close> structure of \<^verbatim>\<open>src/client/client.go\<close>, its options (\<^verbatim>\<open>options.go\<close>), the tables of expected connections and
  the cache of peer connections (\<^verbatim>\<open>connmanager.go\<close>, all but dialling, which is in the theory \<^theory_text>\<open>Peers\<close>). Connections are
  shared between goroutines and live in a heap; a handle is an index. Package-level counters are fields. A \<^verbatim>\<open>go\<close>
  statement appends to the list of started goroutines.
\<close>

section \<open>Options\<close>

type_synonym UploadValidator = "string \<Rightarrow> string \<Rightarrow> go_error option"

definition ErrFileNotShared :: go_error where "ErrFileNotShared = ErrorString ''file not shared''"
definition ErrQueueFull :: go_error where "ErrQueueFull = ErrorString ''queue is full''"
definition ErrUserBlocked :: go_error where "ErrUserBlocked = ErrorString ''user is blocked''"

definition DefaultServerAddress :: string where "DefaultServerAddress = ''vps.slsknet.org:2271''"
definition DefaultConnectTimeout :: int where "DefaultConnectTimeout = 10 * second"
definition DefaultMessageTimeout :: int where "DefaultMessageTimeout = 5 * second"
definition DefaultMaxConcurrentDownloads :: int where "DefaultMaxConcurrentDownloads = 10"
definition DefaultMaxConcurrentUploads :: int where "DefaultMaxConcurrentUploads = 10"
definition DefaultSlotCleanupInterval :: int where "DefaultSlotCleanupInterval = 15 * 60 * second"
definition DefaultSlotIdleThreshold :: int where "DefaultSlotIdleThreshold = 15 * 60 * second"

record Options =
  opt_ListenPort :: u32
  opt_ServerAddress :: string
  opt_ConnectTimeout :: int
  opt_MessageTimeout :: int
  opt_MaxConcurrentDownloads :: int
  opt_MaxConcurrentUploads :: int
  opt_SlotCleanupInterval :: int
  opt_SlotIdleThreshold :: int
  opt_FileSharer :: "FileSharer option"
  opt_UploadValidator :: "UploadValidator option"

definition DefaultOptions :: Options where
  "DefaultOptions =
    \<lparr>opt_ListenPort = 0, opt_ServerAddress = DefaultServerAddress, opt_ConnectTimeout = DefaultConnectTimeout,
     opt_MessageTimeout = DefaultMessageTimeout, opt_MaxConcurrentDownloads = DefaultMaxConcurrentDownloads,
     opt_MaxConcurrentUploads = DefaultMaxConcurrentUploads, opt_SlotCleanupInterval = DefaultSlotCleanupInterval,
     opt_SlotIdleThreshold = DefaultSlotIdleThreshold, opt_FileSharer = None, opt_UploadValidator = None\<rparr>"

section \<open>The client\<close>

text \<open>\<^verbatim>\<open>pendingSolicitations\<close>: channels for connections this client asked for. The waiting goroutine keeps its channel after
  the entry is deleted, so channels are heap cells.\<close>

record pendingSolicitations =
  ps_pending :: "(u32, nat) gomap"
  ps_chans :: "handle chan list"

definition newPendingSolicitations :: pendingSolicitations where
  "newPendingSolicitations = \<lparr>ps_pending = [], ps_chans = []\<rparr>"

record pendingPeerSolicit =
  pps_username :: string
  pps_connType :: ConnectionType

type_synonym pendingPeerSolicits = "(u32, pendingPeerSolicit) gomap"

definition newPendingPeerSolicits :: pendingPeerSolicits where
  "newPendingPeerSolicits = []"

text \<open>\<^verbatim>\<open>pendingConn\<close>: a connection attempt others may wait for; \<^verbatim>\<open>ready\<close> is closed when the result is set.\<close>

record pendingConn =
  pc_ready :: bool
  pc_conn :: "handle option"
  pc_err :: "go_error option"

record peerConnManager =
  pm_conns :: "(string, handle) gomap"
  pm_pending :: "(string, nat) gomap"
  pm_attempts :: "pendingConn list"
  pm_ourUsername :: string

definition newPeerConnManager :: peerConnManager where
  "newPeerConnManager = \<lparr>pm_conns = [], pm_pending = [], pm_attempts = [], pm_ourUsername = ''''\<rparr>"

record uploadProcessor =
  upr_stopCh :: "unit chan"
  upr_doneCh :: "unit chan"
  upr_started :: bool
  upr_stopped :: bool

definition newUploadProcessor :: uploadProcessor where
  "newUploadProcessor = \<lparr>upr_stopCh = make_chan 0, upr_doneCh = make_chan 0, upr_started = False, upr_stopped = False\<rparr>"

text \<open>What a \<^verbatim>\<open>go\<close> statement of the client starts.\<close>

datatype goroutine =
    Go_runReadLoop
  | Go_uploadProcessor
  | Go_acceptLoop
  | Go_cleanupLoop int int \<comment> \<open>interval, idle threshold\<close>
  | Go_handleConnection Conn
  | Go_handleIncomingPeerMessages handle string
  | Go_connectToPeer ConnectToPeer
  | Go_connectToPeerForTransfer ConnectToPeer
  | Go_download ref i64 \<comment> \<open>transfer, expected size\<close>
  | Go_searchCleanup u32 nat

record Client =
  cl_opts :: Options
  cl_conn :: "Conn option"
  cl_router :: MessageRouter
  cl_searches :: searchRegistry
  cl_transfers :: TransferRegistry
  cl_queueMgr :: QueueManager
  cl_slots :: SlotManager
  cl_uploadProc :: uploadProcessor
  cl_listenerPort :: int
  cl_listenerRunning :: bool
  cl_peerConnMgr :: peerConnManager
  cl_solicitations :: pendingSolicitations
  cl_peerSolicits :: pendingPeerSolicits
  cl_stopCh :: "unit chan option"
  cl_doneCh :: "unit chan option"
  cl_running :: bool
  cl_username :: string
  cl_ipAddress :: "byte list option"
  cl_isSupporter :: bool
  cl_connected :: bool
  cl_loggedIn :: bool
  cl_disconnectedCh :: "unit chan option"
  cl_disconnectErr :: "go_error option"
  cl_heap :: "Conn list" \<comment> \<open>peer connections\<close>
  cl_started :: "goroutine list"
  cl_transferToken :: u32
  cl_searchToken :: u32
  cl_peerConnToken :: u32
  cl_transferSolicitToken :: u32

definition New :: "Options option \<Rightarrow> Client" where
  "New opts0 =
     (let opts = (case opts0 of None \<Rightarrow> DefaultOptions | Some o' \<Rightarrow> o');
          (slots, cleanup) = NewSlotManagerWithCleanup (opt_MaxConcurrentDownloads opts) (opt_MaxConcurrentUploads opts) (opt_SlotCleanupInterval opts)
      in \<lparr>cl_opts = opts, cl_conn = None, cl_router = NewMessageRouter 0, cl_searches = newSearchRegistry,
          cl_transfers = NewTransferRegistry, cl_queueMgr = NewQueueManager,
          cl_slots = slots, cl_uploadProc = newUploadProcessor, cl_listenerPort = 0, cl_listenerRunning = False,
          cl_peerConnMgr = newPeerConnManager, cl_solicitations = newPendingSolicitations,
          cl_peerSolicits = newPendingPeerSolicits, cl_stopCh = None, cl_doneCh = None, cl_running = False, cl_username = '''',
          cl_ipAddress = None, cl_isSupporter = False, cl_connected = False, cl_loggedIn = False, cl_disconnectedCh = None,
          cl_disconnectErr = None, cl_heap = [],
          cl_started = (if cleanup then [Go_cleanupLoop (opt_SlotCleanupInterval opts) (opt_SlotIdleThreshold opts)] else []),
          cl_transferToken = 0, cl_searchToken = 0,
          cl_peerConnToken = 0, cl_transferSolicitToken = 0\<rparr>)"

lemmas New_defs = New_def NewSlotManagerWithCleanup_def Let_def

lemma New_fields [simp]:
  "cl_transfers (New opts) = NewTransferRegistry" "cl_queueMgr (New opts) = NewQueueManager" "cl_heap (New opts) = []"
  "cl_searches (New opts) = newSearchRegistry" "cl_connected (New opts) = False" "cl_loggedIn (New opts) = False"
  by (simp_all add: New_defs)

definition start_goroutine :: "goroutine \<Rightarrow> Client \<Rightarrow> Client" where
  "start_goroutine g c = c\<lparr>cl_started := cl_started c @ [g]\<rparr>"

section \<open>Connections in the heap\<close>

definition new_conn :: "Conn \<Rightarrow> Client \<Rightarrow> handle \<times> Client" where
  "new_conn k c = (length (cl_heap c), c\<lparr>cl_heap := cl_heap c @ [k]\<rparr>)"

definition with_conn :: "(Conn \<Rightarrow> 'a \<times> Conn) \<Rightarrow> handle \<Rightarrow> Client \<Rightarrow> 'a \<times> Client" where
  "with_conn f h c = (case f (cl_heap c ! h) of (x, k) \<Rightarrow> (x, c\<lparr>cl_heap := (cl_heap c)[h := k]\<rparr>))"

definition close_conn :: "handle \<Rightarrow> Client \<Rightarrow> Client" where
  "close_conn h c = snd (with_conn (\<lambda>k. ((), Conn_Close k)) h c)"

text \<open>\<^verbatim>\<open>Client.WriteMessage\<close>: a message to the server.\<close>

definition Client_WriteMessage :: "byte list \<Rightarrow> Client \<Rightarrow> go_error option \<times> Client" where
  "Client_WriteMessage payload c =
     (case (cl_connected c, cl_conn c) of
        (True, Some k) \<Rightarrow> (case WriteMessage payload k of (e, k') \<Rightarrow> (e, c\<lparr>cl_conn := Some k'\<rparr>))
      | _ \<Rightarrow> (Some (ErrorString ''not connected''), c))"

section \<open>Expected connections\<close>

definition solicits_add :: "u32 \<Rightarrow> string \<Rightarrow> ConnectionType \<Rightarrow> Client \<Rightarrow> Client" where
  "solicits_add token username connType c =
     c\<lparr>cl_peerSolicits := Store token \<lparr>pps_username = username, pps_connType = connType\<rparr> (cl_peerSolicits c)\<rparr>"

definition solicits_get :: "u32 \<Rightarrow> Client \<Rightarrow> pendingPeerSolicit option \<times> Client" where
  "solicits_get token c =
     (case Load token (cl_peerSolicits c) of
        None \<Rightarrow> (None, c)
      | Some s \<Rightarrow> (Some s, c\<lparr>cl_peerSolicits := Delete token (cl_peerSolicits c)\<rparr>))"

definition solicitations_complete :: "u32 \<Rightarrow> handle \<Rightarrow> Client \<Rightarrow> go_panic + (bool \<times> Client)" where
  "solicitations_complete token h c =
     (let ps = cl_solicitations c
      in case Load token (ps_pending ps) of
           None \<Rightarrow> Inr (False, c)
         | Some ch \<Rightarrow>
             let ps = ps\<lparr>ps_pending := Delete token (ps_pending ps)\<rparr>
             in case try_send h (ps_chans ps ! ch) of
                  Inl e \<Rightarrow> Inl e
                | Inr (sent, chan) \<Rightarrow> Inr (sent, c\<lparr>cl_solicitations := ps\<lparr>ps_chans := (ps_chans ps)[ch := chan]\<rparr>\<rparr>))"

section \<open>The connection cache\<close>

definition GetCached :: "string \<Rightarrow> Client \<Rightarrow> handle option" where
  "GetCached username c = Load username (pm_conns (cl_peerConnMgr c))"

abbreviation set_conns :: "(string, handle) gomap \<Rightarrow> Client \<Rightarrow> Client" where
  "set_conns m c \<equiv> c\<lparr>cl_peerConnMgr := (cl_peerConnMgr c)\<lparr>pm_conns := m\<rparr>\<rparr>"

definition peerConn_Add :: "string \<Rightarrow> handle \<Rightarrow> Client \<Rightarrow> handle option \<times> Client" where
  "peerConn_Add username h c =
     (let existing = GetCached username c;
          c = (case existing of None \<Rightarrow> c | Some k \<Rightarrow> close_conn k c)
      in (existing, set_conns (Store username h (pm_conns (cl_peerConnMgr c))) c))"

definition Invalidate :: "string \<Rightarrow> Client \<Rightarrow> Client" where
  "Invalidate username c = set_conns (Delete username (pm_conns (cl_peerConnMgr c))) c"

fun close_cached :: "(string \<times> handle) list \<Rightarrow> Client \<Rightarrow> Client" where
  "close_cached [] c = c"
| "close_cached ((username, h) # hs) c =
     close_cached hs (set_conns (Delete username (pm_conns (cl_peerConnMgr c))) (close_conn h c))"

definition peerConn_Close :: "Client \<Rightarrow> Client" where
  "peerConn_Close c = close_cached (pm_conns (cl_peerConnMgr c)) c"

section \<open>Writing to a working connection\<close>

text \<open>A connection that still takes everything written to it.\<close>

definition working :: "handle \<Rightarrow> Client \<Rightarrow> bool" where
  "working h c \<longleftrightarrow> h < length (cl_heap c) \<and> c_werr (cl_heap c ! h) = None \<and> c_room (cl_heap c ! h) = None"

text \<open>\<open>c'\<close> is \<open>c\<close>, except that the message \<open>p\<close> has gone out on connection \<open>h\<close>.\<close>

definition said :: "byte list \<Rightarrow> handle \<Rightarrow> Client \<Rightarrow> Client \<Rightarrow> bool" where
  "said p h c c' \<longleftrightarrow> (\<exists>k. c' = c\<lparr>cl_heap := (cl_heap c)[h := k]\<rparr> \<and> c_out k = c_out (cl_heap c ! h) @ frame p \<and>
     c_in k = c_in (cl_heap c ! h) \<and> c_werr k = None)"

lemma said_fields:
  assumes "said p h c c'"
  shows "cl_transfers c' = cl_transfers c" "cl_queueMgr c' = cl_queueMgr c" "cl_opts c' = cl_opts c"
    "cl_transferToken c' = cl_transferToken c" "length (cl_heap c') = length (cl_heap c)"
  using assms by (auto simp: said_def)

lemma said_out: "working h c \<Longrightarrow> said p h c c' \<Longrightarrow> c_out (cl_heap c' ! h) = c_out (cl_heap c ! h) @ frame p"
  by (auto simp: said_def working_def)

lemma WriteMessage_working:
  assumes "working h c"
  shows "said p h c (snd (with_conn (WriteMessage p) h c))"
proof -
  obtain e k where k: "WriteMessage p (cl_heap c ! h) = (e, k)" by fastforce
  from WriteMessage_sends [OF _ this] assms show ?thesis
    by (auto simp: said_def with_conn_def k sends_def working_def take_room_def accepts_def)
qed

end
