(* ===== verification/MessageLoop.thy ===== *)
theory MessageLoop
  imports Connection PeerMessages
begin

text \<open>
  Several goroutines of the client read framed messages until one of them settles the matter: \<^verbatim>\<open>waitForResponse\<close> of an
  upload, the reader of \<^verbatim>\<open>waitForTransferResponse\<close> and \<^verbatim>\<open>readPeerMessagesUntilReady\<close> of a download. Their interface: each
  message either gives an answer or not, and may change what can be observed of the state (everything but the unread input).
  What follows for every such loop: it answers at the first message that does, after the effects of those before it, takes
  no byte beyond that message, and when the input ends without an answer it returns the error.
\<close>

locale frame_loop =
  fixes inp :: "'s \<Rightarrow> byte list"
    and obs :: "'s \<Rightarrow> 'o"
    and rd :: "'s \<Rightarrow> (go_error + byte list) \<times> 's"
    and limit :: nat
    and answer :: "byte list \<Rightarrow> 'o \<Rightarrow> 'r option"
    and effect :: "byte list \<Rightarrow> 'o \<Rightarrow> 'o"
    and fails :: "go_error \<Rightarrow> 'r"
    and loop :: "'s \<Rightarrow> 'r \<times> 's"
  assumes rd_frame: "inp s = frame p @ rest \<Longrightarrow> length p \<le> limit \<Longrightarrow> \<exists>s'. rd s = (Inr p, s') \<and> inp s' = rest \<and> obs s' = obs s"
    and rd_end: "inp s = [] \<Longrightarrow> \<exists>e s'. rd s = (Inl e, s') \<and> obs s' = obs s"
    and loop_error: "rd s = (Inl e, s1) \<Longrightarrow> \<exists>s2. loop s = (fails e, s2) \<and> obs s2 = obs s1"
    and loop_stop: "rd s = (Inr p, s1) \<Longrightarrow> answer p (obs s1) = Some r \<Longrightarrow>
          \<exists>s2. loop s = (r, s2) \<and> inp s2 = inp s1 \<and> obs s2 = effect p (obs s1)"
    and loop_next: "rd s = (Inr p, s1) \<Longrightarrow> answer p (obs s1) = None \<Longrightarrow>
          \<exists>s2. loop s = loop s2 \<and> inp s2 = inp s1 \<and> obs s2 = effect p (obs s1)"
begin

lemma skips:
  assumes "inp s = concat (map frame ms) @ rest" "list_all (\<lambda>p. length p \<le> limit) ms"
    and "\<And>i. i < length ms \<Longrightarrow> answer (ms ! i) (fold effect (take i ms) (obs s)) = None"
  shows "\<exists>s'. loop s = loop s' \<and> inp s' = rest \<and> obs s' = fold effect ms (obs s)"
  using assms
proof (induction ms arbitrary: s)
  case (Cons p ms)
  have "inp s = frame p @ concat (map frame ms) @ rest" "length p \<le> limit" using Cons.prems(1,2) by simp_all
  from rd_frame [OF this] obtain s1 where s1: "rd s = (Inr p, s1)" "inp s1 = concat (map frame ms) @ rest" "obs s1 = obs s" by blast
  have "answer p (obs s1) = None" using Cons.prems(3) [of 0] s1(3) by simp
  from loop_next [OF s1(1) this] obtain s2 where s2: "loop s = loop s2" "inp s2 = inp s1" "obs s2 = effect p (obs s)"
    using s1(3) by auto
  have "answer (ms ! i) (fold effect (take i ms) (obs s2)) = None" if "i < length ms" for i
    using Cons.prems(3) [of "Suc i"] that s2(3) by simp
  with Cons.IH [of s2] Cons.prems(2) s1(2) s2 show ?case by simp
qed auto

theorem first_answer:
  assumes "inp s = concat (map frame (ms @ [m])) @ rest" "list_all (\<lambda>p. length p \<le> limit) (ms @ [m])"
    and "\<And>i. i < length ms \<Longrightarrow> answer (ms ! i) (fold effect (take i ms) (obs s)) = None"
    and "answer m (fold effect ms (obs s)) = Some r"
  shows "\<exists>s'. loop s = (r, s') \<and> inp s' = rest \<and> obs s' = fold effect (ms @ [m]) (obs s)"
proof -
  have "inp s = concat (map frame ms) @ frame m @ rest" "list_all (\<lambda>p. length p \<le> limit) ms" "length m \<le> limit"
    using assms(1,2) by simp_all
  from skips [OF this(1,2) assms(3)] obtain s1 where s1: "loop s = loop s1" "inp s1 = frame m @ rest" "obs s1 = fold effect ms (obs s)"
    by blast
  from rd_frame [OF s1(2) \<open>length m \<le> limit\<close>] obtain s2 where s2: "rd s1 = (Inr m, s2)" "inp s2 = rest" "obs s2 = obs s1" by blast
  from loop_stop [OF s2(1)] s2 s1 assms(4) show ?thesis by auto
qed

theorem no_answer:
  assumes "inp s = concat (map frame ms)" "list_all (\<lambda>p. length p \<le> limit) ms"
    and "\<And>i. i < length ms \<Longrightarrow> answer (ms ! i) (fold effect (take i ms) (obs s)) = None"
  shows "\<exists>e s'. loop s = (fails e, s') \<and> obs s' = fold effect ms (obs s)"
proof -
  have "inp s = concat (map frame ms) @ []" using assms(1) by simp
  from skips [OF this assms(2,3)] obtain s1 where s1: "loop s = loop s1" "inp s1 = []" "obs s1 = fold effect ms (obs s)" by blast
  from rd_end [OF s1(2)] obtain e s2 where "rd s1 = (Inl e, s2)" "obs s2 = obs s1" by blast
  with loop_error s1 show ?thesis by metis
qed

end

section \<open>Reading frames\<close>

text \<open>
  The two ways the code reads a frame: \<^verbatim>\<open>ReadMessage\<close> with its limit, and the four length bytes followed by as many bytes
  as they say. Both consume at least four bytes, so loops over them end with the input.
\<close>

definition read_raw_frame :: "Conn \<Rightarrow> (go_error + byte list) \<times> Conn" where
  "read_raw_frame conn =
     (case Conn_ReadFull 4 conn of
        (Inl err, c) \<Rightarrow> (Inl err, c)
      | (Inr lenBuf, c) \<Rightarrow> Conn_ReadFull (unat (from_le lenBuf :: u32)) c)"

lemma Conn_ReadFull_fields:
  "Conn_ReadFull n c = (r, c') \<Longrightarrow> c' = c\<lparr>c_in := c_in c'\<rparr>"
  by (auto simp: Conn_ReadFull_def split: prod.splits)

lemma Conn_ReadFull_consumes: "Conn_ReadFull n c = (Inr b, c') \<Longrightarrow> stream c = b @ stream c' \<and> length b = n"
proof -
  assume run: "Conn_ReadFull n c = (Inr b, c')"
  have gen: "segs_ReadFull e n acc ss = (Inr b, ss') \<Longrightarrow> acc @ concat ss = b @ concat ss' \<and> length b = length acc + n" for e n acc b ss ss'
    by (induction e n acc ss rule: segs_ReadFull.induct) (auto split: if_splits)
  from run obtain ss' where "segs_ReadFull (c_end c) n [] (c_in c) = (Inr b, ss')" "c_in c' = ss'"
    by (auto simp: Conn_ReadFull_def split: prod.splits)
  from gen [OF this(1)] this(2) show ?thesis by simp
qed

lemma Conn_ReadFull_enough: "stream c = b @ rest \<Longrightarrow> \<exists>c'. Conn_ReadFull (length b) c = (Inr b, c') \<and> stream c' = rest"
  using segs_ReadFull_enough [of "length b" "c_in c" "c_end c" "[]"] by (auto simp: Conn_ReadFull_def)

lemma Conn_ReadFull_end: "stream c = [] \<Longrightarrow> 0 < n \<Longrightarrow> \<exists>e c'. Conn_ReadFull n c = (Inl e, c')"
proof (cases "Conn_ReadFull n c")
  case (Pair r c')
  assume "stream c = []" "0 < n"
  with Pair Conn_ReadFull_consumes [of n c _ c'] show ?thesis by (cases r) auto
qed

lemma read_raw_frame_frame:
  assumes "stream c = frame p @ rest" "length p < 2 ^ 32"
  shows "\<exists>c'. read_raw_frame c = (Inr p, c') \<and> stream c' = rest \<and> c' = c\<lparr>c_in := c_in c'\<rparr>"
proof -
  let ?len = "le_bytes 4 (word_of_nat (length p) :: u32)"
  have "stream c = ?len @ p @ rest" using assms(1) by (simp add: frame_def)
  from Conn_ReadFull_enough [OF this] obtain c1 where c1: "Conn_ReadFull 4 c = (Inr ?len, c1)" "stream c1 = p @ rest" by auto
  from Conn_ReadFull_enough [OF c1(2)] obtain c2 where c2: "Conn_ReadFull (length p) c1 = (Inr p, c2)" "stream c2 = rest" by auto
  have "unat (from_le ?len :: u32) = length p" using assms(2) by (simp add: unat_length_u32)
  with c1 c2 have "read_raw_frame c = (Inr p, c2)" by (simp add: read_raw_frame_def)
  moreover have "c2 = c\<lparr>c_in := c_in c2\<rparr>"
    using Conn_ReadFull_fields [OF c1(1)] Conn_ReadFull_fields [OF c2(1)] by (metis Conn.surjective Conn.update_convs(1))
  ultimately show ?thesis using c2(2) by blast
qed

lemma read_raw_frame_shrinks: "read_raw_frame c = (Inr p, c') \<Longrightarrow> length (stream c') < length (stream c)"
  by (auto simp: read_raw_frame_def split: prod.splits sum.splits dest!: Conn_ReadFull_consumes)

lemma read_raw_frame_end: "stream c = [] \<Longrightarrow> \<exists>e c'. read_raw_frame c = (Inl e, c')"
  using Conn_ReadFull_end [of c 4] by (auto simp: read_raw_frame_def)

lemma read_raw_frame_fields: "read_raw_frame c = (r, c') \<Longrightarrow> c' = c\<lparr>c_in := c_in c'\<rparr>"
proof -
  assume run: "read_raw_frame c = (r, c')"
  obtain x c1 where x: "Conn_ReadFull 4 c = (x, c1)" by fastforce
  show ?thesis
  proof (cases x)
    case (Inl e)
    with run x Conn_ReadFull_fields [OF x] show ?thesis by (simp add: read_raw_frame_def)
  next
    case (Inr b)
    with run x have "Conn_ReadFull (unat (from_le b :: u32)) c1 = (r, c')" by (simp add: read_raw_frame_def)
    from Conn_ReadFull_fields [OF this] Conn_ReadFull_fields [OF x] show ?thesis
      by (metis Conn.surjective Conn.update_convs(1))
  qed
qed

end
