(* ===== verification/Outcomes.thy ===== *)
theory Outcomes
  imports Registry
begin

text \<open>
  How a transfer ends: \<^verbatim>\<open>classifyTransferError\<close>, \<^verbatim>\<open>fail\<close> and \<^verbatim>\<open>complete\<close> of the download orchestrator
  (\<^verbatim>\<open>src/client/download.go\<close>) and of the upload orchestrator (\<^verbatim>\<open>src/client/upload.go\<close>), which have the same bodies.
\<close>

section \<open>Definitions\<close>

definition classifyTransferError :: "go_error \<Rightarrow> TransferState" where
  "classifyTransferError err =
     (if errors_As is_TransferRejected err then TransferStateRejected
      else if errors_As is_TransferSizeMismatch err then TransferStateAborted
      else TransferStateErrored)"

text \<open>The \<^verbatim>\<open>switch\<close> of \<^verbatim>\<open>fail\<close>: the terminal state for an error.\<close>

definition failed_state :: "go_error \<Rightarrow> TransferState" where
  "failed_state err =
     (let state = TransferStateCompleted
      in if errors_Is err Canceled then state OR TransferStateCancelled
         else if errors_Is err DeadlineExceeded then state OR TransferStateTimedOut
         else state OR classifyTransferError err)"

definition download_fail :: "time \<Rightarrow> go_error \<Rightarrow> Transfer \<Rightarrow> go_panic + Transfer" where
  "download_fail now err t = emitProgress (SetState now (failed_state err) (t\<lparr>t_Error := Some err\<rparr>))"

definition upload_fail :: "time \<Rightarrow> go_error \<Rightarrow> Transfer \<Rightarrow> go_panic + Transfer" where
  "upload_fail now err t = emitProgress (SetState now (failed_state err) (t\<lparr>t_Error := Some err\<rparr>))"

definition download_complete :: "time \<Rightarrow> Transfer \<Rightarrow> go_panic + Transfer" where
  "download_complete now t =
     emitProgress (SetState now (TransferStateCompleted OR TransferStateSucceeded) (t\<lparr>t_Transferred := t_Size t\<rparr>))"

definition upload_complete :: "time \<Rightarrow> Transfer \<Rightarrow> go_panic + Transfer" where
  "upload_complete now t =
     emitProgress (SetState now (TransferStateCompleted OR TransferStateSucceeded) (t\<lparr>t_Transferred := t_Size t\<rparr>))"

section \<open>Classification\<close>

lemma flag_values:
  "TransferStateCompleted = 0x10" "TransferStateSucceeded = 0x20" "TransferStateCancelled = 0x40"
  "TransferStateTimedOut = 0x80" "TransferStateErrored = 0x100" "TransferStateRejected = 0x200" "TransferStateAborted = 0x400"
  by (simp_all add: state_flag_defs)

lemma failed_state_cases:
  "failed_state e \<in> {TransferStateCompleted OR TransferStateCancelled, TransferStateCompleted OR TransferStateTimedOut,
     TransferStateCompleted OR TransferStateRejected, TransferStateCompleted OR TransferStateAborted,
     TransferStateCompleted OR TransferStateErrored}"
  by (simp add: failed_state_def classifyTransferError_def Let_def)

text \<open>The outcome flags of a state: success, cancelled, timed out, errored, rejected, aborted.\<close>

definition outcome_bits :: "TransferState \<Rightarrow> nat list" where
  "outcome_bits s = filter (\<lambda>n. bit s n) [5, 6, 7, 8, 9, 10]"

lemma terminal_values:
  "bit (TransferStateCompleted OR TransferStateCancelled) 4 \<and> outcome_bits (TransferStateCompleted OR TransferStateCancelled) = [6]"
  "bit (TransferStateCompleted OR TransferStateTimedOut) 4 \<and> outcome_bits (TransferStateCompleted OR TransferStateTimedOut) = [7]"
  "bit (TransferStateCompleted OR TransferStateRejected) 4 \<and> outcome_bits (TransferStateCompleted OR TransferStateRejected) = [9]"
  "bit (TransferStateCompleted OR TransferStateAborted) 4 \<and> outcome_bits (TransferStateCompleted OR TransferStateAborted) = [10]"
  "bit (TransferStateCompleted OR TransferStateErrored) 4 \<and> outcome_bits (TransferStateCompleted OR TransferStateErrored) = [8]"
  "bit (TransferStateCompleted OR TransferStateSucceeded) 4 \<and> outcome_bits (TransferStateCompleted OR TransferStateSucceeded) = [5]"
  by code_simp+

lemma failed_state_terminal: "IsCompleted (failed_state e) \<and> \<not> IsActive (failed_state e) \<and> length (outcome_bits (failed_state e)) = 1"
  using failed_state_cases [of e] terminal_values by (auto simp: IsCompleted_bit IsActive_bit)

lemma failed_state_Wrap [simp]: "failed_state (WrapError m e) = failed_state e"
  by (simp add: failed_state_def classifyTransferError_def)

lemma failed_state_wrapped: "failed_state (foldr WrapError ms e) = failed_state e"
  by (induction ms) simp_all

lemma failed_state_leaves:
  "failed_state Canceled = TransferStateCompleted OR TransferStateCancelled"
  "failed_state DeadlineExceeded = TransferStateCompleted OR TransferStateTimedOut"
  "failed_state (TransferRejectedError r) = TransferStateCompleted OR TransferStateRejected"
  "failed_state (TransferSizeMismatchError l m) = TransferStateCompleted OR TransferStateAborted"
  "failed_state (TransferFailedError u f) = TransferStateCompleted OR TransferStateErrored"
  "failed_state (ErrorString s) = TransferStateCompleted OR TransferStateErrored"
  by (simp_all add: failed_state_def classifyTransferError_def errors_Is_leaf errors_As_leaf)

lemma other_failure:
  assumes "\<not> errors_Is e Canceled" "\<not> errors_Is e DeadlineExceeded" "\<not> errors_As is_TransferRejected e" "\<not> errors_As is_TransferSizeMismatch e"
  shows "failed_state e = TransferStateCompleted OR TransferStateErrored"
  using assms by (simp add: failed_state_def classifyTransferError_def)

text \<open>A connection error is judged by what is below it, so a cancelled read is a cancellation.\<close>

lemma failed_state_ConnectionError: "failed_state (ConnectionError op n t e) = failed_state e"
proof -
  have "errors_Is (ConnectionError op n t e) Canceled = errors_Is e Canceled"
    "errors_Is (ConnectionError op n t e) DeadlineExceeded = errors_Is e DeadlineExceeded"
    by (subst errors_Is.simps; simp)+
  moreover have "errors_As is_TransferRejected (ConnectionError op n t e) = errors_As is_TransferRejected e"
    "errors_As is_TransferSizeMismatch (ConnectionError op n t e) = errors_As is_TransferSizeMismatch e"
    by (subst errors_As.simps; simp)+
  ultimately show ?thesis by (simp add: failed_state_def classifyTransferError_def)
qed

lemma report_fields:
  assumes "open_progress t" "emitProgress t = Inr t'"
  shows "t_state t' = t_state t" "t_Error t' = t_Error t" "t_Transferred t' = t_Transferred t" "t_Size t' = t_Size t"
    "identity t' = identity t" "open_progress t'" "t_EndTime t' = t_EndTime t" "t_RemoteToken t' = t_RemoteToken t"
    "t_StartOffset t' = t_StartOffset t" "t_transferReadyCh t' = t_transferReadyCh t" "t_transferConnCh t' = t_transferConnCh t"
  using assms by (auto simp: emitProgress_open identity_def open_progress_def)

lemma report_ok: "open_progress t \<Longrightarrow> \<exists>t'. emitProgress t = Inr t'"
  by (simp add: emitProgress_open)

section \<open>Property\<close>

text \<open>
  C38: A failed transfer ends in exactly one way. \<^verbatim>\<open>fail\<close>, of a download or an upload whose progress channel is open,
  records the error and moves to a completed, inactive state with exactly one outcome flag. However many layers
  \<^verbatim>\<open>fmt.Errorf("...: %w")\<close> put around the cause on its way up: a cancelled context gives Cancelled, an expired one
  TimedOut, a rejection by the peer Rejected, a size mismatch Aborted; every error that is none of these, and has none of them
  underneath, gives Errored, among them a failure reported by the peer; and a connection error counts as its underlying error.
\<close>

theorem failure_outcome:
  assumes "open_progress t"
  shows "(\<exists>t'. download_fail now (foldr WrapError ms e) t = Inr t' \<and> upload_fail now (foldr WrapError ms e) t = Inr t' \<and>
            t_Error t' = Some (foldr WrapError ms e) \<and> t_state t' = failed_state e \<and>
            IsCompleted (t_state t') \<and> \<not> IsActive (t_state t') \<and> length (outcome_bits (t_state t')) = 1)
       \<and> failed_state Canceled = TransferStateCompleted OR TransferStateCancelled
       \<and> failed_state DeadlineExceeded = TransferStateCompleted OR TransferStateTimedOut
       \<and> failed_state (TransferRejectedError r) = TransferStateCompleted OR TransferStateRejected
       \<and> failed_state (TransferSizeMismatchError l m) = TransferStateCompleted OR TransferStateAborted
       \<and> failed_state (TransferFailedError u f) = TransferStateCompleted OR TransferStateErrored
       \<and> failed_state (ConnectionError op n k e) = failed_state e
       \<and> (\<not> errors_Is e Canceled \<and> \<not> errors_Is e DeadlineExceeded \<and> \<not> errors_As is_TransferRejected e \<and> \<not> errors_As is_TransferSizeMismatch e \<longrightarrow>
            failed_state (foldr WrapError ms e) = TransferStateCompleted OR TransferStateErrored)"
proof -
  let ?t = "SetState now (failed_state e) (t\<lparr>t_Error := Some (foldr WrapError ms e)\<rparr>)"
  have "open_progress ?t" using assms by (simp add: open_progress_def)
  then obtain t' where t': "emitProgress ?t = Inr t'" using report_ok by blast
  have "t_state t' = failed_state e" "t_Error t' = Some (foldr WrapError ms e)"
    using report_fields [OF \<open>open_progress ?t\<close> t'] by simp_all
  with t' failed_state_terminal [of e] show ?thesis
    by (simp add: download_fail_def upload_fail_def failed_state_wrapped failed_state_leaves failed_state_ConnectionError other_failure)
qed

theorem failure_outcome_witness:
  "\<exists>t'. download_fail 5 (WrapError ''connect to peer'' (WrapError ''dial'' Canceled)) (NewTransfer 0 ''u'' ''f'' 1) = Inr t'
     \<and> t_state t' = TransferStateCompleted OR TransferStateCancelled"
proof -
  have "open_progress (NewTransfer 0 ''u'' ''f'' 1)" by (simp add: NewTransfer_def open_progress_def)
  from failure_outcome [OF this, of 5 "[''connect to peer'', ''dial'']" Canceled "[]" 0 0 "[]" "[]" "[]" 0 0]
  show ?thesis by (auto simp: failed_state_leaves)
qed

end
