(* ===== verification/Streaming.thy ===== *)
theory Streaming
  imports Connection Outcomes
begin

text \<open>
  The two data loops of a transfer: \<^verbatim>\<open>transferData\<close> of the download orchestrator (\<^verbatim>\<open>src/client/download.go\<close>), which copies
  from the connection to the caller's writer, and \<^verbatim>\<open>streamFile\<close> of the upload orchestrator (\<^verbatim>\<open>src/client/upload.go\<close>),
  which copies from a file to the connection. Byte counts are 64-bit words, as in the code. The context and the clock may
  change between iterations, so they are functions of the iteration number. A file is a sequence of segments, one per
  \<^verbatim>\<open>Read\<close>, so short reads are included.
\<close>

section \<open>64-bit counts\<close>

lemma sint_of_nat [simp]: "n < 2 ^ 63 \<Longrightarrow> sint (word_of_nat n :: i64) = int n"
  by (simp add: signed_of_nat signed_take_bit_int_eq_self)

definition bufferSize :: int where "bufferSize = 64 * 1024"

text \<open>\<^verbatim>\<open>min(int64(len(buf)), remaining)\<close>\<close>

definition chunk :: "i64 \<Rightarrow> nat" where
  "chunk remaining = nat (min bufferSize (sint remaining))"

section \<open>Receiving\<close>

type_synonym 'w writer = "byte list \<Rightarrow> 'w \<Rightarrow> go_error option \<times> 'w"

record 'w recv =
  rc_conn :: Conn
  rc_sink :: 'w
  rc_transfer :: Transfer

text \<open>The loop; \<open>i\<close> numbers the iterations and \<open>received\<close> counts the bytes.\<close>

function receive_loop ::
  "(nat \<Rightarrow> go_error option) \<Rightarrow> (nat \<Rightarrow> time) \<Rightarrow> 'w writer \<Rightarrow> i64 \<Rightarrow> i64 \<Rightarrow> nat \<Rightarrow> i64 \<Rightarrow> 'w recv \<Rightarrow>
     go_panic + (go_error option \<times> 'w recv)" where
  "receive_loop ctx now wr startOffset fileSize i received st =
     (let toReceive = fileSize - startOffset in
      if \<not> sint received < sint toReceive then Inr (None, st)
      else case ctx i of
        Some err \<Rightarrow> Inr (Some err, st)
      | None \<Rightarrow>
          (let toRead = chunk (toReceive - received) in
           if toRead = 0 then Inl IndexOutOfRange \<comment> \<open>\<open>buf[:toRead]\<close> with a negative bound\<close>
           else case Conn_Read toRead (rc_conn st) of
             ((data, Some err), c) \<Rightarrow>
               if errors_Is err EOF \<and> received = toReceive then Inr (None, st\<lparr>rc_conn := c\<rparr>)
               else Inr (Some (ConnectionError ''read'' (startOffset + received) fileSize err), st\<lparr>rc_conn := c\<rparr>)
           | ((data, None), c) \<Rightarrow>
               (case wr data (rc_sink st) of
                  (Some err, w) \<Rightarrow> Inr (Some (WrapError ''write'' err), st\<lparr>rc_conn := c, rc_sink := w\<rparr>)
                | (None, w) \<Rightarrow>
                    (let received = received + word_of_nat (length data)
                     in case emitProgress (UpdateProgress (now i) (startOffset + received) (rc_transfer st)) of
                          Inl panic \<Rightarrow> Inl panic
                        | Inr t \<Rightarrow> receive_loop ctx now wr startOffset fileSize (i + 1) received
                                     \<lparr>rc_conn = c, rc_sink = w, rc_transfer = t\<rparr>))))"
  by pat_completeness auto

lemma Conn_Read_shrinks:
  "Conn_Read n c = ((data, None), c') \<Longrightarrow> n \<noteq> 0 \<Longrightarrow>
     length (concat (c_in c')) + length (c_in c') < length (concat (c_in c)) + length (c_in c)"
  by (auto simp: Conn_Read_def split: list.splits if_splits)

termination receive_loop
  by (relation "measure (\<lambda>(ctx, now, wr, so, fs, i, r, st). length (concat (c_in (rc_conn st))) + length (c_in (rc_conn st)))")
    (auto dest: Conn_Read_shrinks [OF sym])

declare receive_loop.simps [simp del]

definition transferData ::
  "(nat \<Rightarrow> go_error option) \<Rightarrow> (nat \<Rightarrow> time) \<Rightarrow> 'w writer \<Rightarrow> 'w recv \<Rightarrow> go_panic + (go_error option \<times> 'w recv)" where
  "transferData ctx now wr st =
     (case Conn_Write (le_bytes 8 (t_StartOffset (rc_transfer st))) (rc_conn st) of
        (Some err, c) \<Rightarrow> Inr (Some (WrapError ''send offset'' err), st\<lparr>rc_conn := c\<rparr>)
      | (None, c) \<Rightarrow>
          (case emitProgress (SetState (now 0) TransferStateInProgress (rc_transfer st)) of
             Inl panic \<Rightarrow> Inl panic
           | Inr t \<Rightarrow> receive_loop ctx now wr (t_StartOffset t) (t_Size t) 1 0 (st\<lparr>rc_conn := c, rc_transfer := t\<rparr>)))"

section \<open>Sending\<close>

text \<open>An open file: the data the next reads return, and the error after them (normally \<^verbatim>\<open>io.EOF\<close>).\<close>

record FileReader =
  fr_segs :: "byte list list"
  fr_end :: go_error

text \<open>\<^verbatim>\<open>file.Read(buf[:k])\<close>\<close>

definition file_Read :: "nat \<Rightarrow> FileReader \<Rightarrow> (byte list \<times> go_error option) \<times> FileReader" where
  "file_Read k f = (case fr_segs f of
       [] \<Rightarrow> (([], Some (fr_end f)), f)
     | s # ss \<Rightarrow> if k < length s then ((take k s, None), f\<lparr>fr_segs := drop k s # ss\<rparr>)
                 else ((s, None), f\<lparr>fr_segs := ss\<rparr>))"

record send =
  sn_conn :: Conn
  sn_file :: FileReader
  sn_transfer :: Transfer

function send_loop ::
  "(nat \<Rightarrow> go_error option) \<Rightarrow> (nat \<Rightarrow> time) \<Rightarrow> i64 \<Rightarrow> nat \<Rightarrow> i64 \<Rightarrow> send \<Rightarrow> go_panic + (go_error option \<times> send)" where
  "send_loop ctx now offset i sent st =
     (let toSend = t_Size (sn_transfer st) - offset in
      if \<not> sint sent < sint toSend then Inr (None, st)
      else case ctx i of
        Some err \<Rightarrow> Inr (Some err, st)
      | None \<Rightarrow>
          (let toRead = chunk (toSend - sent) in
           if toRead = 0 then Inl IndexOutOfRange
           else case file_Read toRead (sn_file st) of
             ((data, err), f) \<Rightarrow>
               (if err \<noteq> None \<and> err \<noteq> Some EOF then Inr (Some (WrapError ''read file'' (the err)), st\<lparr>sn_file := f\<rparr>)
                else if data = [] then Inr (None, st\<lparr>sn_file := f\<rparr>)
                else case socket_Write data (sn_conn st) of
                  (Some werr, c) \<Rightarrow>
                    Inr (Some (ConnectionError ''write'' (offset + sent) (t_Size (sn_transfer st)) werr),
                         st\<lparr>sn_file := f, sn_conn := c\<rparr>)
                | (None, c) \<Rightarrow>
                    (let sent = sent + word_of_nat (length data)
                     in case emitProgress (UpdateProgress (now i) (offset + sent) (sn_transfer st)) of
                          Inl panic \<Rightarrow> Inl panic
                        | Inr t \<Rightarrow> send_loop ctx now offset (i + 1) sent \<lparr>sn_conn = c, sn_file = f, sn_transfer = t\<rparr>))))"
  by pat_completeness auto

lemma file_Read_shrinks:
  "file_Read n f = ((data, e), f') \<Longrightarrow> data \<noteq> [] \<Longrightarrow> length (concat (fr_segs f')) < length (concat (fr_segs f))"
  by (auto simp: file_Read_def split: list.splits if_splits)

termination send_loop
  by (relation "measure (\<lambda>(ctx, now, off, i, s, st). length (concat (fr_segs (sn_file st))))")
    (auto dest: file_Read_shrinks [OF sym])

declare send_loop.simps [simp del]

text \<open>
  \<^verbatim>\<open>os.Open\<close> on a path answers an error, or an open file: read from the start, or from where \<^verbatim>\<open>Seek\<close> puts it.
\<close>

record OpenFile =
  of_start :: FileReader
  of_Seek :: "nat \<Rightarrow> go_error + FileReader"

definition streamFile ::
  "(string \<Rightarrow> go_error + OpenFile) \<Rightarrow> (nat \<Rightarrow> go_error option) \<Rightarrow> (nat \<Rightarrow> time) \<Rightarrow> Conn \<Rightarrow> Transfer \<Rightarrow>
     go_panic + (go_error option \<times> Conn \<times> Transfer)" where
  "streamFile os_Open ctx now conn t =
     (case Conn_ReadFull 8 conn of
        (Inl err, c) \<Rightarrow> Inr (Some (WrapError ''read offset'' err), c, t)
      | (Inr offsetBuf, c) \<Rightarrow>
          (let offset = (from_le offsetBuf :: i64) in
           if sint offset > sint (t_Size t)
           then Inr (Some (ErrorString (''invalid offset '' @ decimal_int (sint offset) @ '' > size '' @ decimal_int (sint (t_Size t)))), c, t)
           else let t = t\<lparr>t_StartOffset := offset, t_Transferred := offset\<rparr>
             in case t_sharedFile t of
                  None \<Rightarrow> Inr (Some (ErrorString ''no shared file set''), c, t)
                | Some sf \<Rightarrow>
                    (case os_Open (sh_LocalPath sf) of
                       Inl err \<Rightarrow> Inr (Some (WrapError ''open file'' err), c, t)
                     | Inr fil \<Rightarrow>
                         (case (if sint offset > 0 then of_Seek fil (nat (sint offset)) else Inr (of_start fil)) of
                            Inl err \<Rightarrow> Inr (Some (WrapError ''seek'' err), c, t)
                          | Inr f \<Rightarrow>
                              (case send_loop ctx now offset 0 0 \<lparr>sn_conn = c, sn_file = f, sn_transfer = t\<rparr> of
                                 Inl panic \<Rightarrow> Inl panic
                               | Inr (e, st) \<Rightarrow> Inr (e, sn_conn st, sn_transfer st))))))"

section \<open>Where the bytes go\<close>

text \<open>
  The interface of a destination, a writer or a socket: what a successful write is given is appended to the contents.
\<close>

locale data_sink =
  fixes put :: "byte list \<Rightarrow> 'w \<Rightarrow> go_error option \<times> 'w"
    and contents :: "'w \<Rightarrow> byte list"
  assumes write_appends: "put d w = (None, w') \<Longrightarrow> contents w' = contents w @ d"
begin

text \<open>A destination that takes everything.\<close>

definition reliable :: bool where
  "reliable \<longleftrightarrow> (\<forall>d w. fst (put d w) = None)"

lemma reliableD: "reliable \<Longrightarrow> \<exists>w'. put d w = (None, w') \<and> contents w' = contents w @ d"
  using write_appends [of d w "snd (put d w)"] by (metis reliable_def prod.collapse)

end

lemma chunk_pos: "r < T \<Longrightarrow> T < 2 ^ 63 \<Longrightarrow> 0 < chunk (word_of_nat T - word_of_nat r)"
  and chunk_le: "r < T \<Longrightarrow> T < 2 ^ 63 \<Longrightarrow> chunk (word_of_nat T - word_of_nat r) \<le> T - r"
proof -
  assume *: "r < T" "T < 2 ^ 63"
  then have "(word_of_nat T - word_of_nat r :: i64) = word_of_nat (T - r)" by (simp add: of_nat_diff)
  moreover have "sint (word_of_nat (T - r) :: i64) = int (T - r)" using * by (intro sint_of_nat) simp
  ultimately show "0 < chunk (word_of_nat T - word_of_nat r)" "chunk (word_of_nat T - word_of_nat r) \<le> T - r"
    using *(1) by (simp_all add: chunk_def bufferSize_def del: sint_of_nat)
qed

lemma Conn_Read_stream:
  assumes "Conn_Read n c = ((data, None), c')"
  shows "stream c = data @ stream c'" "length data \<le> n" "c_end c' = c_end c" "c_out c' = c_out c"
    "c_werr c' = c_werr c" "c_room c' = c_room c"
  using assms by (auto simp: Conn_Read_def split: list.splits if_splits)

lemma Conn_Read_some: "c_in c = s # ss \<Longrightarrow> \<exists>data c'. Conn_Read n c = ((data, None), c')"
  by (cases "n < length s") (simp_all add: Conn_Read_def)

lemma Conn_Read_error: "Conn_Read n c = ((data, Some e), c') \<Longrightarrow> stream c = [] \<and> e = c_end c \<and> c' = c"
  by (auto simp: Conn_Read_def split: list.splits if_splits)

text \<open>One report of progress during the transfer.\<close>

lemma report_progress:
  assumes "open_progress t"
  shows "\<exists>t'. emitProgress (UpdateProgress now b t) = Inr t' \<and> open_progress t' \<and> t_Transferred t' = b \<and> t_Size t' = t_Size t
     \<and> t_state t' = t_state t \<and> identity t' = identity t \<and> t_StartOffset t' = t_StartOffset t
     \<and> t_transferReadyCh t' = t_transferReadyCh t"
proof -
  have "open_progress (UpdateProgress now b t)" using assms by (simp add: open_progress_def)
  then obtain t' where t': "emitProgress (UpdateProgress now b t) = Inr t'" using report_ok by blast
  from report_fields [OF \<open>open_progress (UpdateProgress now b t)\<close> this] t' show ?thesis
    by simp
qed

text \<open>The count is complete when the last chunk has been reported.\<close>

lemma counted_all:
  assumes "received = (word_of_nat r :: i64)" "n \<le> T - r" "r < T" "T - r \<le> n + l"
    and "r + n < T \<and> T - (r + n) \<le> l \<longrightarrow> x = base + word_of_nat T" "r + n = T \<longrightarrow> x = base + (received + word_of_nat n)"
  shows "x = base + word_of_nat T"
proof (cases "r + n = T")
  case True
  then have "(word_of_nat T :: i64) = received + word_of_nat n" using assms(1) by auto
  with True assms(6) show ?thesis by simp
qed (use assms in auto)

section \<open>The receiving loop\<close>

context data_sink
begin

text \<open>One chunk: what was read is written and counted.\<close>

lemma receive_step:
  assumes "sint received < sint (fileSize - startOffset)" "ctx i = None" "0 < chunk (fileSize - startOffset - received)"
    and "Conn_Read (chunk (fileSize - startOffset - received)) (rc_conn st) = ((data, None), c)" "put data (rc_sink st) = (None, w)"
    and "open_progress (rc_transfer st)" "r = received + word_of_nat (length data)"
  obtains t where "receive_loop ctx now put startOffset fileSize i received st =
      receive_loop ctx now put startOffset fileSize (i + 1) r \<lparr>rc_conn = c, rc_sink = w, rc_transfer = t\<rparr>"
    "open_progress t" "t_Transferred t = startOffset + r" "t_Size t = t_Size (rc_transfer st)" "t_state t = t_state (rc_transfer st)"
    "identity t = identity (rc_transfer st)" "t_StartOffset t = t_StartOffset (rc_transfer st)"
    "t_transferReadyCh t = t_transferReadyCh (rc_transfer st)"
proof -
  obtain t where t: "emitProgress (UpdateProgress (now i) (startOffset + r) (rc_transfer st)) = Inr t" "open_progress t"
    "t_Transferred t = startOffset + r" "t_Size t = t_Size (rc_transfer st)" "t_state t = t_state (rc_transfer st)"
    "identity t = identity (rc_transfer st)" "t_StartOffset t = t_StartOffset (rc_transfer st)"
    "t_transferReadyCh t = t_transferReadyCh (rc_transfer st)"
    using report_progress [OF assms(6)] by blast
  show ?thesis using assms(1-5,7) t by (intro that [of t]) (subst receive_loop.simps, simp add: Let_def)+
qed

text \<open>
  What the loop makes of the missing \<open>T - r\<close> bytes: while enough data arrives, it takes exactly those bytes off the
  connection and hands them to the writer in order; if the stream ends early it reports how far it got.
\<close>

definition receives :: "i64 \<Rightarrow> i64 \<Rightarrow> nat \<Rightarrow> nat \<Rightarrow> 'w recv \<Rightarrow> go_panic + (go_error option \<times> 'w recv) \<Rightarrow> bool" where
  "receives startOffset fileSize T r st res \<longleftrightarrow> (\<exists>st'. res =
        Inr (if T - r \<le> length (stream (rc_conn st)) then None
             else Some (ConnectionError ''read'' (startOffset + word_of_nat (r + length (stream (rc_conn st)))) fileSize
                          (c_end (rc_conn st))), st')
     \<and> contents (rc_sink st') = contents (rc_sink st) @ take (T - r) (stream (rc_conn st))
     \<and> stream (rc_conn st') = drop (T - r) (stream (rc_conn st)) \<and> c_out (rc_conn st') = c_out (rc_conn st)
     \<and> (r < T \<and> T - r \<le> length (stream (rc_conn st)) \<longrightarrow> t_Transferred (rc_transfer st') = startOffset + word_of_nat T)
     \<and> (r = T \<longrightarrow> t_Transferred (rc_transfer st') = t_Transferred (rc_transfer st))
     \<and> t_Size (rc_transfer st') = t_Size (rc_transfer st) \<and> t_state (rc_transfer st') = t_state (rc_transfer st)
     \<and> identity (rc_transfer st') = identity (rc_transfer st) \<and> open_progress (rc_transfer st'))"

lemma receives_step:
  assumes "receives startOffset fileSize T (r + length data) st1 res" "received = word_of_nat r" "length data \<le> T - r" "r < T"
    and "stream (rc_conn st) = data @ stream (rc_conn st1)" "c_end (rc_conn st1) = c_end (rc_conn st)" "c_out (rc_conn st1) = c_out (rc_conn st)"
    and "contents (rc_sink st1) = contents (rc_sink st) @ data"
    and "t_Transferred (rc_transfer st1) = startOffset + (received + word_of_nat (length data))"
    and "t_Size (rc_transfer st1) = t_Size (rc_transfer st)" "t_state (rc_transfer st1) = t_state (rc_transfer st)"
    "identity (rc_transfer st1) = identity (rc_transfer st)"
  shows "receives startOffset fileSize T r st res"
proof -
  define S where "S = stream (rc_conn st1)"
  from assms(1) obtain st' where st': "res = Inr (if T - (r + length data) \<le> length S then None
         else Some (ConnectionError ''read'' (startOffset + word_of_nat (r + length data + length S)) fileSize (c_end (rc_conn st1))), st')"
    "contents (rc_sink st') = contents (rc_sink st1) @ take (T - (r + length data)) S"
    "stream (rc_conn st') = drop (T - (r + length data)) S" "c_out (rc_conn st') = c_out (rc_conn st1)"
    "r + length data < T \<and> T - (r + length data) \<le> length S \<longrightarrow> t_Transferred (rc_transfer st') = startOffset + word_of_nat T"
    "r + length data = T \<longrightarrow> t_Transferred (rc_transfer st') = t_Transferred (rc_transfer st1)"
    "t_Size (rc_transfer st') = t_Size (rc_transfer st1)" "t_state (rc_transfer st') = t_state (rc_transfer st1)"
    "identity (rc_transfer st') = identity (rc_transfer st1)" "open_progress (rc_transfer st')"
    unfolding receives_def S_def [symmetric] by (elim exE conjE) rule
  have S: "stream (rc_conn st) = data @ S" using assms(5) by (simp add: S_def)
  have fit: "T - (r + length data) \<le> length S \<longleftrightarrow> T - r \<le> length (data @ S)" using assms(3) by auto
  have "t_Transferred (rc_transfer st') = startOffset + word_of_nat T" if "T - r \<le> length (data @ S)"
    using counted_all [OF assms(2-4) _ st'(5)] st'(6) that assms(9) by simp
  then show ?thesis unfolding receives_def S
    using st'(1-4,7-10) fit assms(3,4,6-8,10-12) by (intro exI [of _ st']) auto
qed

lemma receive_loop_receives:
  assumes "reliable" "\<forall>i. ctx i = None" "fileSize - startOffset = word_of_nat T" "T < 2 ^ 63"
    and "received = word_of_nat r" "r \<le> T" "open_progress (rc_transfer st)"
  shows "receives startOffset fileSize T r st (receive_loop ctx now put startOffset fileSize i received st)"
  using assms(5-7)
proof (induction "length (stream (rc_conn st)) + length (c_in (rc_conn st))" arbitrary: i received r st rule: less_induct)
  case (less st i received r)
  note prems = less.prems
  let ?c = "rc_conn st"
  let ?n = "chunk (fileSize - startOffset - received)"
  consider "r = T" | "r < T" "c_in ?c = []" | "r < T" "c_in ?c \<noteq> []" using prems(2) by linarith
  then show ?case
  proof cases
    case 1
    then show ?thesis using prems assms(3,4) by (subst receive_loop.simps) (simp add: Let_def receives_def)
  next
    case 2
    then have lt: "sint received < sint (fileSize - startOffset)" using prems assms(3,4) by simp
    moreover have "0 < ?n" using chunk_pos [of r T] 2 assms(3,4) prems(1) by simp
    moreover have "received \<noteq> fileSize - startOffset" using lt by auto
    ultimately show ?thesis using 2 assms(2) prems by (subst receive_loop.simps) (simp add: Let_def Conn_Read_def receives_def)
  next
    case 3
    then have lt: "sint received < sint (fileSize - startOffset)" using prems assms(3,4) by simp
    have n: "0 < ?n" "?n \<le> T - r" using chunk_pos [of r T] chunk_le [of r T] 3 assms(3,4) prems(1) by simp_all
    obtain data c where read: "Conn_Read ?n ?c = ((data, None), c)" using Conn_Read_some 3(2) by (metis neq_Nil_conv)
    note rd = Conn_Read_stream [OF read]
    obtain w where w: "put data (rc_sink st) = (None, w)" "contents w = contents (rc_sink st) @ data"
      using reliableD [OF assms(1)] by blast
    obtain t where t: "receive_loop ctx now put startOffset fileSize i received st = receive_loop ctx now put startOffset fileSize (i + 1)
        (received + word_of_nat (length data)) \<lparr>rc_conn = c, rc_sink = w, rc_transfer = t\<rparr>" "open_progress t"
      "t_Transferred t = startOffset + (received + word_of_nat (length data))" "t_Size t = t_Size (rc_transfer st)"
      "t_state t = t_state (rc_transfer st)" "identity t = identity (rc_transfer st)"
      using receive_step [OF lt _ n(1) read w(1) prems(3) refl, of ctx i now] assms(2) by metis
    have len: "length data \<le> T - r" using rd(2) n(2) by simp
    have "receives startOffset fileSize T (r + length data) \<lparr>rc_conn = c, rc_sink = w, rc_transfer = t\<rparr>
        (receive_loop ctx now put startOffset fileSize i received st)"
      unfolding t(1) using Conn_Read_shrinks [OF read] n(1) prems len t(2) 3(1) by (intro less.hyps) simp_all
    then show ?thesis by (rule receives_step [OF _ prems(1) len 3(1)]) (simp_all add: rd w t)
  qed
qed

lemmas receive_loop_correct = receive_loop_receives [unfolded receives_def]

end

section \<open>The sending loop\<close>

abbreviation file_data :: "FileReader \<Rightarrow> byte list" where
  "file_data f \<equiv> concat (fr_segs f)"

text \<open>A file whose reads return data until its end.\<close>

definition plain_file :: "FileReader \<Rightarrow> bool" where
  "plain_file f \<longleftrightarrow> fr_end f = EOF \<and> [] \<notin> set (fr_segs f)"

lemma file_Read_plain:
  assumes "plain_file f" "0 < n" "fr_segs f \<noteq> []"
  shows "\<exists>data f'. file_Read n f = ((data, None), f') \<and> data \<noteq> [] \<and> length data \<le> n \<and> plain_file f' \<and>
     file_data f = data @ file_data f'"
proof -
  obtain s ss where s: "fr_segs f = s # ss" using assms(3) by (cases "fr_segs f") auto
  then show ?thesis using assms
    by (cases "n < length s") (auto simp: file_Read_def plain_file_def dest: in_set_takeD)
qed

interpretation sock: data_sink socket_Write c_out
  by unfold_locales (auto simp: socket_Write_def split: option.splits if_splits)

interpretation appending: data_sink "\<lambda>d w. (None, w @ d)" "\<lambda>w. w"
  by unfold_locales simp

lemma socket_Write_unlimited: "c_room c = None \<Longrightarrow> socket_Write d c = (None, c\<lparr>c_out := c_out c @ d\<rparr>)"
  by (simp add: socket_Write_def)

text \<open>
  What the sending loop makes of the missing \<open>T - r\<close> bytes: they are sent as far as the file has them, and counted if it has them all.
\<close>

definition sends_file :: "i64 \<Rightarrow> nat \<Rightarrow> nat \<Rightarrow> send \<Rightarrow> go_panic + (go_error option \<times> send) \<Rightarrow> bool" where
  "sends_file offset T r st res \<longleftrightarrow> (\<exists>st'. res = Inr (None, st')
     \<and> c_out (sn_conn st') = c_out (sn_conn st) @ take (T - r) (file_data (sn_file st))
     \<and> c_in (sn_conn st') = c_in (sn_conn st)
     \<and> (r < T \<and> T - r \<le> length (file_data (sn_file st)) \<longrightarrow> t_Transferred (sn_transfer st') = offset + word_of_nat T)
     \<and> (r = T \<longrightarrow> t_Transferred (sn_transfer st') = t_Transferred (sn_transfer st))
     \<and> t_Size (sn_transfer st') = t_Size (sn_transfer st) \<and> t_state (sn_transfer st') = t_state (sn_transfer st)
     \<and> identity (sn_transfer st') = identity (sn_transfer st) \<and> open_progress (sn_transfer st'))"

lemma sends_file_step:
  assumes "sends_file offset T (r + length data) st1 res" "sent = word_of_nat r" "length data \<le> T - r" "r < T"
    and "file_data (sn_file st) = data @ file_data (sn_file st1)" "c_in (sn_conn st1) = c_in (sn_conn st)"
    and "c_out (sn_conn st1) = c_out (sn_conn st) @ data"
    and "t_Transferred (sn_transfer st1) = offset + (sent + word_of_nat (length data))"
    and "t_Size (sn_transfer st1) = t_Size (sn_transfer st)" "t_state (sn_transfer st1) = t_state (sn_transfer st)"
    "identity (sn_transfer st1) = identity (sn_transfer st)"
  shows "sends_file offset T r st res"
proof -
  define S where "S = file_data (sn_file st1)"
  from assms(1) obtain st' where st': "res = Inr (None, st')"
    "c_out (sn_conn st') = c_out (sn_conn st1) @ take (T - (r + length data)) S" "c_in (sn_conn st') = c_in (sn_conn st1)"
    "r + length data < T \<and> T - (r + length data) \<le> length S \<longrightarrow> t_Transferred (sn_transfer st') = offset + word_of_nat T"
    "r + length data = T \<longrightarrow> t_Transferred (sn_transfer st') = t_Transferred (sn_transfer st1)"
    "t_Size (sn_transfer st') = t_Size (sn_transfer st1)" "t_state (sn_transfer st') = t_state (sn_transfer st1)"
    "identity (sn_transfer st') = identity (sn_transfer st1)" "open_progress (sn_transfer st')"
    unfolding sends_file_def S_def [symmetric] by (elim exE conjE) rule
  have S: "file_data (sn_file st) = data @ S" using assms(5) by (simp add: S_def)
  have "t_Transferred (sn_transfer st') = offset + word_of_nat T" if "T - r \<le> length (data @ S)"
    using counted_all [OF assms(2-4) _ st'(4)] st'(5) that assms(8) by simp
  then show ?thesis unfolding sends_file_def S
    using st'(1-3,6-9) assms(3,4,6,7,9-11) by (intro exI [of _ st']) auto
qed

lemma send_loop_sends:
  assumes "\<forall>i. ctx i = None" "T < 2 ^ 63"
    and "t_Size (sn_transfer st) - offset = word_of_nat T" "sent = word_of_nat r" "r \<le> T" "open_progress (sn_transfer st)"
    and "c_room (sn_conn st) = None" "plain_file (sn_file st)"
  shows "sends_file offset T r st (send_loop ctx now offset i sent st)"
  using assms(3-8)
proof (induction "length (file_data (sn_file st))" arbitrary: i sent r st rule: less_induct)
  case (less st i sent r)
  note prems = less.prems
  let ?S = "t_Size (sn_transfer st)"
  let ?n = "chunk (?S - offset - sent)"
  consider "r = T" | "r < T" "fr_segs (sn_file st) = []" | "r < T" "fr_segs (sn_file st) \<noteq> []" using prems(3) by linarith
  then show ?case
  proof cases
    case 1
    then show ?thesis using prems assms(2) by (subst send_loop.simps) (simp add: Let_def sends_file_def)
  next
    case 2
    then have "sint sent < sint (?S - offset)" "0 < ?n" using chunk_pos [of r T] prems(1-3) assms(2) by simp_all
    then show ?thesis using 2 prems assms(1)
      by (subst send_loop.simps) (simp add: Let_def file_Read_def plain_file_def sends_file_def)
  next
    case 3
    then have lt: "sint sent < sint (?S - offset)" using prems(1-3) assms(2) by simp
    have n: "0 < ?n" "?n \<le> T - r" using chunk_pos [of r T] chunk_le [of r T] 3 prems(1-3) assms(2) by simp_all
    obtain data f where read: "file_Read ?n (sn_file st) = ((data, None), f)" "data \<noteq> []" "length data \<le> ?n" "plain_file f"
      "file_data (sn_file st) = data @ file_data f"
      using file_Read_plain [OF prems(6) n(1) 3(2)] by blast
    let ?c = "(sn_conn st)\<lparr>c_out := c_out (sn_conn st) @ data\<rparr>"
    let ?b = "offset + (sent + word_of_nat (length data))"
    obtain t where t: "emitProgress (UpdateProgress (now i) ?b (sn_transfer st)) = Inr t" "open_progress t" "t_Transferred t = ?b"
      "t_Size t = ?S" "t_state t = t_state (sn_transfer st)" "identity t = identity (sn_transfer st)"
      using report_progress [OF prems(4)] by blast
    let ?st = "\<lparr>sn_conn = ?c, sn_file = f, sn_transfer = t\<rparr>"
    have step: "send_loop ctx now offset i sent st = send_loop ctx now offset (i + 1) (sent + word_of_nat (length data)) ?st"
      using lt n(1) assms(1) read(1,2) t(1) socket_Write_unlimited [OF prems(5)] by (subst send_loop.simps) (simp add: Let_def)
    have len: "length data \<le> T - r" using read(3) n(2) by simp
    have "sends_file offset T (r + length data) ?st (send_loop ctx now offset i sent st)"
      unfolding step using prems read len t(2,4) 3(1) by (intro less.hyps) simp_all
    then show ?thesis by (rule sends_file_step [OF _ prems(2) len 3(1)]) (simp_all add: read(5) t)
  qed
qed

lemmas send_loop_correct = send_loop_sends [unfolded sends_file_def]


section \<open>Properties\<close>

lemma i64_range:
  assumes "0 \<le> sint (a :: i64)" "sint a \<le> sint b"
  shows "b - a = word_of_nat (nat (sint b - sint a))" "nat (sint b - sint a) < 2 ^ 63" "a + word_of_nat (nat (sint b - sint a)) = b"
proof -
  have "word_of_int (sint b - sint a) = b - a" by simp
  then show "b - a = word_of_nat (nat (sint b - sint a))" using assms by (metis diff_ge_0_iff_ge word_of_nat_eq_iff of_int_of_nat_eq int_nat_eq)
  then show "a + word_of_nat (nat (sint b - sint a)) = b" by (metis add.commute diff_add_cancel)
  show "nat (sint b - sint a) < 2 ^ 63" using assms sint_lt [of b] by simp
qed

lemma transferData_correct:
  assumes "c_werr (rc_conn st) = None" "c_room (rc_conn st) = None" "open_progress (rc_transfer st)" "\<forall>i. ctx i = None"
    and "0 \<le> sint (t_StartOffset (rc_transfer st))" "sint (t_StartOffset (rc_transfer st)) \<le> sint (t_Size (rc_transfer st))"
    and "T = nat (sint (t_Size (rc_transfer st)) - sint (t_StartOffset (rc_transfer st)))" "s = concat (c_in (rc_conn st))"
  shows "\<exists>st'. transferData ctx now (\<lambda>d w. (None, w @ d)) st =
        Inr (if T \<le> length s then None
             else Some (ConnectionError ''read'' (t_StartOffset (rc_transfer st) + word_of_nat (length s)) (t_Size (rc_transfer st)) (c_end (rc_conn st))), st')
     \<and> rc_sink st' = rc_sink st @ take T s \<and> concat (c_in (rc_conn st')) = drop T s
     \<and> c_out (rc_conn st') = c_out (rc_conn st) @ le_bytes 8 (t_StartOffset (rc_transfer st))
     \<and> t_state (rc_transfer st') = TransferStateInProgress
     \<and> (0 < T \<and> T \<le> length s \<longrightarrow> t_Transferred (rc_transfer st') = t_Size (rc_transfer st))"
proof -
  let ?t = "rc_transfer st"
  let ?c = "(rc_conn st)\<lparr>c_out := c_out (rc_conn st) @ le_bytes 8 (t_StartOffset ?t), c_werr := None\<rparr>"
  have offset: "Conn_Write (le_bytes 8 (t_StartOffset ?t)) (rc_conn st) = (None, ?c)"
    using assms(1,2) by (intro Conn_Write_short) (simp_all add: bufio_size_def)
  have op: "open_progress (SetState (now 0) TransferStateInProgress ?t)" using assms(3) by (simp add: open_progress_def)
  then obtain t where t: "emitProgress (SetState (now 0) TransferStateInProgress ?t) = Inr t" using report_ok by blast
  note tf = report_fields [OF op t]
  note range = i64_range [OF assms(5,6), folded assms(7)]
  have rel: "data_sink.reliable (\<lambda>d w. (None, w @ d))" by (simp add: appending.reliable_def)
  have "t_Size t - t_StartOffset t = word_of_nat T" using range(1) tf by simp
  note loop = appending.receive_loop_correct [OF rel assms(4) this range(2), of 0 0 "st\<lparr>rc_conn := ?c, rc_transfer := t\<rparr>" now 1]
  have "\<exists>st'. receive_loop ctx now (\<lambda>d w. (None, w @ d)) (t_StartOffset t) (t_Size t) 1 0 (st\<lparr>rc_conn := ?c, rc_transfer := t\<rparr>) =
        Inr (if T \<le> length s then None
             else Some (ConnectionError ''read'' (t_StartOffset ?t + word_of_nat (length s)) (t_Size ?t) (c_end (rc_conn st))), st')
     \<and> rc_sink st' = rc_sink st @ take T s \<and> stream (rc_conn st') = drop T s \<and> c_out (rc_conn st') = c_out ?c
     \<and> (0 < T \<and> T \<le> length s \<longrightarrow> t_Transferred (rc_transfer st') = t_StartOffset ?t + word_of_nat T)
     \<and> t_state (rc_transfer st') = TransferStateInProgress"
    using loop tf by (auto simp: assms(8))
  then show ?thesis unfolding transferData_def offset t range(3) by auto
qed

text \<open>
  What a download writes. On a working connection and with a writer that accepts its data, \<^verbatim>\<open>transferData\<close> first
  sends the resume offset as eight little-endian bytes and goes to state InProgress. If the peer delivers the missing part
  of the file, cut into segments in any way, exactly those bytes reach the writer, in order, no byte after them is taken
  off the connection, the transfer has counted up to the file size and no error is returned. If the connection ends
  early, everything that arrived has been written and the error says how many bytes of how many there are and why.
\<close>

theorem transferData_delivers:
  assumes "c_werr (rc_conn st) = None" "c_room (rc_conn st) = None" "open_progress (rc_transfer st)" "\<forall>i. ctx i = None"
    and "0 \<le> sint (t_StartOffset (rc_transfer st))" "sint (t_StartOffset (rc_transfer st)) \<le> sint (t_Size (rc_transfer st))"
    and "T = nat (sint (t_Size (rc_transfer st)) - sint (t_StartOffset (rc_transfer st)))" "s = concat (c_in (rc_conn st))"
  shows "\<exists>st'. transferData ctx now (\<lambda>d w. (None, w @ d)) st =
        Inr (if T \<le> length s then None
             else Some (ConnectionError ''read'' (t_StartOffset (rc_transfer st) + word_of_nat (length s)) (t_Size (rc_transfer st)) (c_end (rc_conn st))), st')
     \<and> rc_sink st' = rc_sink st @ take T s \<and> concat (c_in (rc_conn st')) = drop T s
     \<and> c_out (rc_conn st') = c_out (rc_conn st) @ le_bytes 8 (t_StartOffset (rc_transfer st))
     \<and> t_state (rc_transfer st') = TransferStateInProgress
     \<and> (0 < T \<and> T \<le> length s \<longrightarrow> t_Transferred (rc_transfer st') = t_Size (rc_transfer st))"
  by (rule transferData_correct [OF assms])

definition demo_recv :: "byte list recv" where
  "demo_recv = \<lparr>rc_conn = NewConn [[1, 2], [3, 4, 5]] EOF, rc_sink = [9],
     rc_transfer = (NewTransfer TransferDownload ''bob'' ''b.mp3'' 1)\<lparr>t_Size := 4, t_StartOffset := 1\<rparr>\<rparr>"

theorem transferData_delivers_witness:
  "\<exists>st'. transferData (\<lambda>i. None) (\<lambda>i. 5) (\<lambda>d w. (None, w @ d)) demo_recv = Inr (None, st') \<and> rc_sink st' = [9, 1, 2, 3]
     \<and> concat (c_in (rc_conn st')) = [4, 5] \<and> t_Transferred (rc_transfer st') = 4"
  using transferData_delivers [of demo_recv "\<lambda>i. None" 3 "[1, 2, 3, 4, 5]" "\<lambda>i. 5"]
  by (auto simp: demo_recv_def NewConn_def NewTransfer_def open_progress_def numeral_3_eq_3)

lemma streamFile_correct:
  assumes "concat (c_in conn) = le_bytes 8 (offset :: i64) @ rest" "c_room conn = None" "open_progress t" "\<forall>i. ctx i = None"
    and "t_sharedFile t = Some sf" "os_Open (sh_LocalPath sf) = Inr fil" "\<forall>k>0. of_Seek fil k = Inr (rdr k)" "rdr 0 = of_start fil"
    and "\<forall>k. plain_file (rdr k) \<and> file_data (rdr k) = drop k content"
  shows "(0 \<le> sint offset \<and> sint offset \<le> sint (t_Size t) \<longrightarrow>
            (\<exists>conn' t'. streamFile os_Open ctx now conn t = Inr (None, conn', t')
               \<and> c_out conn' = c_out conn @ take (nat (sint (t_Size t) - sint offset)) (drop (nat (sint offset)) content)
               \<and> concat (c_in conn') = rest \<and> t_Size t' = t_Size t
               \<and> (int (length content) = sint (t_Size t) \<longrightarrow>
                    c_out conn' = c_out conn @ drop (nat (sint offset)) content \<and> t_Transferred t' = t_Size t)))
       \<and> (sint (t_Size t) < sint offset \<longrightarrow>
            (\<exists>e conn'. streamFile os_Open ctx now conn t = Inr (Some e, conn', t) \<and> c_out conn' = c_out conn))"
proof (intro conjI impI)
  obtain ss where "segs_ReadFull (c_end conn) 8 [] (c_in conn) = (Inr (le_bytes 8 offset), ss)" "concat ss = rest"
    using segs_ReadFull_enough [of 8 "c_in conn" "c_end conn" "[]"] assms(1) by auto
  then have read: "Conn_ReadFull 8 conn = (Inr (le_bytes 8 offset), conn\<lparr>c_in := ss\<rparr>)" and ss: "concat ss = rest"
    by (simp_all add: Conn_ReadFull_def)
  show "\<exists>e conn'. streamFile os_Open ctx now conn t = Inr (Some e, conn', t) \<and> c_out conn' = c_out conn"
    if "sint (t_Size t) < sint offset"
    using that by (simp add: streamFile_def read Let_def)
  assume off: "0 \<le> sint offset \<and> sint offset \<le> sint (t_Size t)"
  let ?T = "nat (sint (t_Size t) - sint offset)" and ?k = "nat (sint offset)"
  let ?t = "t\<lparr>t_StartOffset := offset, t_Transferred := offset\<rparr>"
  let ?st = "\<lparr>sn_conn = conn\<lparr>c_in := ss\<rparr>, sn_file = rdr ?k, sn_transfer = ?t\<rparr>"
  note range = i64_range [of offset "t_Size t"]
  have opened: "(if sint offset > 0 then of_Seek fil (nat (sint offset)) else Inr (of_start fil)) = Inr (rdr ?k)"
    using assms(7,8) off by (cases "sint offset > 0") auto
  have args: "?T < 2 ^ 63" "t_Size (sn_transfer ?st) - offset = word_of_nat ?T" "(0 :: i64) = word_of_nat 0" "0 \<le> ?T"
    "open_progress (sn_transfer ?st)" "c_room (sn_conn ?st) = None" "plain_file (sn_file ?st)"
    using range off assms(2,3,9) by (simp_all add: open_progress_def)
  have fd: "file_data (rdr ?k) = drop ?k content" using assms(9) by blast
  have "t_Transferred ?t = offset" "t_Size ?t = t_Size t" by simp_all
  note loop = send_loop_correct [OF assms(4) args, of now 0, unfolded send.select_convs fd diff_zero this]
  from loop obtain st' where st': "send_loop ctx now offset 0 0 ?st = Inr (None, st')"
    "c_out (sn_conn st') = c_out (conn\<lparr>c_in := ss\<rparr>) @ take ?T (drop ?k content)" "c_in (sn_conn st') = c_in (conn\<lparr>c_in := ss\<rparr>)"
    "0 < ?T \<and> ?T \<le> length (drop ?k content) \<longrightarrow> t_Transferred (sn_transfer st') = offset + word_of_nat ?T"
    "0 = ?T \<longrightarrow> t_Transferred (sn_transfer st') = offset" "t_Size (sn_transfer st') = t_Size t"
    by (elim exE conjE) rule
  have run: "streamFile os_Open ctx now conn t = Inr (None, sn_conn st', sn_transfer st')"
    using off assms(5,6) opened st'(1) by (simp add: streamFile_def read Let_def)
  have full: "take ?T (drop ?k content) = drop ?k content \<and> t_Transferred (sn_transfer st') = t_Size t"
    if "int (length content) = sint (t_Size t)"
  proof -
    have "length (drop ?k content) = ?T" using that off by auto
    moreover have "?T = 0 \<Longrightarrow> offset = t_Size t" using off by (simp add: nat_0_iff) (metis order_antisym signed_word_eqI)
    ultimately show ?thesis using st'(4,5) range(3) off by (cases "?T = 0") auto
  qed
  show "\<exists>conn' t'. streamFile os_Open ctx now conn t = Inr (None, conn', t')
      \<and> c_out conn' = c_out conn @ take ?T (drop ?k content) \<and> concat (c_in conn') = rest \<and> t_Size t' = t_Size t
      \<and> (int (length content) = sint (t_Size t) \<longrightarrow> c_out conn' = c_out conn @ drop ?k content \<and> t_Transferred t' = t_Size t)"
    using run st'(2,3,6) ss full by (intro exI [of _ "sn_conn st'"] exI [of _ "sn_transfer st'"]) auto
qed

text \<open>
  C39: What an upload sends. On a working connection, when the peer asks for an offset between zero and the file size,
  \<^verbatim>\<open>streamFile\<close> takes just the eight offset bytes off the connection, sends the file's contents from that offset, at most
  up to the advertised size, and returns no error. If the file still has its advertised
  size, the whole rest is sent and counted; if it has shrunk, less is sent and no error is reported either. An offset
  beyond the size is refused before anything is sent.
\<close>

theorem streamFile_sends:
  assumes "concat (c_in conn) = le_bytes 8 (offset :: i64) @ rest" "c_room conn = None" "open_progress t" "\<forall>i. ctx i = None"
    and "t_sharedFile t = Some sf" "os_Open (sh_LocalPath sf) = Inr fil" "\<forall>k>0. of_Seek fil k = Inr (rdr k)" "rdr 0 = of_start fil"
    and "\<forall>k. plain_file (rdr k) \<and> file_data (rdr k) = drop k content"
  shows "(0 \<le> sint offset \<and> sint offset \<le> sint (t_Size t) \<longrightarrow>
            (\<exists>conn' t'. streamFile os_Open ctx now conn t = Inr (None, conn', t')
               \<and> c_out conn' = c_out conn @ take (nat (sint (t_Size t) - sint offset)) (drop (nat (sint offset)) content)
               \<and> concat (c_in conn') = rest \<and> t_Size t' = t_Size t
               \<and> (int (length content) = sint (t_Size t) \<longrightarrow>
                    c_out conn' = c_out conn @ drop (nat (sint offset)) content \<and> t_Transferred t' = t_Size t)))
       \<and> (sint (t_Size t) < sint offset \<longrightarrow>
            (\<exists>e conn'. streamFile os_Open ctx now conn t = Inr (Some e, conn', t) \<and> c_out conn' = c_out conn))"
  by (rule streamFile_correct [where content = content and rdr = rdr and os_Open = os_Open and ctx = ctx, OF assms])

definition demo_open :: "string \<Rightarrow> go_error + OpenFile" where
  "demo_open path = Inr \<lparr>of_start = \<lparr>fr_segs = [[1], [2], [3]], fr_end = EOF\<rparr>,
     of_Seek = (\<lambda>k. Inr \<lparr>fr_segs = map (\<lambda>b. [b]) (drop k [1, 2, 3]), fr_end = EOF\<rparr>)\<rparr>"

definition demo_upload :: Transfer where
  "demo_upload = (NewTransfer TransferUpload ''bob'' ''b.mp3'' 1)\<lparr>t_Size := 3,
     t_sharedFile := Some \<lparr>sh_LocalPath = ''/b.mp3'', sh_SoulseekPath = ''b.mp3'', sh_Size = 3, sh_Extension = ''mp3'', sh_Attributes = []\<rparr>\<rparr>"

definition demo_reader :: "nat \<Rightarrow> FileReader" where
  "demo_reader k = \<lparr>fr_segs = map (\<lambda>b. [b]) (drop k [1, 2, 3]), fr_end = EOF\<rparr>"

lemma demo_reader: "\<forall>k. plain_file (demo_reader k) \<and> file_data (demo_reader k) = drop k [1, 2, 3]"
proof -
  have "concat (map (\<lambda>b. [b]) xs) = xs" for xs :: "byte list" by (induction xs) auto
  then show ?thesis by (auto simp: demo_reader_def plain_file_def simp del: drop_Cons_numeral)
qed

lemma demo_file:
  "open_progress demo_upload" "t_Size demo_upload = 3" "t_sharedFile demo_upload = Some (the (t_sharedFile demo_upload))"
  "\<forall>k>0. of_Seek (projr (demo_open [])) k = Inr (demo_reader k)" "demo_reader 0 = of_start (projr (demo_open []))"
  "demo_open (sh_LocalPath (the (t_sharedFile demo_upload))) = Inr (projr (demo_open []))"
  by (simp_all add: demo_upload_def demo_open_def demo_reader_def NewTransfer_def open_progress_def)

theorem streamFile_sends_witness:
  "\<exists>conn' t'. streamFile demo_open (\<lambda>i. None) (\<lambda>i. 5) (NewConn [le_bytes 8 (1 :: i64)] EOF) demo_upload = Inr (None, conn', t')
     \<and> c_out conn' = [2, 3] \<and> t_Transferred t' = 3"
  using streamFile_sends [of "NewConn [le_bytes 8 (1 :: i64)] EOF" 1 "[]" demo_upload "\<lambda>i. None" "the (t_sharedFile demo_upload)"
      demo_open "projr (demo_open [])" demo_reader "[1, 2, 3]" "\<lambda>i. 5"] demo_reader demo_file
  by (auto simp: NewConn_def)

end
