(* ===== verification/Uploads.thy ===== *)
theory Uploads
  imports ClientState MessageLoop Outcomes Streaming
begin

text \<open>
  The upload side: requests from peers (\<^verbatim>\<open>src/client/upload_request.go\<close>, \<^verbatim>\<open>handlePlaceInQueueRequest\<close> of \<^verbatim>\<open>client.go\<close>), the
  queue processor and the steps of an upload (\<^verbatim>\<open>src/client/upload.go\<close>; \<^verbatim>\<open>streamFile\<close> is in the theory \<^theory_text>\<open>Streaming\<close>). A handler runs
  as one step. A connection is a handle into the client's heap. Setting a deadline on a connection succeeds.
\<close>

section \<open>Requests from peers\<close>

definition uploadDeniedFileNotShared :: string where "uploadDeniedFileNotShared = ''File not shared''"

text \<open>Encode into a buffer, give up on an encoding error, ignore the result of the write.\<close>

definition send_best_effort :: "byte list wr \<Rightarrow> handle \<Rightarrow> Client \<Rightarrow> Client" where
  "send_best_effort msg h c =
     (let w = buffer_of msg
      in if w_err w \<noteq> None then c else snd (with_conn (WriteMessage (w_sink w)) h c))"

definition sendUploadDenied :: "handle \<Rightarrow> string \<Rightarrow> string \<Rightarrow> Client \<Rightarrow> Client" where
  "sendUploadDenied h filename reason = send_best_effort (UploadDenied_Encode \<lparr>ud_Filename = filename, ud_Reason = reason\<rparr>) h"

definition sendPlaceInQueueResponse :: "handle \<Rightarrow> string \<Rightarrow> u32 \<Rightarrow> Client \<Rightarrow> Client" where
  "sendPlaceInQueueResponse h filename position =
     send_best_effort (PlaceInQueueResponse_Encode \<lparr>piq_Filename = filename, piq_Place = position\<rparr>) h"

definition handleQueueDownload :: "time \<Rightarrow> byte list \<Rightarrow> string \<Rightarrow> handle \<Rightarrow> Client \<Rightarrow> Client" where
  "handleQueueDownload now payload username h c =
     (case DecodeQueueDownload payload of
        Inl err \<Rightarrow> c
      | Inr msg \<Rightarrow>
          (let filename = qd_Filename msg;
               sharedFile = (case opt_FileSharer (cl_opts c) of None \<Rightarrow> None | Some fs \<Rightarrow> GetFile filename fs)
           in case sharedFile of
                None \<Rightarrow> sendUploadDenied h filename uploadDeniedFileNotShared c
              | Some sf \<Rightarrow>
                  (case (case opt_UploadValidator (cl_opts c) of None \<Rightarrow> None | Some validate \<Rightarrow> validate username filename) of
                     Some err \<Rightarrow> sendUploadDenied h filename (Error err) c
                   | None \<Rightarrow>
                       (case GetByFile username filename TransferUpload (cl_transfers c) of
                          Some existing \<Rightarrow>
                            (let position = GetPosition username filename (cl_queueMgr c);
                                 position = (if position = 0 then 1 else position)
                             in sendPlaceInQueueResponse h filename position c)
                        | None \<Rightarrow>
                            (let token = cl_transferToken c + 1;
                                 c = c\<lparr>cl_transferToken := token\<rparr>
                             in case RegisterUpload username filename token (sh_Size sf) (cl_transfers c) of
                                  (Inl err, r) \<Rightarrow> sendUploadDenied h filename ''Internal error'' (c\<lparr>cl_transfers := r\<rparr>)
                                | (Inr tr, r) \<Rightarrow>
                                    (case EnqueueUpload now username filename (t_Token (deref r tr)) (cl_queueMgr c) of
                                       (position, q) \<Rightarrow>
                                         sendPlaceInQueueResponse h filename position (c\<lparr>cl_transfers := r, cl_queueMgr := q\<rparr>)))))))"

definition handlePlaceInQueueRequest :: "byte list \<Rightarrow> string \<Rightarrow> handle \<Rightarrow> Client \<Rightarrow> Client" where
  "handlePlaceInQueueRequest payload username h c =
     (case DecodePlaceInQueueRequest payload of
        Inl err \<Rightarrow> c
      | Inr req \<Rightarrow>
          (case ResolvePosition username (piqr_Filename req) (cl_queueMgr c) of
             Inl err \<Rightarrow> c
           | Inr position \<Rightarrow>
               if position = 0 then c
               else send_best_effort (PlaceInQueueResponse_Encode \<lparr>piq_Filename = piqr_Filename req, piq_Place = position\<rparr>) h c))"

section \<open>The queue processor\<close>

definition processNextUpload :: "time \<Rightarrow> Client \<Rightarrow> go_panic + Client" where
  "processNextUpload now c =
     (case q_queue (cl_queueMgr c) of
        [] \<Rightarrow> Inr c
      | entry # _ \<Rightarrow>
          (case GetByToken (qe_Token entry) (cl_transfers c) of
             None \<Rightarrow> Inr (c\<lparr>cl_queueMgr := DequeueUpload (qe_Token entry) (cl_queueMgr c)\<rparr>)
           | Some tr \<Rightarrow>
               (let t = deref (cl_transfers c) tr
                in if t_state t \<noteq> (TransferStateQueued OR TransferStateLocally) then Inr c
                   else case (case opt_FileSharer (cl_opts c) of None \<Rightarrow> None | Some fs \<Rightarrow> GetFile (t_Filename t) fs) of
                          None \<Rightarrow>
                            (case emitProgress (SetState now (TransferStateCompleted OR TransferStateErrored)
                                    (t\<lparr>t_Error := Some (ErrorString ''file no longer shared'')\<rparr>)) of
                               Inl panic \<Rightarrow> Inl panic
                             | Inr t \<Rightarrow>
                                 let c = c\<lparr>cl_transfers := modify tr (\<lambda>_. t) (cl_transfers c),
                                           cl_queueMgr := DequeueUpload (qe_Token entry) (cl_queueMgr c)\<rparr>
                                 in case Registry_Remove (qe_Token entry) (cl_transfers c) of
                                      Inl panic \<Rightarrow> Inl panic
                                    | Inr r \<Rightarrow> Inr (c\<lparr>cl_transfers := r\<rparr>))
                        | Some sf \<Rightarrow> Inr (c\<lparr>cl_transfers := modify tr (SetSharedFile (Some sf)) (cl_transfers c)\<rparr>))))"

definition uploadProcessor_Start :: "Client \<Rightarrow> Client" where
  "uploadProcessor_Start c =
     start_goroutine Go_uploadProcessor (c\<lparr>cl_uploadProc := (cl_uploadProc c)\<lparr>upr_started := True\<rparr>\<rparr>)"

text \<open>
  \<^verbatim>\<open>Stop\<close> up to the wait for \<^verbatim>\<open>doneCh\<close>: the result says whether it waits.
\<close>

definition uploadProcessor_Stop :: "Client \<Rightarrow> go_panic + (bool \<times> Client)" where
  "uploadProcessor_Stop c =
     (let p = cl_uploadProc c
      in if upr_stopped p \<or> \<not> upr_started p then Inr (False, c)
         else case close_chan (upr_stopCh p) of
                Inl panic \<Rightarrow> Inl panic
              | Inr ch \<Rightarrow> Inr (True, c\<lparr>cl_uploadProc := p\<lparr>upr_stopped := True, upr_stopCh := ch\<rparr>\<rparr>))"

text \<open>
  \<^verbatim>\<open>run\<close> as the list of its tick times before it notices that \<^verbatim>\<open>stopCh\<close> is closed; at the end it closes \<^verbatim>\<open>doneCh\<close>.
\<close>

fun uploadProcessor_run :: "time list \<Rightarrow> Client \<Rightarrow> go_panic + Client" where
  "uploadProcessor_run [] c =
     (let p = cl_uploadProc c
      in case close_chan (upr_doneCh p) of
           Inl panic \<Rightarrow> Inl panic
         | Inr ch \<Rightarrow> Inr (c\<lparr>cl_uploadProc := p\<lparr>upr_doneCh := ch\<rparr>\<rparr>))"
| "uploadProcessor_run (now # ticks) c =
     (case processNextUpload now c of Inl panic \<Rightarrow> Inl panic | Inr c \<Rightarrow> uploadProcessor_run ticks c)"

section \<open>The steps of an upload\<close>

definition acquireSlots :: "time \<Rightarrow> ctx \<Rightarrow> string \<Rightarrow> SlotManager \<Rightarrow> (go_error option \<times> SlotManager) list" where
  "acquireSlots now ctx username s = AcquireUploadSlot now ctx username s"

text \<open>The length prefix is built byte by byte and sent in a write of its own.\<close>

definition length_prefix :: "nat \<Rightarrow> byte list" where
  "length_prefix n =
     (let msgLen = (word_of_nat n :: u32)
      in [ucast msgLen, ucast (drop_bit 8 msgLen), ucast (drop_bit 16 msgLen), ucast (drop_bit 24 msgLen)])"

definition upload_sendTransferRequest :: "Transfer \<Rightarrow> Conn \<Rightarrow> go_error option \<times> Conn" where
  "upload_sendTransferRequest t conn =
     (let w = buffer_of (TransferRequest_Encode
                \<lparr>treq_Direction = TransferUpload, treq_Token = t_Token t, treq_Filename = t_Filename t, treq_FileSize = t_Size t\<rparr>)
      in case w_err w of
           Some err \<Rightarrow> (Some err, conn)
         | None \<Rightarrow>
             (case socket_Write (length_prefix (length (w_sink w))) conn of
                (Some err, conn) \<Rightarrow> (Some err, conn)
              | (None, conn) \<Rightarrow> socket_Write (w_sink w) conn))"

function waitForResponse :: "u32 \<Rightarrow> Conn \<Rightarrow> (go_error + TransferResponse) \<times> Conn" where
  "waitForResponse token conn =
     (case read_raw_frame conn of
        (Inl err, c) \<Rightarrow> (Inl err, c)
      | (Inr msgBuf, c) \<Rightarrow>
          if length msgBuf < 4 then waitForResponse token c
          else if (from_le (take 4 msgBuf) :: u32) = PeerTransferResponse
          then (case DecodeTransferResponse msgBuf of
                  Inl err \<Rightarrow> (Inl err, c)
                | Inr resp \<Rightarrow> if tresp_Token resp = token then (Inr resp, c) else waitForResponse token c)
          else waitForResponse token c)"
  by pat_completeness auto

termination waitForResponse
  by (relation "measure (\<lambda>(token, conn). length (stream conn))") (auto dest!: read_raw_frame_shrinks [OF sym])

declare waitForResponse.simps [simp del]

definition notifyPeerOfFailure :: "Transfer \<Rightarrow> Conn option \<Rightarrow> Conn option" where
  "notifyPeerOfFailure t peerConn =
     (if t_state t AND TransferStateSucceeded \<noteq> 0 then peerConn
      else case peerConn of
             None \<Rightarrow> None
           | Some conn \<Rightarrow>
               (let w = buffer_of (if t_state t AND TransferStateCancelled \<noteq> 0
                          then UploadDenied_Encode \<lparr>ud_Filename = t_Filename t, ud_Reason = ''Cancelled''\<rparr>
                          else UploadFailed_Encode \<lparr>uf_Filename = t_Filename t\<rparr>)
                in if w_err w \<noteq> None then Some conn else Some (snd (socket_Write (w_sink w) conn))))"

text \<open>\<^verbatim>\<open>cleanup\<close> of an upload that holds all its parts: notify, release slots, leave the queue and the registry.\<close>

definition upload_cleanup :: "time \<Rightarrow> ref \<Rightarrow> Conn option \<Rightarrow> Client \<Rightarrow> go_panic + (Conn option \<times> Client)" where
  "upload_cleanup now tr peerConn c =
     (let t = deref (cl_transfers c) tr;
          peerConn = notifyPeerOfFailure t peerConn;
          c = c\<lparr>cl_slots := ReleaseUploadSlot now (t_Username t) (cl_slots c)\<rparr>;
          c = c\<lparr>cl_queueMgr := DequeueUpload (t_Token t) (cl_queueMgr c)\<rparr>
      in case Registry_Remove (t_Token t) (cl_transfers c) of
           Inl panic \<Rightarrow> Inl panic
         | Inr r \<Rightarrow> Inr (peerConn, c\<lparr>cl_transfers := r\<rparr>))"

section \<open>Replies\<close>

lemma send_best_effort_said:
  assumes "working h c" "buffer_of m = NewWriter p Buffer_Write"
  shows "said p h c (send_best_effort m h c)"
  using WriteMessage_working [OF assms(1)] assms(2) by (simp add: send_best_effort_def Let_def)

text \<open>The bytes of the two replies.\<close>

abbreviation denied_msg :: "string \<Rightarrow> string \<Rightarrow> byte list" where
  "denied_msg filename reason \<equiv> w_sink (buffer_of (UploadDenied_Encode \<lparr>ud_Filename = filename, ud_Reason = reason\<rparr>))"

abbreviation place_msg :: "string \<Rightarrow> u32 \<Rightarrow> byte list" where
  "place_msg filename place \<equiv> w_sink (buffer_of (PlaceInQueueResponse_Encode \<lparr>piq_Filename = filename, piq_Place = place\<rparr>))"

lemma replies_said:
  assumes "working h c"
  shows "said (denied_msg filename reason) h c (sendUploadDenied h filename reason c)"
    "said (place_msg filename place) h c (sendPlaceInQueueResponse h filename place c)"
  unfolding sendUploadDenied_def sendPlaceInQueueResponse_def
  by (auto intro!: send_best_effort_said [OF assms] simp: ud.payload piq.payload)

lemma length_prefix_le: "length_prefix n = le_bytes 4 (word_of_nat n :: u32)"
  by (simp add: length_prefix_def Let_def numeral_eq_Suc drop_bit_Suc)

section \<open>Waiting for the peer's answer\<close>

text \<open>What \<^verbatim>\<open>waitForResponse\<close> makes of one message: nothing, an answer, or a decoding error.\<close>

definition response_answer :: "u32 \<Rightarrow> byte list \<Rightarrow> (go_error + TransferResponse) option" where
  "response_answer token p =
     (if length p < 4 \<or> (from_le (take 4 p) :: u32) \<noteq> PeerTransferResponse then None
      else case DecodeTransferResponse p of
             Inl err \<Rightarrow> Some (Inl err)
           | Inr resp \<Rightarrow> if tresp_Token resp = token then Some (Inr resp) else None)"

interpretation wait_response: frame_loop stream c_out read_raw_frame "2 ^ 32 - 1" "\<lambda>p _. response_answer token p" "\<lambda>_ out. out" Inl "waitForResponse token"
  for token
proof (unfold_locales, goal_cases)
  case (1 s p rest)
  then have "length p < 2 ^ 32" by simp
  from read_raw_frame_frame [OF 1(1) this] show ?case by (metis Conn.select_convs(3) Conn.surjective Conn.update_convs(1))
next
  case (2 s)
  then show ?case using read_raw_frame_end [of s] read_raw_frame_fields [of s] by (metis Conn.select_convs(3) Conn.surjective Conn.update_convs(1))
next
  case (3 s e s1)
  then show ?case by (subst waitForResponse.simps) simp
next
  case (4 s p s1 r)
  then show ?case by (subst waitForResponse.simps) (auto simp: response_answer_def split: if_splits sum.splits)
next
  case (5 s p s1)
  then show ?case by (subst waitForResponse.simps) (auto simp: response_answer_def split: if_splits sum.splits)
qed

lemma response_answer_encoded:
  assumes "TransferResponse_ok resp"
  shows "response_answer token (w_sink (buffer_of (TransferResponse_Encode resp))) =
    (if tresp_Token resp = token then Some (Inr resp) else None)"
proof -
  have "4 \<le> length (w_sink (buffer_of (TransferResponse_Encode resp)))" by (simp add: tresp.payload)
  moreover have "(from_le (take 4 (w_sink (buffer_of (TransferResponse_Encode resp)))) :: u32) = PeerTransferResponse"
    using tresp.payload_code [of resp] by (simp add: TransferResponse_Code_def)
  ultimately show ?thesis using tresp.decode_encode [OF assms] by (simp add: response_answer_def)
qed

text \<open>
  C12: an upload is negotiated as the protocol says. \<^verbatim>\<open>sendTransferRequest\<close>, which builds the frame by hand, puts the same
  bytes on the wire as \<^verbatim>\<open>WriteMessage\<close> of the encoded request does. \<^verbatim>\<open>waitForResponse\<close> always returns: with the first
  response that carries the upload's token, whatever other messages come before it (short ones, other codes, responses to
  other transfers), leaving the bytes behind it unread; or, when the connection ends without one, with an error.\<close>

theorem upload_negotiation:
  assumes "c_room conn = None" "c_werr conn = None"
    and "req = \<lparr>treq_Direction = TransferUpload, treq_Token = t_Token t, treq_Filename = t_Filename t, treq_FileSize = t_Size t\<rparr>"
    and "list_all (\<lambda>p. length p < 2 ^ 32 \<and> response_answer (t_Token t) p = None) ms"
    and "TransferResponse_ok resp" "tresp_Token resp = t_Token t"
    and "m = w_sink (buffer_of (TransferResponse_Encode resp))" "length m < 2 ^ 32"
  shows "(\<exists>conn'. upload_sendTransferRequest t conn = (None, conn') \<and>
            c_out conn' = c_out (snd (WriteMessage (w_sink (buffer_of (TransferRequest_Encode req))) conn))) \<and>
     (stream conn = concat (map frame (ms @ [m])) @ rest \<longrightarrow>
        (\<exists>conn'. waitForResponse (t_Token t) conn = (Inr resp, conn') \<and> stream conn' = rest)) \<and>
     (stream conn = concat (map frame ms) \<longrightarrow> (\<exists>e conn'. waitForResponse (t_Token t) conn = (Inl e, conn')))"
proof (intro conjI impI)
  let ?p = "w_sink (buffer_of (TransferRequest_Encode req))"
  obtain e k where k: "WriteMessage ?p conn = (e, k)" by fastforce
  from WriteMessage_sends [OF assms(2) this] assms(1) have "c_out k = c_out conn @ frame ?p"
    by (simp add: sends_def take_room_def)
  moreover have "w_err (buffer_of (TransferRequest_Encode req)) = None" by (simp add: treq.payload)
  ultimately show "\<exists>conn'. upload_sendTransferRequest t conn = (None, conn') \<and> c_out conn' = c_out (snd (WriteMessage ?p conn))"
    using assms(1) unfolding k upload_sendTransferRequest_def assms(3) [symmetric]
    by (simp add: Let_def socket_Write_def length_prefix_le frame_def)
  have short: "list_all (\<lambda>p. length p \<le> 2 ^ 32 - 1) ms" "length m \<le> 2 ^ 32 - 1"
    using assms(4,8) by (auto simp: list_all_iff)
  have none: "response_answer (t_Token t) (ms ! i) = None" if "i < length ms" for i using assms(4) that by (auto simp: list_all_length)
  show "\<exists>conn'. waitForResponse (t_Token t) conn = (Inr resp, conn') \<and> stream conn' = rest" if "stream conn = concat (map frame (ms @ [m])) @ rest"
    using wait_response.first_answer [OF that, of "t_Token t" "Inr resp"] short none response_answer_encoded [OF assms(5), of "t_Token t"] assms(6,7) by auto
  show "\<exists>e conn'. waitForResponse (t_Token t) conn = (Inl e, conn')" if "stream conn = concat (map frame ms)"
    using wait_response.no_answer [OF that short(1), of "t_Token t"] none by auto
qed

definition demo_answer :: TransferResponse where
  "demo_answer = \<lparr>tresp_Token = 1, tresp_Allowed = True, tresp_FileSize = 3, tresp_Reason = ''''\<rparr>"

theorem upload_negotiation_witness:
  "\<exists>conn'. waitForResponse (t_Token demo_upload)
      (NewConn [frame [7], frame (w_sink (buffer_of (TransferResponse_Encode demo_answer)))] EOF) = (Inr demo_answer, conn')"
proof -
  let ?m = "w_sink (buffer_of (TransferResponse_Encode demo_answer))"
  let ?conn = "NewConn [frame [7], frame ?m] EOF"
  have hyps: "c_room ?conn = None" "c_werr ?conn = None" "list_all (\<lambda>p. length p < 2 ^ 32 \<and> response_answer (t_Token demo_upload) p = None) [[7]]"
    "TransferResponse_ok demo_answer" "tresp_Token demo_answer = t_Token demo_upload" "length ?m < 2 ^ 32"
    by (simp_all add: NewConn_def response_answer_def demo_upload_def NewTransfer_def demo_answer_def TransferResponse_ok_def
        tresp.payload TransferResponse_body_def)
  have "stream ?conn = concat (map frame ([[7]] @ [?m])) @ []" by (simp add: NewConn_def)
  with upload_negotiation [OF hyps(1,2) refl hyps(3-5) refl hyps(6), of "[]"] show ?thesis by blast
qed

section \<open>Accepting requests\<close>

text \<open>Every queued entry is a registered upload of its own.\<close>

definition upload_inv :: "Client \<Rightarrow> bool" where
  "upload_inv c \<longleftrightarrow> reg_ok (cl_transfers c) \<and> distinct (map qe_Token (q_queue (cl_queueMgr c))) \<and>
     (\<forall>e \<in> set (q_queue (cl_queueMgr c)). \<exists>p. GetByToken (qe_Token e) (cl_transfers c) = Some p \<and>
        identity (deref (cl_transfers c) p) = (TransferUpload, qe_Username e, qe_Filename e, qe_Token e))"

lemma upload_inv_cong:
  "cl_transfers c' = cl_transfers c \<Longrightarrow> cl_queueMgr c' = cl_queueMgr c \<Longrightarrow> upload_inv c' = upload_inv c"
  by (simp add: upload_inv_def)

lemma upload_inv_said: "said p h c c' \<Longrightarrow> upload_inv c' = upload_inv c"
  by (rule upload_inv_cong) (simp_all add: said_fields)

lemma upload_inv_New: "upload_inv (New opts)"
  by (simp add: upload_inv_def New_defs reg_ok_new NewQueueManager_def)

text \<open>What accepting a new request does to registry and queue.\<close>

definition accept_upload :: "time \<Rightarrow> string \<Rightarrow> string \<Rightarrow> i64 \<Rightarrow> Client \<Rightarrow> Client" where
  "accept_upload now username filename sz c =
     (let token = cl_transferToken c + 1
      in c\<lparr>cl_transferToken := token,
           cl_transfers := snd (RegisterUpload username filename token sz (cl_transfers c)),
           cl_queueMgr := snd (EnqueueUpload now username filename token (cl_queueMgr c))\<rparr>)"

lemma upload_inv_accept:
  assumes inv: "upload_inv c" and free: "GetByFile username filename TransferUpload (cl_transfers c) = None"
      "GetByToken (cl_transferToken c + 1) (cl_transfers c) = None"
  shows "upload_inv (accept_upload now username filename sz c)"
    "\<exists>p. GetByToken (cl_transferToken c + 1) (cl_transfers (accept_upload now username filename sz c)) = Some p \<and>
       deref (cl_transfers (accept_upload now username filename sz c)) p =
         (NewTransfer TransferUpload username filename (cl_transferToken c + 1))\<lparr>t_Size := sz\<rparr>"
proof -
  let ?t = "cl_transferToken c + 1" and ?r = "cl_transfers c"
  let ?tr = "(NewTransfer TransferUpload username filename ?t)\<lparr>t_Size := sz\<rparr>"
  let ?r' = "snd (RegisterUpload username filename ?t sz ?r)"
  have ok: "reg_ok ?r" using inv by (simp add: upload_inv_def)
  have r': "reg_ok ?r'" using reg_ok_register [OF ok] by (simp add: RegisterUpload_def)
  have heap: "reg_heap ?r' = reg_heap ?r @ [?tr]" "GetByToken ?t ?r' = Some (length (reg_heap ?r))"
    using register_fresh [OF free] by (simp_all add: RegisterUpload_def GetByToken_def)
  have old: "GetByToken t ?r' = Some p" "deref ?r' p = deref ?r p" if "GetByToken t ?r = Some p" for t p
    using that free(2) register_fresh [OF free] reg_ok_tokenD(1) [OF ok that]
    by (auto simp: RegisterUpload_def GetByToken_def nth_append)
  have "?t \<notin> qe_Token ` set (q_queue (cl_queueMgr c))" using inv free(2) by (force simp: upload_inv_def)
  moreover have "\<exists>p. GetByToken (qe_Token e) ?r' = Some p \<and> identity (deref ?r' p) = (TransferUpload, qe_Username e, qe_Filename e, qe_Token e)"
    if e: "e \<in> set (q_queue (cl_queueMgr c))" for e
  proof -
    from e inv obtain p where "GetByToken (qe_Token e) ?r = Some p" "identity (deref ?r p) = (TransferUpload, qe_Username e, qe_Filename e, qe_Token e)"
      unfolding upload_inv_def by blast
    with old show ?thesis by auto
  qed
  ultimately show "upload_inv (accept_upload now username filename sz c)"
    using inv r' heap by (auto simp: upload_inv_def accept_upload_def Let_def EnqueueUpload_def identity_def NewTransfer_def)
  show "\<exists>p. GetByToken ?t (cl_transfers (accept_upload now username filename sz c)) = Some p \<and>
      deref (cl_transfers (accept_upload now username filename sz c)) p = ?tr"
    using heap by (simp add: accept_upload_def Let_def)
qed

text \<open>The two questions a request has to pass: is the file shared, and does the validator object?\<close>

definition shared_file :: "Client \<Rightarrow> string \<Rightarrow> SharedFile option" where
  "shared_file c filename = (case opt_FileSharer (cl_opts c) of None \<Rightarrow> None | Some fs \<Rightarrow> GetFile filename fs)"

definition refusal :: "Client \<Rightarrow> string \<Rightarrow> string \<Rightarrow> go_error option" where
  "refusal c username filename = (case opt_UploadValidator (cl_opts c) of None \<Rightarrow> None | Some validate \<Rightarrow> validate username filename)"

lemma queue_download_branches:
  assumes "DecodeQueueDownload payload = Inr msg" "filename = qd_Filename msg"
  shows "shared_file c filename = None \<Longrightarrow>
      handleQueueDownload now payload username h c = sendUploadDenied h filename uploadDeniedFileNotShared c"
    and "shared_file c filename = Some sf \<Longrightarrow> refusal c username filename = Some err \<Longrightarrow>
      handleQueueDownload now payload username h c = sendUploadDenied h filename (Error err) c"
    and "shared_file c filename = Some sf \<Longrightarrow> refusal c username filename = None \<Longrightarrow>
      GetByFile username filename TransferUpload (cl_transfers c) = Some p \<Longrightarrow>
      handleQueueDownload now payload username h c = sendPlaceInQueueResponse h filename
        (if GetPosition username filename (cl_queueMgr c) = 0 then 1 else GetPosition username filename (cl_queueMgr c)) c"
    and "shared_file c filename = Some sf \<Longrightarrow> refusal c username filename = None \<Longrightarrow>
      GetByFile username filename TransferUpload (cl_transfers c) = None \<Longrightarrow> reg_ok (cl_transfers c) \<Longrightarrow>
      GetByToken (cl_transferToken c + 1) (cl_transfers c) = Some q \<Longrightarrow>
      handleQueueDownload now payload username h c =
        sendUploadDenied h filename ''Internal error'' (c\<lparr>cl_transferToken := cl_transferToken c + 1\<rparr>)"
    and "shared_file c filename = Some sf \<Longrightarrow> refusal c username filename = None \<Longrightarrow>
      GetByFile username filename TransferUpload (cl_transfers c) = None \<Longrightarrow>
      GetByToken (cl_transferToken c + 1) (cl_transfers c) = None \<Longrightarrow>
      handleQueueDownload now payload username h c =
        sendPlaceInQueueResponse h filename (word_of_nat (length (q_queue (cl_queueMgr c)) + 1)) (accept_upload now username filename (sh_Size sf) c)"
  using assms register_duplicate [of "cl_transfers c" username filename TransferUpload "cl_transferToken c + 1"]
    register_fresh [of username filename TransferUpload "cl_transfers c" "cl_transferToken c + 1"]
  by (simp_all add: handleQueueDownload_def shared_file_def refusal_def Let_def RegisterUpload_def accept_upload_def EnqueueUpload_def
      NewTransfer_def nth_append)

text \<open>What the peer is told.\<close>

definition upload_reply :: "Client \<Rightarrow> string \<Rightarrow> string \<Rightarrow> byte list" where
  "upload_reply c username filename =
     (case (shared_file c filename, refusal c username filename) of
        (None, _) \<Rightarrow> denied_msg filename ''File not shared''
      | (Some sf, Some err) \<Rightarrow> denied_msg filename (Error err)
      | (Some sf, None) \<Rightarrow>
          if GetByFile username filename TransferUpload (cl_transfers c) \<noteq> None
          then place_msg filename (max 1 (GetPosition username filename (cl_queueMgr c)))
          else if GetByToken (cl_transferToken c + 1) (cl_transfers c) \<noteq> None then denied_msg filename ''Internal error''
          else place_msg filename (word_of_nat (length (q_queue (cl_queueMgr c)) + 1)))"

text \<open>The request is new and acceptable, and its token free.\<close>

definition acceptable :: "Client \<Rightarrow> string \<Rightarrow> string \<Rightarrow> bool" where
  "acceptable c username filename \<longleftrightarrow> shared_file c filename \<noteq> None \<and> refusal c username filename = None \<and>
     GetByFile username filename TransferUpload (cl_transfers c) = None \<and> GetByToken (cl_transferToken c + 1) (cl_transfers c) = None"

lemma max_position: "max 1 (n :: u32) = (if n = 0 then 1 else n)"
proof -
  have "1 \<le> n" if "n \<noteq> 0" using that by (simp add: word_le_nat_alt Suc_le_eq unat_gt_0)
  moreover have "\<not> 1 \<le> (0 :: u32)" by simp
  ultimately show ?thesis by (auto simp: max_def)
qed

lemma handleQueueDownload_said:
  assumes inv: "upload_inv c" and conn: "working h c" and dec: "DecodeQueueDownload payload = Inr \<lparr>qd_Filename = filename\<rparr>"
  shows "\<exists>c1. said (upload_reply c username filename) h c1 (handleQueueDownload now payload username h c) \<and>
     (if acceptable c username filename then c1 = accept_upload now username filename (sh_Size (the (shared_file c filename))) c
      else c1 = c \<or> c1 = c\<lparr>cl_transferToken := cl_transferToken c + 1\<rparr>)"
proof -
  have ok: "reg_ok (cl_transfers c)" using inv by (simp add: upload_inv_def)
  note branch = queue_download_branches [OF dec, of filename, simplified]
  have conn': "working h (accept_upload now username filename sz c)" "working h (c\<lparr>cl_transferToken := t\<rparr>)" for sz t
    using conn by (simp_all add: working_def accept_upload_def Let_def)
  note defs = upload_reply_def acceptable_def uploadDeniedFileNotShared_def max_position
  consider (hidden) "shared_file c filename = None"
    | (refused) sf err where "shared_file c filename = Some sf" "refusal c username filename = Some err"
    | (again) sf p where "shared_file c filename = Some sf" "refusal c username filename = None"
        "GetByFile username filename TransferUpload (cl_transfers c) = Some p"
    | (taken) sf q where "shared_file c filename = Some sf" "refusal c username filename = None"
        "GetByFile username filename TransferUpload (cl_transfers c) = None" "GetByToken (cl_transferToken c + 1) (cl_transfers c) = Some q"
    | (new) sf where "shared_file c filename = Some sf" "refusal c username filename = None"
        "GetByFile username filename TransferUpload (cl_transfers c) = None" "GetByToken (cl_transferToken c + 1) (cl_transfers c) = None"
    by (metis option.exhaust)
  then show ?thesis
  proof cases
    case hidden
    then show ?thesis using branch(1) replies_said(1) [OF conn] by (intro exI [of _ c]) (simp add: defs)
  next
    case refused
    then show ?thesis using branch(2) replies_said(1) [OF conn] by (intro exI [of _ c]) (simp add: defs)
  next
    case again
    then show ?thesis using branch(3) replies_said(2) [OF conn] by (intro exI [of _ c]) (simp add: defs)
  next
    case taken
    then show ?thesis using branch(4) [OF _ _ _ ok] replies_said(1) [OF conn'(2)]
      by (intro exI [of _ "c\<lparr>cl_transferToken := cl_transferToken c + 1\<rparr>"]) (simp add: defs)
  next
    case new
    then show ?thesis using branch(5) replies_said(2) [OF conn'(1)]
      by (intro exI [of _ "accept_upload now username filename (sh_Size sf) c"]) (simp add: defs)
  qed
qed

lemma upload_inv_handleQueueDownload:
  assumes inv: "upload_inv c" and conn: "working h c"
  shows "upload_inv (handleQueueDownload now payload username h c)"
proof (cases "DecodeQueueDownload payload")
  case (Inl e)
  then show ?thesis using inv by (simp add: handleQueueDownload_def)
next
  case (Inr msg)
  then have dec: "DecodeQueueDownload payload = Inr \<lparr>qd_Filename = qd_Filename msg\<rparr>" by simp
  from handleQueueDownload_said [OF inv conn dec, of username now] obtain c1 where
    c1: "said (upload_reply c username (qd_Filename msg)) h c1 (handleQueueDownload now payload username h c)"
      "if acceptable c username (qd_Filename msg)
       then c1 = accept_upload now username (qd_Filename msg) (sh_Size (the (shared_file c (qd_Filename msg)))) c
       else c1 = c \<or> c1 = c\<lparr>cl_transferToken := cl_transferToken c + 1\<rparr>" by blast
  have "upload_inv c1"
  proof (cases "acceptable c username (qd_Filename msg)")
    case True
    then show ?thesis using c1(2) upload_inv_accept(1) [OF inv] by (simp add: acceptable_def)
  next
    case False
    then have "cl_transfers c1 = cl_transfers c" "cl_queueMgr c1 = cl_queueMgr c" using c1(2) by auto
    then show ?thesis using inv upload_inv_cong by blast
  qed
  with c1(1) show ?thesis by (simp add: upload_inv_said)
qed

text \<open>
  C14: how a peer's request for a file is answered. A payload that does not decode changes nothing; any other request gets
  exactly one reply. A file that is not shared is denied as such; a request the validator objects to is denied with its
  error text; a file that is already an upload to this user is answered with its place in the queue (1 if it has left it);
  none of these changes registry or queue. Any other request is registered as an upload of the shared file's size under the
  next token, goes to the end of the queue, and is answered with the new queue length; only a token still taken after the
  counter wrapped makes it fail. The queue stays a list of distinct registered uploads.\<close>

theorem upload_requests:
  assumes "upload_inv c" "working h c" "c' = handleQueueDownload now payload username h c"
  shows "upload_inv c' \<and> (\<forall>e. DecodeQueueDownload payload = Inl e \<longrightarrow> c' = c) \<and>
     (\<forall>filename. DecodeQueueDownload payload = Inr \<lparr>qd_Filename = filename\<rparr> \<longrightarrow>
        c_out (cl_heap c' ! h) = c_out (cl_heap c ! h) @ frame (upload_reply c username filename) \<and>
        (\<not> acceptable c username filename \<longrightarrow> cl_transfers c' = cl_transfers c \<and> cl_queueMgr c' = cl_queueMgr c) \<and>
        (acceptable c username filename \<longrightarrow>
           q_queue (cl_queueMgr c') = q_queue (cl_queueMgr c) @
             [\<lparr>qe_Username = username, qe_Filename = filename, qe_Token = cl_transferToken c + 1, qe_QueuedAt = now\<rparr>] \<and>
           (\<exists>p. GetByToken (cl_transferToken c + 1) (cl_transfers c') = Some p \<and>
              deref (cl_transfers c') p = (NewTransfer TransferUpload username filename (cl_transferToken c + 1))
                 \<lparr>t_Size := sh_Size (the (shared_file c filename))\<rparr>)))"
proof (intro conjI allI impI)
  show "upload_inv c'" using upload_inv_handleQueueDownload [OF assms(1,2)] by (simp add: assms(3))
  show "c' = c" if "DecodeQueueDownload payload = Inl e" for e using that by (simp add: assms(3) handleQueueDownload_def)
  fix filename assume dec: "DecodeQueueDownload payload = Inr \<lparr>qd_Filename = filename\<rparr>"
  from handleQueueDownload_said [OF assms(1,2) dec, of username now] obtain c1 where
    c1: "said (upload_reply c username filename) h c1 c'"
      "if acceptable c username filename then c1 = accept_upload now username filename (sh_Size (the (shared_file c filename))) c
       else c1 = c \<or> c1 = c\<lparr>cl_transferToken := cl_transferToken c + 1\<rparr>" unfolding assms(3) by blast
  then have heap: "cl_heap c1 = cl_heap c" by (auto simp: accept_upload_def Let_def split: if_splits)
  then have "working h c1" using assms(2) by (simp add: working_def)
  from said_out [OF this c1(1)] show "c_out (cl_heap c' ! h) = c_out (cl_heap c ! h) @ frame (upload_reply c username filename)"
    by (simp add: heap)
  note same = said_fields [OF c1(1)]
  show "cl_transfers c' = cl_transfers c" "cl_queueMgr c' = cl_queueMgr c" if "\<not> acceptable c username filename"
    using same c1(2) that by auto
  assume ok: "acceptable c username filename"
  then have c1': "c1 = accept_upload now username filename (sh_Size (the (shared_file c filename))) c" using c1(2) by simp
  show "q_queue (cl_queueMgr c') = q_queue (cl_queueMgr c) @
      [\<lparr>qe_Username = username, qe_Filename = filename, qe_Token = cl_transferToken c + 1, qe_QueuedAt = now\<rparr>]"
    unfolding same c1' by (simp add: accept_upload_def Let_def EnqueueUpload_def)
  show "\<exists>p. GetByToken (cl_transferToken c + 1) (cl_transfers c') = Some p \<and>
      deref (cl_transfers c') p = (NewTransfer TransferUpload username filename (cl_transferToken c + 1))
        \<lparr>t_Size := sh_Size (the (shared_file c filename))\<rparr>"
    unfolding same c1' using upload_inv_accept(2) [OF assms(1)] ok by (simp add: acceptable_def)
qed

definition demo_shares :: FileSharer where
  "demo_shares = NewFileSharer\<lparr>fs_files := [(''b.mp3'', the (t_sharedFile demo_upload))]\<rparr>"

definition demo_client :: Client where
  "demo_client = (New (Some (DefaultOptions\<lparr>opt_FileSharer := Some demo_shares\<rparr>)))\<lparr>cl_heap := [NewConn [] EOF]\<rparr>"

definition demo_request :: "byte list" where
  "demo_request = w_sink (buffer_of (QueueDownload_Encode \<lparr>qd_Filename = ''b.mp3''\<rparr>))"

lemma demo_request: "DecodeQueueDownload demo_request = Inr \<lparr>qd_Filename = ''b.mp3''\<rparr>"
  by (simp add: demo_request_def qd.decode_encode string_ok_def maxStringLength_def)

lemma demo_client:
  "upload_inv demo_client" "working 0 demo_client" "shared_file demo_client ''b.mp3'' = t_sharedFile demo_upload"
  "acceptable demo_client ''ann'' ''b.mp3''"
  using upload_inv_New [of "Some (DefaultOptions\<lparr>opt_FileSharer := Some demo_shares\<rparr>)"]
  by (simp_all add: upload_inv_def demo_client_def working_def NewConn_def shared_file_def refusal_def acceptable_def New_defs
      DefaultOptions_def demo_shares_def GetFile_def demo_upload_def NewTransferRegistry_def GetByFile_def GetByToken_def)

theorem upload_requests_witness:
  "q_queue (cl_queueMgr (handleQueueDownload 5 demo_request ''ann'' 0 demo_client)) =
     [\<lparr>qe_Username = ''ann'', qe_Filename = ''b.mp3'', qe_Token = 1, qe_QueuedAt = 5\<rparr>]"
proof -
  have "q_queue (cl_queueMgr demo_client) = []" "cl_transferToken demo_client = 0"
    by (simp_all add: demo_client_def New_defs NewQueueManager_def)
  then show ?thesis
    using upload_requests [OF demo_client(1,2) refl, of 5 demo_request "''ann''"] demo_request demo_client(4) by simp
qed

section \<open>The queue is never worked off\<close>

text \<open>The registered uploads by token.\<close>

definition upload_of :: "Client \<Rightarrow> u32 \<Rightarrow> Transfer option" where
  "upload_of c token =
     (case GetByToken token (cl_transfers c) of
        None \<Rightarrow> None
      | Some p \<Rightarrow> if t_Direction (deref (cl_transfers c) p) = TransferUpload then Some (deref (cl_transfers c) p) else None)"

text \<open>All uploads are as they were created.\<close>

definition uploads_idle :: "Client \<Rightarrow> bool" where
  "uploads_idle c \<longleftrightarrow> (\<forall>token t. upload_of c token = Some t \<longrightarrow> t_state t = TransferStateNone)"

lemma upload_inv_alt:
  "upload_inv c \<longleftrightarrow> reg_ok (cl_transfers c) \<and> distinct (map qe_Token (q_queue (cl_queueMgr c))) \<and>
     (\<forall>e \<in> set (q_queue (cl_queueMgr c)). \<exists>t. upload_of c (qe_Token e) = Some t \<and>
        identity t = (TransferUpload, qe_Username e, qe_Filename e, qe_Token e))"
proof -
  have "(\<exists>p. GetByToken k (cl_transfers c) = Some p \<and> identity (deref (cl_transfers c) p) = (TransferUpload, u, f, k)) \<longleftrightarrow>
      (\<exists>t. upload_of c k = Some t \<and> identity t = (TransferUpload, u, f, k))" for k u f
    by (cases "GetByToken k (cl_transfers c)") (auto simp: upload_of_def identity_def)
  then show ?thesis by (simp add: upload_inv_def)
qed

lemma processNextUpload_idle:
  assumes "upload_inv c" "uploads_idle c"
  shows "processNextUpload now c = Inr c"
proof (cases "q_queue (cl_queueMgr c)")
  case (Cons e es)
  then obtain t where t: "upload_of c (qe_Token e) = Some t" using assms(1) by (auto simp: upload_inv_alt)
  then obtain p where "GetByToken (qe_Token e) (cl_transfers c) = Some p" "deref (cl_transfers c) p = t"
    by (auto simp: upload_of_def split: option.splits if_splits)
  moreover have "t_state t \<noteq> (TransferStateQueued OR TransferStateLocally)"
    using assms(2) t by (auto simp: uploads_idle_def TransferStateNone_def TransferStateQueued_def TransferStateLocally_def)
  ultimately show ?thesis using Cons by (simp add: processNextUpload_def)
qed (simp add: processNextUpload_def)

text \<open>
  The failure notice of an upload is written without a length prefix, unlike every other message: a peer that reads messages
  takes its code as the length, so on a connection that carries nothing else it gets an error instead of the notice.
\<close>

theorem failure_notice_unframed:
  assumes "c_room conn = None" "t_state t AND TransferStateSucceeded = 0" "t_state t AND TransferStateCancelled = 0"
    and "length (t_Filename t) < 42"
  shows "\<exists>conn'. notifyPeerOfFailure t (Some conn) = Some conn' \<and>
     (\<exists>notice. c_out conn' = c_out conn @ notice \<and> DecodeUploadFailed notice = Inr \<lparr>uf_Filename = t_Filename t\<rparr> \<and>
        isl (fst (read_frame notice)))"
proof -
  let ?m = "\<lparr>uf_Filename = t_Filename t\<rparr>"
  let ?notice = "le_bytes 4 PeerUploadFailed @ wire_string (t_Filename t)"
  have msg: "buffer_of (UploadFailed_Encode ?m) = NewWriter ?notice Buffer_Write"
    using uf.payload [of ?m] by (simp add: UploadFailed_Code_def)
  have "DecodeUploadFailed ?notice = Inr ?m"
    using uf.decode_encode [of ?m] assms(4) by (simp add: msg string_ok_small)
  moreover have "isl (fst (read_frame ?notice))"
    using assms(4) by (simp add: read_frame_def io_ReadFull_def wire_code)
  ultimately show ?thesis
    using assms(1-3) socket_Write_unlimited [OF assms(1), of ?notice] by (simp add: notifyPeerOfFailure_def msg Let_def)
qed


end
