(* ===== verification/Peers.thy ===== *)
theory Peers
  imports ClientState MessageLoop
begin

text \<open>
  How connections to peers come about: dialling and asking the server (\<^verbatim>\<open>src/client/connmanager.go\<close>,
  \<^verbatim>\<open>src/client/transfer_conn.go\<close>), being dialled (\<^verbatim>\<open>src/client/listener.go\<close>), being asked by the server (\<^verbatim>\<open>src/client/peer.go\<close>),
  and handing transfer connections to downloads (\<^verbatim>\<open>deliverTransferConnection\<close> of \<^verbatim>\<open>download.go\<close>). The dialler of
  \<^verbatim>\<open>net\<close> is the parameter \<open>dial\<close> that answers an error or a fresh connection. Where the code waits in a \<^verbatim>\<open>select\<close>, \<open>between\<close> is what the
  other goroutines do in the meantime, and the result is the list of outcomes of the cases that are then ready (empty: it
  goes on waiting). Setting a deadline on a connection succeeds.
\<close>

section \<open>Announcing oneself\<close>

text \<open>\<^verbatim>\<open>fmt.Sprintf("%s:%d", ip, port)\<close>; the decoders return four-byte addresses.\<close>

definition IP_String :: "byte list \<Rightarrow> string" where
  "IP_String ip = join_strings ''.'' (map (\<lambda>b. decimal (unat b)) ip)"

definition address_string :: "byte list \<Rightarrow> u32 \<Rightarrow> string" where
  "address_string ip port = IP_String ip @ '':'' @ decimal (unat port)"

definition send_checked :: "byte list wr \<Rightarrow> handle \<Rightarrow> Client \<Rightarrow> go_error option \<times> Client" where
  "send_checked msg h c =
     (let w = buffer_of msg
      in case w_err w of Some err \<Rightarrow> (Some err, c) | None \<Rightarrow> with_conn (WriteMessage (w_sink w)) h c)"

definition sendPeerInit :: "handle \<Rightarrow> Client \<Rightarrow> go_error option \<times> Client" where
  "sendPeerInit h c =
     (let token = cl_peerConnToken c + 1;
          c = c\<lparr>cl_peerConnToken := token\<rparr>
      in send_checked (Init_Encode \<lparr>init_Username = pm_ourUsername (cl_peerConnMgr c), init_Type = ''P'', init_Token = token\<rparr>) h c)"

definition peer_connectDirect :: "(string \<Rightarrow> go_error + Conn) \<Rightarrow> string \<Rightarrow> string \<Rightarrow> Client \<Rightarrow> (go_error + handle) \<times> Client" where
  "peer_connectDirect dial username addr c =
     (case Dial dial addr of
        Inl err \<Rightarrow> (Inl (WrapError (''dial peer '' @ username @ '' at '' @ addr) err), c)
      | Inr k \<Rightarrow>
          (case new_conn k c of
             (h, c) \<Rightarrow>
               (case sendPeerInit h c of
                  (Some err, c) \<Rightarrow> (Inl (WrapError (''send PeerInit to '' @ username) err), close_conn h c)
                | (None, c) \<Rightarrow> (Inr h, c))))"

text \<open>A transfer connection: the init message, then the token as four raw bytes.\<close>

definition transfer_connectDirect :: "(string \<Rightarrow> go_error + Conn) \<Rightarrow> string \<Rightarrow> u32 \<Rightarrow> Client \<Rightarrow> (go_error + handle) \<times> Client" where
  "transfer_connectDirect dial peerAddr token c =
     (case Dial dial peerAddr of
        Inl err \<Rightarrow> (Inl (WrapError ''dial'' err), c)
      | Inr k \<Rightarrow>
          (case new_conn k c of
             (h, c) \<Rightarrow>
               (let w = buffer_of (Init_Encode \<lparr>init_Username = cl_username c, init_Type = ''F'', init_Token = token\<rparr>)
                in case w_err w of
                     Some err \<Rightarrow> (Inl (WrapError ''encode init'' err), close_conn h c)
                   | None \<Rightarrow>
                       (case with_conn (WriteMessage (w_sink w)) h c of
                          (Some err, c) \<Rightarrow> (Inl (WrapError ''send init'' err), close_conn h c)
                        | (None, c) \<Rightarrow>
                            (case with_conn (Conn_Write (le_bytes 4 token)) h c of
                               (Some err, c) \<Rightarrow> (Inl (WrapError ''send token'' err), close_conn h c)
                             | (None, c) \<Rightarrow> (Inr h, c))))))"

section \<open>Asking the server\<close>

text \<open>Register a channel for the connection that is to come, and forget it again.\<close>

definition solicit :: "u32 \<Rightarrow> Client \<Rightarrow> nat \<times> Client" where
  "solicit token c =
     (let ps = cl_solicitations c; ch = length (ps_chans ps)
      in (ch, c\<lparr>cl_solicitations := ps\<lparr>ps_pending := Store token ch (ps_pending ps), ps_chans := ps_chans ps @ [make_chan 1]\<rparr>\<rparr>))"

definition unsolicit :: "u32 \<Rightarrow> Client \<Rightarrow> Client" where
  "unsolicit token c =
     (let ps = cl_solicitations c in c\<lparr>cl_solicitations := ps\<lparr>ps_pending := Delete token (ps_pending ps)\<rparr>\<rparr>)"

text \<open>
  Each kind of request draws its token from a counter of its own: \<^verbatim>\<open>peerConnToken\<close>, which \<^verbatim>\<open>sendPeerInit\<close> advances as
  well, and \<^verbatim>\<open>transferSolicitToken\<close>.
\<close>

definition peer_solicit :: "Client \<Rightarrow> u32 \<times> nat \<times> Client" where
  "peer_solicit c =
     (let solicitToken = cl_peerConnToken c + 1
      in (solicitToken, solicit solicitToken (c\<lparr>cl_peerConnToken := solicitToken\<rparr>)))"

definition transfer_solicit :: "Client \<Rightarrow> u32 \<times> nat \<times> Client" where
  "transfer_solicit c =
     (let solicitToken = cl_transferSolicitToken c + 1
      in (solicitToken, solicit solicitToken (c\<lparr>cl_transferSolicitToken := solicitToken\<rparr>)))"

text \<open>\<^verbatim>\<open>case conn := <-connCh\<close>, if it is ready.\<close>

definition recv_conn :: "nat \<Rightarrow> Client \<Rightarrow> ((go_error + handle) \<times> Client) list" where
  "recv_conn ch c =
     (let ps = cl_solicitations c
      in case try_recv (ps_chans ps ! ch) of
           (None, _) \<Rightarrow> []
         | (Some x, chan) \<Rightarrow>
             [(case x of None \<Rightarrow> Inl (ErrorString ''connection closed'') | Some h \<Rightarrow> Inr h,
               c\<lparr>cl_solicitations := ps\<lparr>ps_chans := (ps_chans ps)[ch := chan]\<rparr>\<rparr>)])"

definition peer_connectIndirect ::
  "ctx \<Rightarrow> bool \<Rightarrow> (Client \<Rightarrow> Client) \<Rightarrow> string \<Rightarrow> Client \<Rightarrow> ((go_error + handle) \<times> Client) list" where
  "peer_connectIndirect ctx timeout between username c =
     (if cl_listenerPort c = 0 then [(Inl (ErrorString ''no listener running for indirect connections''), c)]
      else
        case peer_solicit c of
             (solicitToken, ch, c) \<Rightarrow>
               (let w = buffer_of (ConnectToPeerRequest_Encode
                          \<lparr>ctpr_Token = solicitToken, ctpr_Username = username, ctpr_Type = ConnectionTypePeer\<rparr>)
                in map (\<lambda>(r, c). (r, unsolicit solicitToken c))
                     (case w_err w of
                        Some err \<Rightarrow> [(Inl err, c)]
                      | None \<Rightarrow>
                          (case Client_WriteMessage (w_sink w) c of
                             (Some err, c) \<Rightarrow> [(Inl (WrapError ''send connect request'' err), c)]
                           | (None, c) \<Rightarrow>
                               let c = between c
                               in (case ctx of Some err \<Rightarrow> [(Inl err, c)] | None \<Rightarrow> []) @
                                  recv_conn ch c @
                                  (if timeout then [(Inl (ErrorString ''indirect connection timeout''), c)] else [])))))"

text \<open>After the connection arrives, the uploader's side of a transfer reads the peer's token and checks it.\<close>

definition check_token :: "u32 \<Rightarrow> handle \<Rightarrow> Client \<Rightarrow> (go_error + handle) \<times> Client" where
  "check_token expectedToken h c =
     (case with_conn (Conn_ReadFull 4) h c of
        (Inl err, c) \<Rightarrow> (Inl (WrapError ''read token'' err), close_conn h c)
      | (Inr tokenBuf, c) \<Rightarrow>
          (let remoteToken = (from_le tokenBuf :: u32)
           in if expectedToken \<noteq> 0 \<and> remoteToken \<noteq> expectedToken
              then (Inl (ErrorString (''token mismatch: got '' @ decimal (unat remoteToken) @ '', want '' @ decimal (unat expectedToken))),
                    close_conn h c)
              else (Inr h, c)))"

definition transfer_connectIndirect ::
  "ctx \<Rightarrow> bool \<Rightarrow> (Client \<Rightarrow> Client) \<Rightarrow> string \<Rightarrow> u32 \<Rightarrow> Client \<Rightarrow> ((go_error + handle) \<times> Client) list" where
  "transfer_connectIndirect ctx timeout between username expectedToken c =
     (if cl_listenerPort c = 0 then [(Inl (ErrorString ''no listener running''), c)]
      else
        case transfer_solicit c of
             (solicitToken, ch, c) \<Rightarrow>
               (let w = buffer_of (ConnectToPeerRequest_Encode
                          \<lparr>ctpr_Token = solicitToken, ctpr_Username = username, ctpr_Type = ConnectionTypeTransfer\<rparr>)
                in map (\<lambda>(r, c). (r, unsolicit solicitToken c))
                     (case w_err w of
                        Some err \<Rightarrow> [(Inl (WrapError ''encode request'' err), c)]
                      | None \<Rightarrow>
                          (case Client_WriteMessage (w_sink w) c of
                             (Some err, c) \<Rightarrow> [(Inl (WrapError ''send connect request'' err), c)]
                           | (None, c) \<Rightarrow>
                               let c = between c
                               in (case ctx of Some err \<Rightarrow> [(Inl err, c)] | None \<Rightarrow> []) @
                                  map (\<lambda>(r, c). case r of Inl err \<Rightarrow> (Inl err, c) | Inr h \<Rightarrow> check_token expectedToken h c)
                                    (recv_conn ch c) @
                                  (if timeout then [(Inl (ErrorString ''timeout waiting for indirect connection''), c)] else [])))))"

section \<open>Racing the two ways\<close>

text \<open>
  What the waiting goroutine sees, in order: results of the two attempts, or the end of its context.
\<close>

datatype race_event =
    Race_result bool "go_error + handle" \<comment> \<open>direct?\<close>
  | Race_done go_error

text \<open>The loop of \<^verbatim>\<open>connect\<close>: \<open>None\<close> while it still waits.\<close>

fun peer_connect_loop :: "nat \<Rightarrow> go_error option \<Rightarrow> go_error option \<Rightarrow> race_event list \<Rightarrow> (go_error + handle) option" where
  "peer_connect_loop 0 directErr indirectErr evs =
     Some (Inl (case (directErr, indirectErr) of
        (Some d, Some i) \<Rightarrow> JoinError [WrapError ''direct'' d, WrapError ''indirect'' i]
      | (Some d, None) \<Rightarrow> WrapError ''direct'' d
      | (None, Some i) \<Rightarrow> WrapError ''indirect'' i
      | (None, None) \<Rightarrow> ErrorString ''indirect: %!w(<nil>)''))"
| "peer_connect_loop (Suc n) directErr indirectErr [] = None"
| "peer_connect_loop (Suc n) directErr indirectErr (Race_done err # evs) = Some (Inl err)"
| "peer_connect_loop (Suc n) directErr indirectErr (Race_result isDirect (Inr h) # evs) = Some (Inr h)"
| "peer_connect_loop (Suc n) directErr indirectErr (Race_result isDirect (Inl err) # evs) =
     (if isDirect then peer_connect_loop n (Some err) indirectErr evs else peer_connect_loop n directErr (Some err) evs)"

definition peer_connect :: "race_event list \<Rightarrow> (go_error + handle) option" where
  "peer_connect evs = peer_connect_loop 2 None None evs"

text \<open>The loop of \<^verbatim>\<open>GetConnection\<close>, which collects the errors in a list.\<close>

fun get_connection_loop :: "nat \<Rightarrow> go_error list \<Rightarrow> race_event list \<Rightarrow> (go_error + handle) option" where
  "get_connection_loop 0 errs evs = Some (Inl (JoinError errs))"
| "get_connection_loop (Suc n) errs [] = None"
| "get_connection_loop (Suc n) errs (Race_done err # evs) = Some (Inl err)"
| "get_connection_loop (Suc n) errs (Race_result isDirect (Inr h) # evs) = Some (Inr h)"
| "get_connection_loop (Suc n) errs (Race_result isDirect (Inl err) # evs) =
     get_connection_loop n (errs @ [WrapError (if isDirect then ''direct'' else ''indirect'') err]) evs"

definition GetConnection :: "race_event list \<Rightarrow> (go_error + handle) option" where
  "GetConnection evs = get_connection_loop 2 [] evs"

text \<open>
  How an attempt's goroutine hands in its result: \<^verbatim>\<open>resultCh\<close> has room for both, so the send is always ready; once the attempt
  is cancelled the other case is ready too, and closes the connection.
\<close>

definition hand_in :: "bool \<Rightarrow> (go_error + handle) \<Rightarrow> (go_error + handle) chan \<Rightarrow> Client \<Rightarrow> (go_panic + ((go_error + handle) chan \<times> Client)) list" where
  "hand_in cancelled result resultCh c =
     (case try_send result resultCh of
        Inl panic \<Rightarrow> [Inl panic]
      | Inr (True, ch) \<Rightarrow> [Inr (ch, c)]
      | Inr (False, ch) \<Rightarrow> []) @
     (if cancelled then [Inr (resultCh, case result of Inr h \<Rightarrow> close_conn h c | Inl err \<Rightarrow> c)] else [])"

section \<open>One connection per user\<close>

text \<open>\<^verbatim>\<open>GetOrCreateEx\<close> and \<^verbatim>\<open>getOrCreateSlow\<close>: what a caller finds under the lock.\<close>

datatype begin_result = Cached handle | WaitFor nat | Initiate nat

abbreviation set_mgr :: "(peerConnManager \<Rightarrow> peerConnManager) \<Rightarrow> Client \<Rightarrow> Client" where
  "set_mgr f c \<equiv> c\<lparr>cl_peerConnMgr := f (cl_peerConnMgr c)\<rparr>"

definition getOrCreate_begin :: "string \<Rightarrow> Client \<Rightarrow> begin_result \<times> Client" where
  "getOrCreate_begin username c =
     (let m = cl_peerConnMgr c
      in case Load username (pm_conns m) of
           Some h \<Rightarrow> (Cached h, c)
         | None \<Rightarrow>
             (case Load username (pm_pending m) of
                Some p \<Rightarrow> (WaitFor p, c)
              | None \<Rightarrow>
                  let p = length (pm_attempts m)
                  in (Initiate p, set_mgr (\<lambda>m. m\<lparr>pm_pending := Store username p (pm_pending m),
                        pm_attempts := pm_attempts m @ [\<lparr>pc_ready = False, pc_conn = None, pc_err = None\<rparr>]\<rparr>) c)))"

text \<open>After \<^verbatim>\<open>connect\<close> returned: store the result, cache a connection, drop the pending entry, wake the waiters.\<close>

definition getOrCreate_finish :: "string \<Rightarrow> nat \<Rightarrow> (go_error + handle) \<Rightarrow> Client \<Rightarrow> ((go_error + handle) \<times> bool) \<times> Client" where
  "getOrCreate_finish username p result c =
     (let done = (case result of
                    Inr h \<Rightarrow> \<lparr>pc_ready = True, pc_conn = Some h, pc_err = None\<rparr>
                  | Inl err \<Rightarrow> \<lparr>pc_ready = True, pc_conn = None, pc_err = Some err\<rparr>);
          c = set_mgr (\<lambda>m. m\<lparr>pm_attempts := (pm_attempts m)[p := done]\<rparr>) c;
          c = (case result of Inr h \<Rightarrow> set_mgr (\<lambda>m. m\<lparr>pm_conns := Store username h (pm_conns m)\<rparr>) c | Inl err \<Rightarrow> c);
          c = set_mgr (\<lambda>m. m\<lparr>pm_pending := Delete username (pm_pending m)\<rparr>) c
      in ((result, \<not> isl result), c))"

definition waitForPending :: "ctx \<Rightarrow> nat \<Rightarrow> Client \<Rightarrow> (go_error + handle) list" where
  "waitForPending ctx p c =
     (let a = pm_attempts (cl_peerConnMgr c) ! p
      in (if pc_ready a then [case pc_err a of Some err \<Rightarrow> Inl err | None \<Rightarrow> Inr (the (pc_conn a))] else []) @
         (case ctx of Some err \<Rightarrow> [Inl err] | None \<Rightarrow> []))"

section \<open>Transfer connections find their download\<close>

definition deliverTransferConnection :: "string \<Rightarrow> u32 \<Rightarrow> handle \<Rightarrow> Client \<Rightarrow> go_panic + Client" where
  "deliverTransferConnection username remoteToken h c =
     (case GetByRemoteToken username remoteToken (cl_transfers c) of
        None \<Rightarrow> Inr c
      | Some tr \<Rightarrow>
          (case t_transferConnCh (deref (cl_transfers c) tr) of
             None \<Rightarrow> Inr c
           | Some connCh \<Rightarrow>
               (case try_send h connCh of
                  Inl panic \<Rightarrow> Inl panic
                | Inr (sent, ch) \<Rightarrow>
                    Inr (c\<lparr>cl_transfers := modify tr (\<lambda>t. t\<lparr>t_transferConnCh := Some ch\<rparr>) (cl_transfers c)\<rparr>))))"

text \<open>\<^verbatim>\<open>waitInbound\<close>: the outcomes for a download waiting for its connection.\<close>

definition waitInbound :: "ctx \<Rightarrow> ref \<Rightarrow> Client \<Rightarrow> ((go_error + handle) \<times> Client) list" where
  "waitInbound ctx tr c =
     (case ctx of Some err \<Rightarrow> [(Inl err, c)] | None \<Rightarrow> []) @
     (case t_transferConnCh (deref (cl_transfers c) tr) of
        None \<Rightarrow> []
      | Some connCh \<Rightarrow>
          (case try_recv connCh of
             (None, _) \<Rightarrow> []
           | (Some x, ch) \<Rightarrow>
               [(case x of None \<Rightarrow> Inl (ErrorString ''connection channel closed'') | Some h \<Rightarrow> Inr h,
                 c\<lparr>cl_transfers := modify tr (\<lambda>t. t\<lparr>t_transferConnCh := Some ch\<rparr>) (cl_transfers c)\<rparr>)]))"

definition AwaitConnection :: "ctx \<Rightarrow> ref \<Rightarrow> string \<Rightarrow> Client \<Rightarrow> ((go_error + handle) \<times> Client) list" where
  "AwaitConnection ctx tr peerAddr c = waitInbound ctx tr c"

text \<open>\<^verbatim>\<open>conn.Read(tokenBuf[:])\<close>: one read into four zero bytes, which may fill fewer.\<close>

definition read_token :: "handle \<Rightarrow> Client \<Rightarrow> (go_error + u32) \<times> Client" where
  "read_token h c =
     (case with_conn (Conn_Read 4) h c of
        ((data, Some err), c) \<Rightarrow> (Inl err, c)
      | ((data, None), c) \<Rightarrow> (Inr (from_le (data @ replicate (4 - length data) 0)), c))"

section \<open>Being dialled\<close>

definition handleTransferConnection :: "handle \<Rightarrow> string \<Rightarrow> Client \<Rightarrow> go_panic + Client" where
  "handleTransferConnection h username c =
     (case read_token h c of
        (Inl err, c) \<Rightarrow> Inr (close_conn h c)
      | (Inr remoteToken, c) \<Rightarrow> deliverTransferConnection username remoteToken h c)"

definition handlePierceFirewall :: "handle \<Rightarrow> u32 \<Rightarrow> Client \<Rightarrow> go_panic + Client" where
  "handlePierceFirewall h token c =
     (case solicits_get token c of
        (Some s, c) \<Rightarrow>
          (if pps_connType s = ConnectionTypePeer
           then Inr (start_goroutine (Go_handleIncomingPeerMessages h (pps_username s)) (snd (peerConn_Add (pps_username s) h c)))
           else if pps_connType s = ConnectionTypeTransfer then handleTransferConnection h (pps_username s) c
           else if pps_connType s = ConnectionTypeDistributed then Inr (close_conn h c)
           else Inr c)
      | (None, c) \<Rightarrow>
          (case solicitations_complete token h c of
             Inl panic \<Rightarrow> Inl panic
           | Inr (True, c) \<Rightarrow> Inr c
           | Inr (False, c) \<Rightarrow> Inr (close_conn h c)))"

definition handlePeerInit :: "handle \<Rightarrow> Init \<Rightarrow> Client \<Rightarrow> go_panic + Client" where
  "handlePeerInit h m c =
     (if init_Type m = ''P''
      then Inr (start_goroutine (Go_handleIncomingPeerMessages h (init_Username m)) (snd (peerConn_Add (init_Username m) h c)))
      else if init_Type m = ''F'' then handleTransferConnection h (init_Username m) c
      else Inr (close_conn h c))"

definition handleConnection :: "Conn \<Rightarrow> Client \<Rightarrow> go_panic + Client" where
  "handleConnection netConn c =
     (case new_conn netConn c of
        (h, c) \<Rightarrow>
          (case with_conn ReadMessage h c of
             (Inl err, c) \<Rightarrow> Inr (close_conn h c)
           | (Inr data, c) \<Rightarrow>
               (case data of
                  [] \<Rightarrow> Inr (close_conn h c)
                | code # _ \<Rightarrow>
                    if code = InitPierceFirewall
                    then (case DecodePierceFirewall data of
                            Inl err \<Rightarrow> Inr (close_conn h c)
                          | Inr pf \<Rightarrow> handlePierceFirewall h (pf_Token pf) c)
                    else if code = InitPeerInit
                    then (case DecodeInit data of
                            Inl err \<Rightarrow> Inr (close_conn h c)
                          | Inr m \<Rightarrow> handlePeerInit h m c)
                    else Inr (close_conn h c))))"

text \<open>\<^verbatim>\<open>Start\<close> and \<^verbatim>\<open>Stop\<close>; \<open>listen\<close> answers the port the operating system binds.\<close>

definition Listener_Start :: "(u32 \<Rightarrow> go_error + int) \<Rightarrow> u32 \<Rightarrow> Client \<Rightarrow> go_error option \<times> Client" where
  "Listener_Start listen port c =
     (if cl_listenerRunning c then (Some (ErrorString ''listener already running''), c)
      else case listen port of
             Inl err \<Rightarrow> (Some (WrapError (''listen on :'' @ decimal (unat port)) err), c)
           | Inr bound \<Rightarrow> (None, start_goroutine Go_acceptLoop (c\<lparr>cl_listenerPort := bound, cl_listenerRunning := True\<rparr>)))"

definition Listener_Stop :: "Client \<Rightarrow> Client" where
  "Listener_Stop c = (if \<not> cl_listenerRunning c then c else c\<lparr>cl_listenerRunning := False, cl_listenerPort := 0\<rparr>)"

text \<open>
  \<^verbatim>\<open>acceptLoop\<close> over the results of \<^verbatim>\<open>Accept\<close>; its context is done when the listener is not running. Without a further result the
  loop is blocked.
\<close>

fun acceptLoop :: "(go_error + Conn) list \<Rightarrow> Client \<Rightarrow> Client" where
  "acceptLoop [] c = c"
| "acceptLoop (accepted # rest) c =
     (if \<not> cl_listenerRunning c then c
      else case accepted of
             Inl err \<Rightarrow> acceptLoop rest c
           | Inr netConn \<Rightarrow> acceptLoop rest (start_goroutine (Go_handleConnection netConn) c))"

definition StartListener :: "(u32 \<Rightarrow> go_error + int) \<Rightarrow> Client \<Rightarrow> go_error option \<times> Client" where
  "StartListener listen c =
     (if opt_ListenPort (cl_opts c) = 0 then (Some (ErrorString ''listen port not configured''), c)
      else Listener_Start listen (opt_ListenPort (cl_opts c)) c)"

section \<open>Being asked by the server\<close>

definition handleConnectToPeer :: "byte list \<Rightarrow> Client \<Rightarrow> Client" where
  "handleConnectToPeer payload c =
     (case fst (run_state DecodeConnectToPeer (NewReader payload)) of
        Inl err \<Rightarrow> c
      | Inr msg \<Rightarrow>
          (let c = solicits_add (ctp_Token msg) (ctp_Username msg) (ctp_Type msg) c
           in if ctp_Type msg = ConnectionTypePeer then start_goroutine (Go_connectToPeer msg) c
              else if ctp_Type msg = ConnectionTypeTransfer then start_goroutine (Go_connectToPeerForTransfer msg) c
              else c))"

definition connectToPeerForTransfer :: "(string \<Rightarrow> go_error + Conn) \<Rightarrow> ConnectToPeer \<Rightarrow> Client \<Rightarrow> go_panic + Client" where
  "connectToPeerForTransfer dial msg c =
     (case Dial dial (address_string (ctp_IPAddress msg) (ctp_Port msg)) of
        Inl err \<Rightarrow> Inr c
      | Inr k \<Rightarrow>
          (case new_conn k c of
             (h, c) \<Rightarrow>
               (case send_checked (PierceFirewall_Encode \<lparr>pf_Token = ctp_Token msg\<rparr>) h c of
                  (Some err, c) \<Rightarrow> Inr (close_conn h c)
                | (None, c) \<Rightarrow>
                    (case read_token h c of
                       (Inl err, c) \<Rightarrow> Inr (close_conn h c)
                     | (Inr remoteToken, c) \<Rightarrow> deliverTransferConnection (ctp_Username msg) remoteToken h c))))"

text \<open>\<^verbatim>\<open>connectToPeer\<close>, given what \<^verbatim>\<open>GetOrCreateEx\<close> returned.\<close>

definition connectToPeer_done :: "ConnectToPeer \<Rightarrow> (go_error + handle) \<times> bool \<Rightarrow> Client \<Rightarrow> Client" where
  "connectToPeer_done msg result c =
     (case result of
        (Inr h, True) \<Rightarrow> start_goroutine (Go_handleIncomingPeerMessages h (ctp_Username msg)) c
      | _ \<Rightarrow> c)"

section \<open>Properties of the cache\<close>

text \<open>Pending entries point to attempts of their own that are not settled yet.\<close>

definition pending_ok :: "peerConnManager \<Rightarrow> bool" where
  "pending_ok m \<longleftrightarrow> (\<forall>u p. Load u (pm_pending m) = Some p \<longrightarrow> p < length (pm_attempts m) \<and> \<not> pc_ready (pm_attempts m ! p)) \<and>
     (\<forall>u v p. Load u (pm_pending m) = Some p \<longrightarrow> Load v (pm_pending m) = Some p \<longrightarrow> u = v)"

lemma pending_okD:
  assumes "pending_ok m" "Load u (pm_pending m) = Some p"
  shows "p < length (pm_attempts m)" "\<not> pc_ready (pm_attempts m ! p)" "Load v (pm_pending m) = Some p \<Longrightarrow> u = v"
  using assms by (auto simp: pending_ok_def)

lemma pending_ok_new: "pending_ok newPeerConnManager"
  by (simp add: pending_ok_def newPeerConnManager_def)

lemma pending_ok_begin: "pending_ok (cl_peerConnMgr c) \<Longrightarrow> pending_ok (cl_peerConnMgr (snd (getOrCreate_begin u c)))"
  unfolding getOrCreate_begin_def Let_def
  by (auto simp: pending_ok_def nth_append less_Suc_eq split: option.splits if_splits)

lemma pending_ok_finish:
  assumes "pending_ok (cl_peerConnMgr c)" "Load u (pm_pending (cl_peerConnMgr c)) = Some p"
  shows "pending_ok (cl_peerConnMgr (snd (getOrCreate_finish u p result c)))"
proof -
  have "q \<noteq> p" if "Load v (pm_pending (cl_peerConnMgr c)) = Some q" "v \<noteq> u" for v q
    using pending_okD(3) [OF assms] that by auto
  then show ?thesis using assms(1)
    by (auto simp: getOrCreate_finish_def Let_def pending_ok_def split: sum.splits if_splits) (metis nth_list_update_neq)+
qed

text \<open>
  Steps of other callers while the attempt for user \<open>u\<close> is under way: calls for any user, the end of other users' attempts,
  connections of any user arriving or being dropped, and whatever does not concern the cache.
\<close>

inductive others_step :: "string \<Rightarrow> Client \<Rightarrow> Client \<Rightarrow> bool" for u where
  call: "others_step u c (snd (getOrCreate_begin v c))"
| settled: "v \<noteq> u \<Longrightarrow> Load v (pm_pending (cl_peerConnMgr c)) = Some q \<Longrightarrow> others_step u c (snd (getOrCreate_finish v q r c))"
| arrived: "others_step u c (snd (peerConn_Add v h c))"
| dropped: "others_step u c (Invalidate v c)"
| elsewhere: "cl_peerConnMgr c' = cl_peerConnMgr c \<Longrightarrow> others_step u c c'"

definition under_way :: "string \<Rightarrow> nat \<Rightarrow> Client \<Rightarrow> bool" where
  "under_way u p c \<longleftrightarrow> pending_ok (cl_peerConnMgr c) \<and> Load u (pm_pending (cl_peerConnMgr c)) = Some p"

lemma close_conn_mgr [simp]: "cl_peerConnMgr (close_conn h c) = cl_peerConnMgr c"
  by (simp add: close_conn_def with_conn_def)

lemma under_way_step: "others_step u c c' \<Longrightarrow> under_way u p c \<Longrightarrow> under_way u p c'"
proof (induction rule: others_step.induct)
  case (call c v)
  then show ?case using pending_ok_begin [of c v]
    by (auto simp: under_way_def getOrCreate_begin_def Let_def GetCached_def split: option.splits)
next
  case (settled v c q r)
  then show ?case using pending_ok_finish [of c v q r]
    by (auto simp: under_way_def getOrCreate_finish_def Let_def GetCached_def split: sum.splits)
next
  case (arrived c v h)
  then show ?case by (auto simp: under_way_def peerConn_Add_def Let_def GetCached_def pending_ok_def split: option.splits)
next
  case (dropped c v)
  then show ?case by (auto simp: under_way_def Invalidate_def GetCached_def pending_ok_def)
next
  case (elsewhere c' c)
  then show ?case by (simp add: under_way_def GetCached_def)
qed

lemma under_way_steps: "(others_step u)\<^sup>*\<^sup>* c c' \<Longrightarrow> under_way u p c \<Longrightarrow> under_way u p c'"
  by (induction rule: rtranclp_induct) (auto intro: under_way_step)

lemma begin_under_way:
  "under_way u p c \<Longrightarrow> getOrCreate_begin u c = (case GetCached u c of None \<Rightarrow> WaitFor p | Some h \<Rightarrow> Cached h, c)"
  by (simp add: under_way_def getOrCreate_begin_def GetCached_def split: option.splits)

lemma begin_initiates:
  assumes "pending_ok (cl_peerConnMgr c)" "getOrCreate_begin u c = (Initiate p, c1)"
  shows "under_way u p c1"
  using assms pending_ok_begin [OF assms(1), of u]
  by (auto simp: under_way_def getOrCreate_begin_def Let_def GetCached_def split: option.splits)

text \<open>
  C15: one connection attempt per user at a time. From the call that starts an attempt until the attempt is settled, whatever else
  happens to the cache, no other call for the same user starts another attempt: it gets a connection of that user that
  has arrived meanwhile, and otherwise joins the attempt. When the attempt is settled, all who wait get its result, the connection or the error. A success
  is cached and answered to later calls (in the place of a connection that has arrived meanwhile, which is not closed). After a failure the
  next call gets a connection that has arrived, and otherwise is free to try again.\<close>

theorem single_flight:
  assumes "pending_ok (cl_peerConnMgr c)" "getOrCreate_begin u c = (Initiate p, c1)" "(others_step u)\<^sup>*\<^sup>* c1 c2"
    and "getOrCreate_finish u p result c2 = (r, c3)"
  shows "getOrCreate_begin u c2 = (case GetCached u c2 of None \<Rightarrow> WaitFor p | Some h \<Rightarrow> Cached h, c2) \<and>
     r = (result, \<not> isl result) \<and> waitForPending None p c3 = [result] \<and>
     (case result of
        Inr h \<Rightarrow> getOrCreate_begin u c3 = (Cached h, c3) \<and> cl_heap c3 = cl_heap c2
      | Inl err \<Rightarrow> (case GetCached u c2 of Some h \<Rightarrow> getOrCreate_begin u c3 = (Cached h, c3) | None \<Rightarrow> \<exists>q. fst (getOrCreate_begin u c3) = Initiate q))"
proof -
  have way: "under_way u p c2" using under_way_steps [OF assms(3) begin_initiates [OF assms(1,2)]] .
  then have p: "p < length (pm_attempts (cl_peerConnMgr c2))" using pending_okD(1) by (auto simp: under_way_def)
  show ?thesis using begin_under_way [OF way] assms(4) p
    by (cases result) (auto simp: getOrCreate_finish_def Let_def waitForPending_def getOrCreate_begin_def GetCached_def split: option.splits)
qed

theorem single_flight_witness:
  "let c1 = snd (getOrCreate_begin ''bob'' (New None)); c2 = snd (peerConn_Add ''bob'' 3 c1); c3 = snd (getOrCreate_finish ''bob'' 0 (Inr 4) c2)
   in getOrCreate_begin ''bob'' c2 = (Cached 3, c2) \<and> waitForPending None 0 c3 = [Inr 4] \<and> getOrCreate_begin ''bob'' c3 = (Cached 4, c3)"
proof -
  have "pending_ok (cl_peerConnMgr (New None))" "getOrCreate_begin ''bob'' (New None) = (Initiate 0, snd (getOrCreate_begin ''bob'' (New None)))"
    by (simp_all add: New_defs pending_ok_new) (simp add: getOrCreate_begin_def newPeerConnManager_def)
  from single_flight [OF this r_into_rtranclp [of "others_step ''bob''", OF others_step.arrived] prod.collapse [symmetric], of "''bob''" 3 "Inr 4"]
  show ?thesis by (simp add: Let_def) (simp add: peerConn_Add_def GetCached_def getOrCreate_begin_def Let_def New_defs newPeerConnManager_def)
qed

section \<open>The handshake of a transfer connection\<close>

text \<open>
  A read that ends within a segment leaves the rest of that segment, and the segments behind it, for the next read.
\<close>

lemma segs_ReadFull_split:
  assumes "n \<le> length (concat segs @ pre)" "[] \<notin> set segs" "tail \<noteq> []"
  shows "\<exists>segs' pre'. segs_ReadFull e n acc (segs @ (pre @ tail) # rest) = (Inr (acc @ take n (concat segs @ pre)), segs' @ (pre' @ tail) # rest) \<and>
     concat segs' @ pre' = drop n (concat segs @ pre) \<and> [] \<notin> set segs'"
  using assms(1,2)
proof (induction segs arbitrary: n acc)
  case Nil
  have "n = 0 \<or> n < length (pre @ tail)" using Nil.prems(1) assms(3) by (cases tail) auto
  with Nil.prems show ?case by (intro exI [of _ "[]"] exI [of _ "drop n pre"]) auto
next
  case (Cons s segs)
  show ?case
  proof (cases "n = 0 \<or> n < length s")
    case True
    then show ?thesis using Cons.prems
      by (intro exI [of _ "if n = 0 then s # segs else drop n s # segs"] exI [of _ pre]) auto
  next
    case False
    then have "n - length s \<le> length (concat segs @ pre)" using Cons.prems by simp
    from Cons.IH [OF this, of "acc @ s"] Cons.prems(2) False show ?thesis by auto
  qed
qed

lemma Conn_ReadFull_split:
  assumes "c_in c = segs @ (pre @ tail) # rest" "n \<le> length (concat segs @ pre)" "[] \<notin> set segs" "tail \<noteq> []"
  shows "\<exists>segs' pre'. Conn_ReadFull n c = (Inr (take n (concat segs @ pre)), c\<lparr>c_in := segs' @ (pre' @ tail) # rest\<rparr>) \<and>
     concat segs' @ pre' = drop n (concat segs @ pre) \<and> [] \<notin> set segs'"
proof -
  from segs_ReadFull_split [OF assms(2-4), of "c_end c" "[]" rest] obtain segs' pre' where
    "segs_ReadFull (c_end c) n [] (segs @ (pre @ tail) # rest) = (Inr (take n (concat segs @ pre)), segs' @ (pre' @ tail) # rest)"
    "concat segs' @ pre' = drop n (concat segs @ pre)" "[] \<notin> set segs'" by auto
  then show ?thesis using assms(1) by (intro exI [of _ segs'] exI [of _ pre']) (simp add: Conn_ReadFull_def)
qed

lemma ReadMessage_split:
  assumes "c_in c = segs @ (pre @ tail) # rest" "concat segs @ pre = frame p" "[] \<notin> set segs" "tail \<noteq> []" "length p \<le> maxMessageSize"
  shows "ReadMessage c = (Inr p, c\<lparr>c_in := tail # rest\<rparr>)"
proof -
  let ?len = "le_bytes 4 (word_of_nat (length p) :: u32)"
  have "4 \<le> length (concat segs @ pre)" by (simp only: assms(2)) (simp add: frame_def)
  from Conn_ReadFull_split [OF assms(1) this assms(3,4)] obtain segs1 pre1 where
    s1: "Conn_ReadFull 4 c = (Inr ?len, c\<lparr>c_in := segs1 @ (pre1 @ tail) # rest\<rparr>)" "concat segs1 @ pre1 = p" "[] \<notin> set segs1"
    unfolding assms(2) by (auto simp: frame_def)
  have "length p \<le> length (concat segs1 @ pre1)" by (simp only: s1(2))
  from Conn_ReadFull_split [OF _ this s1(3) assms(4), of "c\<lparr>c_in := segs1 @ (pre1 @ tail) # rest\<rparr>" rest] obtain segs2 pre2 where
    s2: "Conn_ReadFull (length p) (c\<lparr>c_in := segs1 @ (pre1 @ tail) # rest\<rparr>) = (Inr p, c\<lparr>c_in := segs2 @ (pre2 @ tail) # rest\<rparr>)"
      "concat segs2 @ pre2 = []" "[] \<notin> set segs2"
    unfolding s1(2) by auto
  then have "segs2 = []" "pre2 = []" by (cases segs2; auto)+
  moreover have "length p < 2 ^ 32" using assms(5) by (simp add: maxMessageSize_def)
  then have "unat (from_le ?len :: u32) = length p" by (simp add: unat_length_u32)
  ultimately show ?thesis using s1(1) s2(1) assms(5) by (simp add: ReadMessage_def)
qed

text \<open>The init message of a transfer connection.\<close>

definition transfer_init :: "string \<Rightarrow> u32 \<Rightarrow> byte list" where
  "transfer_init username token = w_sink (buffer_of (Init_Encode \<lparr>init_Username = username, init_Type = ''F'', init_Token = token\<rparr>))"

lemma transfer_init:
  assumes "string_ok username"
  shows "length (transfer_init username token) \<le> maxMessageSize" "\<exists>r. transfer_init username token = InitPeerInit # r"
    "DecodeInit (transfer_init username token) = Inr \<lparr>init_Username = username, init_Type = ''F'', init_Token = token\<rparr>"
  using assms DecodeInit_Encode [of "\<lparr>init_Username = username, init_Type = ''F'', init_Token = token\<rparr>"]
  by (simp_all add: transfer_init_def Init_writes string_ok_def maxStringLength_def maxMessageSize_def Init_ok_def wire_code)

lemma transfer_connectDirect_sends:
  assumes "dial addr = Inr k" "c_room k = None" "c_werr k = None" "c_out k = []"
  shows "\<exists>c'. transfer_connectDirect dial addr token c = (Inr (length (cl_heap c)), c') \<and>
     c_out (cl_heap c' ! length (cl_heap c)) = frame (transfer_init (cl_username c) token) @ le_bytes 4 token"
proof -
  let ?h = "length (cl_heap c)"
  let ?c = "c\<lparr>cl_heap := cl_heap c @ [k]\<rparr>"
  let ?p = "transfer_init (cl_username c) token"
  obtain e k1 where k1: "WriteMessage ?p k = (e, k1)" by fastforce
  from WriteMessage_sends [OF assms(3) this] assms(2,4)
  have sent: "e = None" "c_out k1 = frame ?p" "c_werr k1 = None" by (auto simp: sends_def take_room_def accepts_def)
  have "c_room k1 = None" using WriteMessage_room [OF assms(2) k1] .
  then have tok: "Conn_Write (le_bytes 4 token) k1 = (None, k1\<lparr>c_out := c_out k1 @ le_bytes 4 token, c_werr := None\<rparr>)"
    using sent by (intro Conn_Write_short) (simp_all add: bufio_size_def)
  show ?thesis using assms(1) k1 sent tok
    by (simp add: transfer_connectDirect_def new_conn_def Let_def Init_writes with_conn_def nth_append transfer_init_def)
qed

lemma handleConnection_transfer:
  assumes "string_ok username" "concat segs @ pre = frame (transfer_init username token)" "[] \<notin> set segs"
    "c_in netConn = segs @ (pre @ tail) # rest" "tail \<noteq> []"
  shows "handleConnection netConn c = handleTransferConnection (length (cl_heap c)) username (c\<lparr>cl_heap := cl_heap c @ [netConn\<lparr>c_in := tail # rest\<rparr>]\<rparr>)"
proof -
  note init = transfer_init [OF assms(1), of token]
  have "ReadMessage netConn = (Inr (transfer_init username token), netConn\<lparr>c_in := tail # rest\<rparr>)"
    using ReadMessage_split [OF assms(4,2,3,5)] init(1) by blast
  then show ?thesis using init(2,3)
    by (auto simp: handleConnection_def new_conn_def with_conn_def nth_append handlePeerInit_def wire_code)
qed

text \<open>
  The first read returns the beginning of the first segment, so the token is what that segment starts with.
\<close>

lemma read_token_segment:
  assumes "h < length (cl_heap c)" "c_in (cl_heap c ! h) = s # segs"
  shows "\<exists>k. read_token h c = (Inr (from_le (take 4 s @ replicate (4 - length s) 0)), c\<lparr>cl_heap := (cl_heap c)[h := k]\<rparr>) \<and>
     stream k = drop 4 s @ concat segs \<and> c_closed k = c_closed (cl_heap c ! h)"
  using assms by (auto simp: read_token_def with_conn_def Conn_Read_def split: if_splits)

lemma deliver_to_download:
  assumes "GetByRemoteToken username token (cl_transfers c) = Some tr" "tr < length (reg_heap (cl_transfers c))"
    and "t_transferConnCh (deref (cl_transfers c) tr) = Some (make_chan 1)"
  shows "\<exists>c'. deliverTransferConnection username token h c = Inr c' \<and> cl_heap c' = cl_heap c \<and>
     (\<exists>c''. waitInbound None tr c' = [(Inr h, c'')])"
  using assms by (simp add: deliverTransferConnection_def try_send_def waitInbound_def try_recv_def deref_modify)

text \<open>
  C16: a transfer connection reaches the download it is for. The uploader's \<^verbatim>\<open>connectDirect\<close> succeeds on a working connection,
  and when the other client's listener accepts it, with the bytes cut up in any way that keeps the four token bytes
  in one segment, also together with bytes of the handshake before them or of the data after them, the handshake is recognised, the connection is put into the channel of the download registered under the
  uploader's name and token, \<^verbatim>\<open>AwaitConnection\<close> returns it, and what follows the token is left for the data phase.\<close>

theorem transfer_handshake:
  assumes "dial addr = Inr k" "c_room k = None" "c_werr k = None" "c_out k = []" "string_ok (cl_username up)"
    and "GetByRemoteToken (cl_username up) token (cl_transfers down) = Some tr" "tr < length (reg_heap (cl_transfers down))"
    and "t_transferConnCh (deref (cl_transfers down) tr) = Some (make_chan 1)"
  shows "\<exists>up' h. transfer_connectDirect dial addr token up = (Inr h, up') \<and>
     (\<forall>netConn segs pre more segs'. c_out (cl_heap up' ! h) = concat segs @ pre @ le_bytes 4 token \<and> [] \<notin> set segs \<and>
          c_in netConn = segs @ (pre @ le_bytes 4 token @ more) # segs' \<longrightarrow>
        (\<exists>down' down'' h'. handleConnection netConn down = Inr down' \<and>
           AwaitConnection None tr addr down' = [(Inr h', down'')] \<and> stream (cl_heap down' ! h') = more @ concat segs'))"
proof -
  from transfer_connectDirect_sends [of dial, OF assms(1-4), of token up] obtain up' where
    up: "transfer_connectDirect dial addr token up = (Inr (length (cl_heap up)), up')"
      "c_out (cl_heap up' ! length (cl_heap up)) = frame (transfer_init (cl_username up) token) @ le_bytes 4 token" by blast
  have "\<exists>down' down'' h'. handleConnection netConn down = Inr down' \<and>
      AwaitConnection None tr addr down' = [(Inr h', down'')] \<and> stream (cl_heap down' ! h') = more @ concat segs'"
    if segs: "concat segs @ pre = frame (transfer_init (cl_username up) token)" "[] \<notin> set segs"
      "c_in netConn = segs @ (pre @ le_bytes 4 token @ more) # segs'"
    for netConn segs pre more segs'
  proof -
    let ?h = "length (cl_heap down)"
    let ?c = "down\<lparr>cl_heap := cl_heap down @ [netConn\<lparr>c_in := (le_bytes 4 token @ more) # segs'\<rparr>]\<rparr>"
    have hc: "handleConnection netConn down = handleTransferConnection ?h (cl_username up) ?c"
      using handleConnection_transfer [OF assms(5) segs] by simp
    from read_token_segment [of ?h ?c "le_bytes 4 token @ more" segs'] obtain k' where
      k': "read_token ?h ?c = (Inr token, ?c\<lparr>cl_heap := (cl_heap ?c)[?h := k']\<rparr>)" "stream k' = more @ concat segs'"
      by (auto simp: nth_append)
    from deliver_to_download [of "cl_username up" token "?c\<lparr>cl_heap := (cl_heap ?c)[?h := k']\<rparr>" tr ?h] assms(6-8) obtain c' c'' where
      "deliverTransferConnection (cl_username up) token ?h (?c\<lparr>cl_heap := (cl_heap ?c)[?h := k']\<rparr>) = Inr c'"
      "cl_heap c' = (cl_heap ?c)[?h := k']" "waitInbound None tr c' = [(Inr ?h, c'')]" by auto
    then show ?thesis using hc k' by (auto simp: handleTransferConnection_def AwaitConnection_def)
  qed
  then show ?thesis using up by auto
qed

text \<open>
  the listener takes the token with a single \<^verbatim>\<open>Read\<close> instead of reading all four bytes. When the network delivers the
  token's first byte on its own, the listener takes that byte for the whole token: unless it happens to be the token of
  another transfer of the same peer, the connection is given to nobody and left open, and the download it was meant for
  still waits.\<close>

theorem split_token_loses_connection:
  assumes "string_ok username" "concat segs = frame (transfer_init username token)" "[] \<notin> set segs"
    and "le_bytes 4 token = b # bs" "c_in netConn = segs @ [b] # segs'" "\<not> c_closed netConn"
    and "GetByRemoteToken username (ucast b) (cl_transfers down) = None"
    and "t_transferConnCh (deref (cl_transfers down) tr) = Some (make_chan 1)"
  shows "\<exists>down'. handleConnection netConn down = Inr down' \<and> cl_transfers down' = cl_transfers down \<and>
     AwaitConnection None tr addr down' = [] \<and> \<not> c_closed (cl_heap down' ! length (cl_heap down))"
proof -
  let ?h = "length (cl_heap down)"
  let ?c = "down\<lparr>cl_heap := cl_heap down @ [netConn\<lparr>c_in := [b] # segs'\<rparr>]\<rparr>"
  have "(from_le [b, 0, 0, 0] :: u32) = ucast b" by simp
  then have "from_le (take 4 [b] @ replicate (4 - length [b]) 0) = (ucast b :: u32)" by (simp add: numeral_eq_Suc)
  with read_token_segment [of ?h ?c "[b]" segs'] obtain k' where
    k': "read_token ?h ?c = (Inr (ucast b), ?c\<lparr>cl_heap := (cl_heap ?c)[?h := k']\<rparr>)" "c_closed k' = c_closed netConn"
    by (auto simp: nth_append)
  have "handleConnection netConn down = handleTransferConnection ?h username ?c"
    using handleConnection_transfer [of username segs "[]" token netConn "[b]" segs'] assms(1-3,5) by simp
  then have "handleConnection netConn down = Inr (?c\<lparr>cl_heap := (cl_heap ?c)[?h := k']\<rparr>)"
    using k'(1) assms(7) by (simp add: handleTransferConnection_def deliverTransferConnection_def)
  then show ?thesis using k'(2) assms(6,8)
    by (auto simp: AwaitConnection_def waitInbound_def try_recv_def)
qed

definition demo_down :: Client where
  "demo_down = (New None)\<lparr>cl_transfers :=
     snd (SetRemoteToken 1 300 (modify 0 InitDownloadChannels (snd (RegisterDownload ''bob'' ''b.mp3'' 1 NewTransferRegistry))))\<rparr>"

definition demo_up :: Client where
  "demo_up = (New None)\<lparr>cl_username := ''bob''\<rparr>"

lemma demo_down:
  "GetByRemoteToken ''bob'' 300 (cl_transfers demo_down) = Some 0" "0 < length (reg_heap (cl_transfers demo_down))"
  "t_transferConnCh (deref (cl_transfers demo_down) 0) = Some (make_chan 1)"
  "GetByRemoteToken ''bob'' 44 (cl_transfers demo_down) = None"
  by (simp_all add: demo_down_def RegisterDownload_def register_def NewTransferRegistry_def NewTransfer_def LoadOrStore_def Let_def
      SetRemoteToken_def GetByToken_def GetByRemoteToken_def modify_def InitDownloadChannels_def)

lemma demo_up: "string_ok (cl_username demo_up)" "cl_username demo_up = ''bob''"
  by (simp_all add: demo_up_def string_ok_def maxStringLength_def)

theorem transfer_handshake_witness:
  "\<exists>up' h. transfer_connectDirect (\<lambda>_. Inr (NewConn [] EOF)) ''x'' 300 demo_up = (Inr h, up') \<and>
     (\<forall>init. c_out (cl_heap up' ! h) = init @ le_bytes 4 (300 :: u32) \<longrightarrow>
       (\<exists>down' down'' h'. handleConnection (NewConn [init @ le_bytes 4 (300 :: u32) @ [9]] EOF) demo_down = Inr down' \<and>
          AwaitConnection None 0 ''x'' down' = [(Inr h', down'')] \<and> stream (cl_heap down' ! h') = [9]))"
proof -
  have "c_room (NewConn [] EOF) = None" "c_werr (NewConn [] EOF) = None" "c_out (NewConn [] EOF) = []" by (simp_all add: NewConn_def)
  from transfer_handshake [of "\<lambda>_. Inr (NewConn [] EOF)" "''x''" "NewConn [] EOF" demo_up 300 demo_down 0, OF refl this demo_up(1)]
  obtain up' h where up: "transfer_connectDirect (\<lambda>_. Inr (NewConn [] EOF)) ''x'' 300 demo_up = (Inr h, up')"
    and all: "\<And>netConn segs pre more segs'. c_out (cl_heap up' ! h) = concat segs @ pre @ le_bytes 4 (300 :: u32) \<Longrightarrow> [] \<notin> set segs \<Longrightarrow>
      c_in netConn = segs @ (pre @ le_bytes 4 (300 :: u32) @ more) # segs' \<Longrightarrow>
      (\<exists>down' down'' h'. handleConnection netConn demo_down = Inr down' \<and>
         AwaitConnection None 0 ''x'' down' = [(Inr h', down'')] \<and> stream (cl_heap down' ! h') = more @ concat segs')"
    using demo_down demo_up by auto
  have "\<exists>down' down'' h'. handleConnection (NewConn [init @ le_bytes 4 (300 :: u32) @ [9]] EOF) demo_down = Inr down' \<and>
      AwaitConnection None 0 ''x'' down' = [(Inr h', down'')] \<and> stream (cl_heap down' ! h') = [9]"
    if "c_out (cl_heap up' ! h) = init @ le_bytes 4 (300 :: u32)" for init
    using all [of "[]" init "NewConn [init @ le_bytes 4 (300 :: u32) @ [9]] EOF" "[9]" "[]"] that by (simp add: NewConn_def)
  with up show ?thesis by blast
qed

theorem split_token_loses_connection_witness:
  "\<exists>down'. handleConnection (NewConn [frame (transfer_init ''bob'' 300), [44], [1, 0, 0]] EOF) demo_down = Inr down' \<and>
     AwaitConnection None 0 ''x'' down' = []"
proof -
  let ?p = "frame (transfer_init ''bob'' 300)"
  let ?conn = "NewConn [?p, [44], [1, 0, 0]] EOF"
  have tok: "le_bytes 4 (300 :: u32) = 44 # [1, 0, 0]" by code_simp
  have str: "string_ok ''bob''" by (simp add: string_ok_def maxStringLength_def)
  have segs: "concat [?p] = ?p" "[] \<notin> set [?p]" "c_in ?conn = [?p] @ [44] # [[1, 0, 0]]" "\<not> c_closed ?conn"
    by (simp_all add: frame_def NewConn_def)
  have "GetByRemoteToken ''bob'' (ucast (44 :: byte)) (cl_transfers demo_down) = None" using demo_down(4) by simp
  from split_token_loses_connection [OF str segs(1,2) tok segs(3,4) this demo_down(3)] show ?thesis by blast
qed

section \<open>Solicited connections\<close>

text \<open>Two requests in a row, under tokens drawn in whatever way: who gets the answer to the first of them.\<close>

lemma solicited_answer:
  assumes "Load t1 (cl_peerSolicits c) = None" "solicit t1 c = (ch1, c1)" "solicit t2 c1' = (ch2, c2)"
    and upd: "cl_solicitations c1' = cl_solicitations c1" "cl_peerSolicits c1' = cl_peerSolicits c1"
  shows "\<exists>c3. handlePierceFirewall h t1 c2 = Inr c3 \<and>
     (t1 \<noteq> t2 \<longrightarrow> map fst (recv_conn ch1 c3) = [Inr h] \<and> recv_conn ch2 c3 = []) \<and>
     (t1 = t2 \<longrightarrow> recv_conn ch1 c3 = [] \<and> map fst (recv_conn ch2 c3) = [Inr h])"
proof -
  let ?ps = "cl_solicitations c"
  let ?n = "length (ps_chans ?ps)"
  have c2: "cl_peerSolicits c2 = cl_peerSolicits c" "ps_chans (cl_solicitations c2) = ps_chans ?ps @ [make_chan 1, make_chan 1]"
    "Load t1 (ps_pending (cl_solicitations c2)) = Some (if t1 = t2 then ?n + 1 else ?n)" "ch1 = ?n" "ch2 = ?n + 1"
    using assms(2,3) upd by (auto simp: solicit_def Let_def)
  have idx: "(ps_chans ?ps @ [make_chan 1, make_chan 1]) ! ?n = make_chan 1" "(ps_chans ?ps @ [make_chan 1, make_chan 1]) ! (?n + 1) = make_chan 1"
    by (simp_all add: nth_append)
  define ch where "ch = (if t1 = t2 then ?n + 1 else ?n)"
  define c3 where "c3 = c2\<lparr>cl_solicitations := (cl_solicitations c2)
      \<lparr>ps_pending := Delete t1 (ps_pending (cl_solicitations c2)),
       ps_chans := (ps_chans (cl_solicitations c2))[ch := (make_chan 1)\<lparr>ch_buf := [h]\<rparr>]\<rparr>\<rparr>"
  have "handlePierceFirewall h t1 c2 = Inr c3"
    using assms(1) c2 idx
    by (simp add: handlePierceFirewall_def solicits_get_def solicitations_complete_def Let_def try_send_def c3_def ch_def)
  moreover have "map fst (recv_conn ch' c3) = (if ch' = ch then [Inr h] else [])" if "ch' \<in> {?n, ?n + 1}" for ch'
    using that idx c2(2) by (auto simp: recv_conn_def Let_def c3_def try_recv_def nth_list_update)
  then have "map fst (recv_conn ?n c3) = (if ?n = ch then [Inr h] else [])" "map fst (recv_conn (?n + 1) c3) = (if ?n + 1 = ch then [Inr h] else [])"
    by blast+
  ultimately show ?thesis unfolding c2(4,5) by (auto simp: ch_def)
qed

text \<open>The same for the answer to the second.\<close>

lemma solicited_answer_last:
  assumes "Load t2 (cl_peerSolicits c) = None" "solicit t1 c = (ch1, c1)" "solicit t2 c1' = (ch2, c2)"
    and upd: "cl_solicitations c1' = cl_solicitations c1" "cl_peerSolicits c1' = cl_peerSolicits c1"
  shows "\<exists>c3. handlePierceFirewall h t2 c2 = Inr c3 \<and> map fst (recv_conn ch2 c3) = [Inr h] \<and> recv_conn ch1 c3 = []"
proof (cases "t1 = t2")
  case True
  with assms(1) have "Load t1 (cl_peerSolicits c) = None" by simp
  from solicited_answer [OF this assms(2,3) upd, of h] True show ?thesis by metis
next
  case False
  let ?ps = "cl_solicitations c"
  let ?n = "length (ps_chans ?ps)"
  have c2: "cl_peerSolicits c2 = cl_peerSolicits c" "ps_chans (cl_solicitations c2) = ps_chans ?ps @ [make_chan 1, make_chan 1]"
    "Load t2 (ps_pending (cl_solicitations c2)) = Some (?n + 1)" "ch1 = ?n" "ch2 = ?n + 1"
    using assms(2,3) upd by (auto simp: solicit_def Let_def)
  then show ?thesis using assms(1)
    by (auto simp: handlePierceFirewall_def solicits_get_def solicitations_complete_def Let_def try_send_def recv_conn_def try_recv_def nth_append)
qed

text \<open>
  C32: who gets a connection that was asked for through the server. Both \<^verbatim>\<open>connectIndirect\<close> functions enter their channel in
  one table, under tokens they draw from two separate counters. Take a request for a message connection and one for a transfer
  connection, one right after the other, in either order. If the two counters differ when the first is made, so do the tokens,
  and the peer's \<^verbatim>\<open>PierceFirewall\<close> reaches the channel of the request it answers and no other. If the counters agree, both
  draw the same token, the later request takes over the table entry, and the answer to the earlier one is handed to the later,
  say a message connection to a transfer, while the earlier request does not get its connection. (For tokens the client did
  not itself receive from the server as a peer's request.)\<close>

theorem solicited_connections:
  assumes "Load (cl_peerConnToken c + 1) (cl_peerSolicits c) = None" "Load (cl_transferSolicitToken c + 1) (cl_peerSolicits c) = None"
    and order: "peer_solicit c = (t1, ch1, c1) \<and> transfer_solicit c1 = (t2, ch2, c2) \<or>
                transfer_solicit c = (t1, ch1, c1) \<and> peer_solicit c1 = (t2, ch2, c2)"
  shows "(t1 = t2) = (cl_peerConnToken c = cl_transferSolicitToken c) \<and>
     (\<exists>c3 c4. handlePierceFirewall h t1 c2 = Inr c3 \<and> handlePierceFirewall h t2 c2 = Inr c4 \<and>
        map fst (recv_conn ch2 c4) = [Inr h] \<and> recv_conn ch1 c4 = [] \<and>
        (if cl_peerConnToken c = cl_transferSolicitToken c
         then recv_conn ch1 c3 = [] \<and> map fst (recv_conn ch2 c3) = [Inr h]
         else map fst (recv_conn ch1 c3) = [Inr h] \<and> recv_conn ch2 c3 = []))"
  using order
proof
  assume o: "peer_solicit c = (t1, ch1, c1) \<and> transfer_solicit c1 = (t2, ch2, c2)"
  let ?c = "c\<lparr>cl_peerConnToken := t1\<rparr>" and ?upd = "\<lambda>c. c\<lparr>cl_transferSolicitToken := t2\<rparr>"
  have t: "t1 = cl_peerConnToken c + 1" "t2 = cl_transferSolicitToken c + 1" "solicit t1 ?c = (ch1, c1)" "solicit t2 (?upd c1) = (ch2, c2)"
    using o by (auto simp: peer_solicit_def transfer_solicit_def Let_def solicit_def)
  have free: "Load t1 (cl_peerSolicits ?c) = None" "Load t2 (cl_peerSolicits ?c) = None" using assms(1,2) t(1,2) by simp_all
  have tt: "(t1 = t2) = (cl_peerConnToken c = cl_transferSolicitToken c)" using t(1,2) by simp
  show ?thesis
    using tt solicited_answer [OF free(1) t(3,4), of h] solicited_answer_last [OF free(2) t(3,4), of h]
    by auto
next
  assume o: "transfer_solicit c = (t1, ch1, c1) \<and> peer_solicit c1 = (t2, ch2, c2)"
  let ?c = "c\<lparr>cl_transferSolicitToken := t1\<rparr>" and ?upd = "\<lambda>c. c\<lparr>cl_peerConnToken := t2\<rparr>"
  have t: "t1 = cl_transferSolicitToken c + 1" "t2 = cl_peerConnToken c + 1" "solicit t1 ?c = (ch1, c1)" "solicit t2 (?upd c1) = (ch2, c2)"
    using o by (auto simp: peer_solicit_def transfer_solicit_def Let_def solicit_def)
  have free: "Load t1 (cl_peerSolicits ?c) = None" "Load t2 (cl_peerSolicits ?c) = None" using assms(1,2) t(1,2) by simp_all
  have tt: "(t1 = t2) = (cl_peerConnToken c = cl_transferSolicitToken c)" using t(1,2) by auto
  show ?thesis
    using tt solicited_answer [OF free(1) t(3,4), of h] solicited_answer_last [OF free(2) t(3,4), of h]
    by auto
qed

theorem solicited_connections_witness:
  "let (t1, ch1, c1) = peer_solicit (New None); (t2, ch2, c2) = transfer_solicit c1
   in \<exists>c3. handlePierceFirewall 5 t1 c2 = Inr c3 \<and> recv_conn ch1 c3 = [] \<and> map fst (recv_conn ch2 c3) = [Inr 5]"
proof -
  obtain t1 ch1 c1 where 1: "peer_solicit (New None) = (t1, ch1, c1)" by (cases "peer_solicit (New None)")
  obtain t2 ch2 c2 where 2: "transfer_solicit c1 = (t2, ch2, c2)" by (cases "transfer_solicit c1")
  have "Load (cl_peerConnToken (New None) + 1) (cl_peerSolicits (New None)) = None"
    "Load (cl_transferSolicitToken (New None) + 1) (cl_peerSolicits (New None)) = None"
    "cl_peerConnToken (New None) = cl_transferSolicitToken (New None)"
    by (simp_all add: New_defs newPendingPeerSolicits_def Let_def)
  with solicited_connections [of "New None" t1 ch1 c1 t2 ch2 c2 5] 1 2 show ?thesis by auto
qed

section \<open>The race between the two ways\<close>

lemma race_first_success:
  "peer_connect (Race_result d (Inr h) # evs) = Some (Inr h)" "GetConnection (Race_result d (Inr h) # evs) = Some (Inr h)"
  "peer_connect (Race_result d (Inl e) # Race_result d' (Inr h) # evs) = Some (Inr h)"
  "GetConnection (Race_result d (Inl e) # Race_result d' (Inr h) # evs) = Some (Inr h)"
  by (simp_all add: peer_connect_def GetConnection_def numeral_2_eq_2)

lemma race_both_fail:
  assumes "peer_connect [Race_result d (Inl e), Race_result (\<not> d) (Inl e')] = Some r"
  shows "\<exists>err. r = Inl err \<and> errors_Is err e \<and> errors_Is err e'"
proof -
  have "errors_Is (JoinError [WrapError m x, WrapError m' y]) x" "errors_Is (JoinError [WrapError m x, WrapError m' y]) y" for m m' x y
    by (subst errors_Is.simps; simp; subst errors_Is.simps; simp; subst (2) errors_Is.simps; simp)+
  then show ?thesis using assms by (auto simp: peer_connect_def numeral_2_eq_2 split: if_splits)
qed

text \<open>
  When both ways succeed, one connection is returned; the other attempt, cancelled by then, may close its connection, but it
  may as well put it into the result channel, which nobody reads any more: both cases of its \<^verbatim>\<open>select\<close> are ready.
\<close>

theorem losing_connection_may_leak:
  assumes "try_recv ch = (None, ch)" "ch_cap ch = 2" "\<not> ch_closed ch"
  shows "peer_connect [Race_result True (Inr h1), Race_result False (Inr h2)] = Some (Inr h1) \<and>
     (\<exists>ch'. set (hand_in True (Inr h2) ch c) = {Inr (ch', c), Inr (ch, close_conn h2 c)} \<and> ch_buf ch' = [Inr h2])"
proof -
  have "ch_buf ch = []" using assms by (auto simp: try_recv_def split: list.splits)
  then show ?thesis using assms by (auto simp: race_first_success hand_in_def try_send_def)
qed

end
