(* ===== verification/Downloads.thy ===== *)
theory Downloads
  imports Peers Outcomes Streaming
begin

text \<open>
  The download side, \<^verbatim>\<open>src/client/download.go\<close> (\<^verbatim>\<open>transferData\<close> is in the theory \<^theory_text>\<open>Streaming\<close>, \<^verbatim>\<open>fail\<close> and \<^verbatim>\<open>complete\<close> in
  \<^theory_text>\<open>Outcomes\<close>) with its options (\<^verbatim>\<open>download_options.go\<close>). The orchestrator's transfer is a pointer into the registry. Where it waits,
  the result is the list of outcomes of the \<^verbatim>\<open>select\<close> cases that are ready. Setting a deadline on a connection succeeds, and
  log output is left out.
\<close>

section \<open>Options\<close>

record downloadConfig =
  dc_startOffset :: i64
  dc_expectedSize :: i64

datatype DownloadOption = WithStartOffset i64 | WithExpectedSize i64

fun apply_option :: "DownloadOption \<Rightarrow> downloadConfig \<Rightarrow> downloadConfig" where
  "apply_option (WithStartOffset offset) cfg = cfg\<lparr>dc_startOffset := offset\<rparr>"
| "apply_option (WithExpectedSize sz) cfg = cfg\<lparr>dc_expectedSize := sz\<rparr>"

section \<open>The transfer of an orchestrator\<close>

abbreviation tr_of :: "ref \<Rightarrow> Client \<Rightarrow> Transfer" where
  "tr_of tr c \<equiv> deref (cl_transfers c) tr"

definition upd_tr :: "ref \<Rightarrow> (Transfer \<Rightarrow> Transfer) \<Rightarrow> Client \<Rightarrow> Client" where
  "upd_tr tr f c = c\<lparr>cl_transfers := modify tr f (cl_transfers c)\<rparr>"

definition report :: "ref \<Rightarrow> (Transfer \<Rightarrow> go_panic + Transfer) \<Rightarrow> Client \<Rightarrow> go_panic + Client" where
  "report tr f c = (case f (tr_of tr c) of Inl panic \<Rightarrow> Inl panic | Inr t \<Rightarrow> Inr (upd_tr tr (\<lambda>_. t) c))"

text \<open>\<^verbatim>\<open>SetState(s); emitProgress()\<close>\<close>

definition enter_state :: "time \<Rightarrow> TransferState \<Rightarrow> ref \<Rightarrow> Client \<Rightarrow> go_panic + Client" where
  "enter_state now s tr = report tr (\<lambda>t. emitProgress (SetState now s t))"

section \<open>Starting\<close>

definition Download :: "string \<Rightarrow> string \<Rightarrow> handle \<Rightarrow> DownloadOption list \<Rightarrow> Client \<Rightarrow> (go_error + ref) \<times> Client" where
  "Download username filename w opts c =
     (if \<not> cl_loggedIn c then (Inl (ErrorString ''not logged in''), c)
      else
        let cfg = fold apply_option opts \<lparr>dc_startOffset = 0, dc_expectedSize = 0\<rparr>;
            token = cl_transferToken c + 1;
            c = c\<lparr>cl_transferToken := token\<rparr>
        in case RegisterDownload username filename token (cl_transfers c) of
             (Inl err, r) \<Rightarrow> (Inl err, c\<lparr>cl_transfers := r\<rparr>)
           | (Inr tr, r) \<Rightarrow>
               (let c = c\<lparr>cl_transfers := r\<rparr>;
                    c = upd_tr tr (\<lambda>t. (InitDownloadChannels (t\<lparr>t_StartOffset := dc_startOffset cfg\<rparr>))\<lparr>t_writer := Some w\<rparr>) c
                in (Inr tr, start_goroutine (Go_download tr (dc_expectedSize cfg)) c)))"

definition GetDownloadPlaceInQueue :: "string \<Rightarrow> string \<Rightarrow> Client \<Rightarrow> go_error + u32" where
  "GetDownloadPlaceInQueue username filename c =
     (if \<not> cl_loggedIn c then Inl (ErrorString ''not logged in'')
      else case GetByFile username filename TransferDownload (cl_transfers c) of
             None \<Rightarrow> Inl (ErrorString (''no download for '' @ filename @ '' from '' @ username))
           | Some tr \<Rightarrow> Inr (t_queuePosition (tr_of tr c)))"

section \<open>The peer's address\<close>

text \<open>The temporary handler: the first response about the user goes into the channel, later ones find it full.\<close>

definition address_handler :: "string \<Rightarrow> byte list \<Rightarrow> GetPeerAddressResponse chan \<Rightarrow> GetPeerAddressResponse chan" where
  "address_handler username payload respCh =
     (case fst (run_state DecodeGetPeerAddress (NewReader payload)) of
        Inl err \<Rightarrow> respCh
      | Inr resp \<Rightarrow>
          if gpar_Username resp \<noteq> username then respCh
          else case try_send resp respCh of Inr (sent, ch) \<Rightarrow> ch | Inl panic \<Rightarrow> respCh)"

text \<open>
  \<^verbatim>\<open>getPeerAddress\<close>; \<open>payloads\<close> are the server's address messages dispatched while the handler is registered, \<open>key\<close> names
  the handler.
\<close>

definition getPeerAddress ::
  "(nat \<Rightarrow> nat) \<Rightarrow> ctx \<Rightarrow> byte list list \<Rightarrow> nat \<Rightarrow> string \<Rightarrow> Client \<Rightarrow> ((go_error + string) \<times> Client) list" where
  "getPeerAddress grow ctx payloads key username c =
     (let w = buffer_of (GetPeerAddress_Encode \<lparr>gpa_Username = username\<rparr>)
      in case w_err w of
           Some err \<Rightarrow> [(Inl (WrapError ''encode'' err), c)]
         | None \<Rightarrow>
             (case Client_WriteMessage (w_sink w) c of
                (Some err, c) \<Rightarrow> [(Inl (WrapError ''send'' err), c)]
              | (None, c) \<Rightarrow>
                  (case Router_Register grow ServerGetPeerAddress key (cl_router c) of
                     (handlerID, router) \<Rightarrow>
                       (let respCh = fold (address_handler username) payloads (make_chan 1);
                            c = c\<lparr>cl_router := snd (Unregister ServerGetPeerAddress handlerID router)\<rparr>
                        in (case ctx of Some err \<Rightarrow> [(Inl err, c)] | None \<Rightarrow> []) @
                           (case fst (try_recv respCh) of
                              Some (Some resp) \<Rightarrow> [(Inr (address_string (gpar_IPAddress resp) (gpar_Port resp)), c)]
                            | _ \<Rightarrow> [])))))"

section \<open>Asking for the file\<close>

definition download_sendTransferRequest :: "ref \<Rightarrow> handle \<Rightarrow> Client \<Rightarrow> go_error option \<times> Client" where
  "download_sendTransferRequest tr h c =
     send_checked (TransferRequest_Encode
       \<lparr>treq_Direction = TransferDownload, treq_Token = t_Token (tr_of tr c), treq_Filename = t_Filename (tr_of tr c), treq_FileSize = 0\<rparr>) h c"

text \<open>The reading goroutine of \<^verbatim>\<open>waitForTransferResponse\<close>.\<close>

function read_transfer_response :: "u32 \<Rightarrow> Conn \<Rightarrow> (go_error + TransferResponse) \<times> Conn" where
  "read_transfer_response token conn =
     (case ReadMessage conn of
        (Inl err, c) \<Rightarrow> (Inl err, c)
      | (Inr payload, c) \<Rightarrow>
          if length payload < 4 then read_transfer_response token c
          else if (from_le (take 4 payload) :: u32) = PeerTransferResponse
          then (case DecodeTransferResponse payload of
                  Inl err \<Rightarrow> (Inl err, c)
                | Inr resp \<Rightarrow> if tresp_Token resp = token then (Inr resp, c) else read_transfer_response token c)
          else read_transfer_response token c)"
  by pat_completeness auto

lemma ReadMessage_shrinks: "ReadMessage c = (Inr p, c') \<Longrightarrow> length (stream c') < length (stream c)"
  by (auto simp: ReadMessage_def Let_def split: prod.splits sum.splits if_splits dest!: Conn_ReadFull_consumes)

termination read_transfer_response
  by (relation "measure (\<lambda>(token, conn). length (stream conn))") (auto dest!: ReadMessage_shrinks [OF sym])

declare read_transfer_response.simps [simp del]

text \<open>
  The goroutine is not waited for when another case of the \<^verbatim>\<open>select\<close> is ready first: then it has handled some number \<open>n\<close> of
  messages. The same loop, left off after \<open>n\<close> messages, with its result if it has one by then.
\<close>

definition response_message :: "u32 \<Rightarrow> byte list \<Rightarrow> (go_error + TransferResponse) option" where
  "response_message token payload =
     (if length payload < 4 \<or> (from_le (take 4 payload) :: u32) \<noteq> PeerTransferResponse then None
      else case DecodeTransferResponse payload of
             Inl err \<Rightarrow> Some (Inl err)
           | Inr resp \<Rightarrow> if tresp_Token resp = token then Some (Inr resp) else None)"

fun read_response_on :: "nat \<Rightarrow> u32 \<Rightarrow> Conn \<Rightarrow> (go_error + TransferResponse) option \<times> Conn" where
  "read_response_on 0 token conn = (None, conn)"
| "read_response_on (Suc n) token conn =
     (case ReadMessage conn of
        (Inl err, c) \<Rightarrow> (Some (Inl err), c)
      | (Inr payload, c) \<Rightarrow>
          (case response_message token payload of Some x \<Rightarrow> (Some x, c) | None \<Rightarrow> read_response_on n token c))"

text \<open>It is the loop: what it has delivered is what the loop delivers, and after enough messages it has delivered.\<close>

lemma read_transfer_response_step:
  "read_transfer_response token conn =
     (case ReadMessage conn of
        (Inl err, c) \<Rightarrow> (Inl err, c)
      | (Inr payload, c) \<Rightarrow>
          (case response_message token payload of Some x \<Rightarrow> (x, c) | None \<Rightarrow> read_transfer_response token c))"
  by (subst read_transfer_response.simps) (auto simp: response_message_def split: prod.splits sum.splits)

lemma read_response_on_sound: "read_response_on n token conn = (Some x, conn') \<Longrightarrow> read_transfer_response token conn = (x, conn')"
proof (induction n arbitrary: conn)
  case (Suc n)
  then show ?case by (subst read_transfer_response_step) (auto split: prod.splits sum.splits option.splits)
qed simp

lemma read_response_on_complete: "\<exists>n x conn'. read_response_on n token conn = (Some x, conn')"
proof (induction "length (stream conn)" arbitrary: conn rule: less_induct)
  case less
  obtain x c where rd: "ReadMessage conn = (x, c)" by fastforce
  show ?case
  proof (cases "\<exists>payload. x = Inr payload \<and> response_message token payload = None")
    case True
    then have "length (stream c) < length (stream conn)" using rd ReadMessage_shrinks by auto
    from less [OF this] obtain n y conn' where "read_response_on n token c = (Some y, conn')" by blast
    then show ?thesis using True rd by (intro exI [of _ "Suc n"]) auto
  next
    case False
    then show ?thesis using rd by (intro exI [of _ 1]) (cases x; auto)
  qed
qed

text \<open>The peer signalled through the transfer's channel: take over size and token.\<close>

definition take_ready :: "ref \<Rightarrow> Client \<Rightarrow> Client list" where
  "take_ready tr c =
     (case t_transferReadyCh (tr_of tr c) of
        None \<Rightarrow> []
      | Some ch \<Rightarrow>
          (case try_recv ch of
             (Some (Some info), ch) \<Rightarrow>
               (let c = upd_tr tr (\<lambda>t. t\<lparr>t_transferReadyCh := Some ch, t_Size := ri_FileSize info, t_RemoteToken := ri_RemoteToken info\<rparr>) c
                in [c\<lparr>cl_transfers := snd (SetRemoteToken (t_Token (tr_of tr c)) (ri_RemoteToken info) (cl_transfers c))\<rparr>])
           | _ \<Rightarrow> []))"

definition queued_response :: "u32 \<Rightarrow> TransferResponse" where
  "queued_response token = \<lparr>tresp_Token = token, tresp_Allowed = False, tresp_FileSize = 0, tresp_Reason = ''Queued''\<rparr>"

text \<open>
  The \<^verbatim>\<open>select\<close> is decided when the reading goroutine has handled \<open>n\<close> messages; it lives on, also when its result is not
  the one taken.
\<close>

definition waitForTransferResponse ::
  "ctx \<Rightarrow> nat \<Rightarrow> ref \<Rightarrow> handle \<Rightarrow> Client \<Rightarrow> ((go_error + TransferResponse) \<times> Client) list" where
  "waitForTransferResponse ctx n tr h c =
     (let token = t_Token (tr_of tr c)
      in case with_conn (read_response_on n token) h c of
           (result, c) \<Rightarrow>
             (case ctx of Some err \<Rightarrow> [(Inl err, c)] | None \<Rightarrow> []) @
             (case result of
                None \<Rightarrow> []
              | Some (Inr resp) \<Rightarrow> [(Inr resp, c)]
              | Some (Inl err) \<Rightarrow>
                  (case take_ready tr c of
                     [] \<Rightarrow> [(Inl err, c)]
                   | cs \<Rightarrow> map (\<lambda>c. (Inr (queued_response token), c)) cs)) @
             map (\<lambda>c. (Inr (queued_response token), c)) (take_ready tr c))"

definition checkSizeMismatch :: "i64 \<Rightarrow> i64 \<Rightarrow> go_error option" where
  "checkSizeMismatch expectedSize remoteSize =
     (if sint expectedSize > 0 \<and> remoteSize \<noteq> expectedSize then Some (TransferSizeMismatchError expectedSize remoteSize) else None)"

section \<open>Waiting in the peer's queue\<close>

text \<open>
  One message in \<^verbatim>\<open>readPeerMessagesUntilReady\<close>: \<open>None\<close> to go on reading, \<open>Some e\<close> to return \<open>e\<close>.
\<close>

definition accept_request :: "ref \<Rightarrow> TransferRequest \<Rightarrow> Conn \<Rightarrow> Client \<Rightarrow> go_panic + (go_error option \<times> Conn \<times> Client)" where
  "accept_request tr req conn c =
     (let c = upd_tr tr (\<lambda>t. t\<lparr>t_RemoteToken := treq_Token req, t_Size := treq_FileSize req\<rparr>) c;
          c = c\<lparr>cl_transfers := snd (SetRemoteToken (t_Token (tr_of tr c)) (treq_Token req) (cl_transfers c))\<rparr>;
          w = buffer_of (TransferResponse_Encode
                \<lparr>tresp_Token = treq_Token req, tresp_Allowed = True, tresp_FileSize = treq_FileSize req, tresp_Reason = ''''\<rparr>)
      in case w_err w of
           Some err \<Rightarrow> Inr (Some err, conn, c)
         | None \<Rightarrow>
             (case WriteMessage (w_sink w) conn of
                (Some err, conn) \<Rightarrow> Inr (Some err, conn, c)
              | (None, conn) \<Rightarrow>
                  (case t_transferReadyCh (tr_of tr c) of
                     None \<Rightarrow> Inr (None, conn, c)
                   | Some ch \<Rightarrow>
                       (case try_send \<lparr>ri_RemoteToken = treq_Token req, ri_FileSize = treq_FileSize req\<rparr> ch of
                          Inl panic \<Rightarrow> Inl panic
                        | Inr (sent, ch) \<Rightarrow> Inr (None, conn, upd_tr tr (\<lambda>t. t\<lparr>t_transferReadyCh := Some ch\<rparr>) c)))))"

definition ready_message ::
  "i64 \<Rightarrow> ref \<Rightarrow> byte list \<Rightarrow> Conn \<Rightarrow> Client \<Rightarrow> go_panic + (go_error option option \<times> Conn \<times> Client)" where
  "ready_message expectedSize tr payload conn c =
     (let t = tr_of tr c;
          code = (from_le (take 4 payload) :: u32)
      in if length payload < 4 then Inr (None, conn, c)
         else if code = PeerTransferRequest
         then (case DecodeTransferRequest payload of
                 Inl err \<Rightarrow> Inr (None, conn, c)
               | Inr req \<Rightarrow>
                   if treq_Direction req \<noteq> TransferUpload \<or> treq_Filename req \<noteq> t_Filename t then Inr (None, conn, c)
                   else case checkSizeMismatch expectedSize (treq_FileSize req) of
                          Some err \<Rightarrow> Inr (Some (Some err), conn, c)
                        | None \<Rightarrow>
                            (case accept_request tr req conn c of
                               Inl panic \<Rightarrow> Inl panic
                             | Inr (e, conn, c) \<Rightarrow> Inr (Some e, conn, c)))
         else if code = PeerPlaceInQueueResponse
         then (case DecodePlaceInQueueResponse payload of
                 Inl err \<Rightarrow> Inr (None, conn, c)
               | Inr resp \<Rightarrow>
                   if piq_Filename resp \<noteq> t_Filename t then Inr (None, conn, c)
                   else case report tr emitProgress c of Inl panic \<Rightarrow> Inl panic | Inr c \<Rightarrow> Inr (None, conn, c))
         else if code = PeerUploadDenied
         then (case DecodeUploadDenied payload of
                 Inl err \<Rightarrow> Inr (None, conn, c)
               | Inr denied \<Rightarrow>
                   if ud_Filename denied = t_Filename t then Inr (Some (Some (TransferRejectedError (ud_Reason denied))), conn, c)
                   else Inr (None, conn, c))
         else if code = PeerUploadFailed
         then (case DecodeUploadFailed payload of
                 Inl err \<Rightarrow> Inr (None, conn, c)
               | Inr failed \<Rightarrow>
                   if uf_Filename failed = t_Filename t
                   then Inr (Some (Some (TransferFailedError (t_Username t) (uf_Filename failed))), conn, c)
                   else Inr (None, conn, c))
         else Inr (None, conn, c))"

function readPeerMessagesUntilReady ::
  "i64 \<Rightarrow> ref \<Rightarrow> Conn \<Rightarrow> Client \<Rightarrow> go_panic + (go_error option \<times> Conn \<times> Client)" where
  "readPeerMessagesUntilReady expectedSize tr conn c =
     (case ReadMessage conn of
        (Inl err, conn) \<Rightarrow> Inr (Some (WrapError ''read peer message'' err), conn, c)
      | (Inr payload, conn) \<Rightarrow>
          (case ready_message expectedSize tr payload conn c of
             Inl panic \<Rightarrow> Inl panic
           | Inr (Some e, conn, c) \<Rightarrow> Inr (e, conn, c)
           | Inr (None, conn', c) \<Rightarrow> readPeerMessagesUntilReady expectedSize tr conn' c))"
  by pat_completeness auto

lemma ready_message_skip: "ready_message expectedSize tr p conn c = Inr (None, conn', c') \<Longrightarrow> conn' = conn"
  unfolding ready_message_def Let_def by (auto split: if_splits sum.splits option.splits prod.splits)

termination readPeerMessagesUntilReady
  by (relation "measure (\<lambda>(expectedSize, tr, conn, c). length (stream conn))")
    (auto dest!: ReadMessage_shrinks [OF sym] dest: ready_message_skip)

declare readPeerMessagesUntilReady.simps [simp del]

text \<open>
  The reading goroutine of \<^verbatim>\<open>waitForQueuedTransfer\<close> runs this loop beside all others and is not waited for either: its first
  \<open>n\<close> messages on the connection \<open>h\<close>, with what other goroutines do after each of them; \<open>Some e\<close> if the loop has returned
  \<open>e\<close> by then.
\<close>

definition set_conn :: "handle \<Rightarrow> Conn \<Rightarrow> Client \<Rightarrow> Client" where
  "set_conn h conn c = c\<lparr>cl_heap := (cl_heap c)[h := conn]\<rparr>"

fun read_on :: "(nat \<Rightarrow> Client \<Rightarrow> Client) \<Rightarrow> nat \<Rightarrow> i64 \<Rightarrow> ref \<Rightarrow> handle \<Rightarrow> Client \<Rightarrow> go_panic + (go_error option option \<times> Client)" where
  "read_on others 0 expectedSize tr h c = Inr (None, c)"
| "read_on others (Suc n) expectedSize tr h c =
     (case ReadMessage (cl_heap c ! h) of
        (Inl err, conn) \<Rightarrow> Inr (Some (Some (WrapError ''read peer message'' err)), set_conn h conn c)
      | (Inr payload, conn) \<Rightarrow>
          (case ready_message expectedSize tr payload conn c of
             Inl panic \<Rightarrow> Inl panic
           | Inr (Some e, conn, c) \<Rightarrow> Inr (Some e, set_conn h conn c)
           | Inr (None, conn, c) \<Rightarrow> read_on others n expectedSize tr h (others n (set_conn h conn c))))"

section \<open>Receiving the file\<close>

text \<open>
  \<^verbatim>\<open>transferData\<close> on the connection \<open>h\<close>, which is closed afterwards; the writer's state goes along with the client's.
\<close>

definition run_transferData ::
  "(nat \<Rightarrow> go_error option) \<Rightarrow> (nat \<Rightarrow> time) \<Rightarrow> 'w writer \<Rightarrow> ref \<Rightarrow> handle \<Rightarrow> Client \<times> 'w \<Rightarrow> go_panic + (go_error option \<times> Client \<times> 'w)" where
  "run_transferData ctx now wr tr h s =
     (case s of (c, sink) \<Rightarrow>
       (case transferData ctx now wr \<lparr>rc_conn = cl_heap c ! h, rc_sink = sink, rc_transfer = tr_of tr c\<rparr> of
          Inl panic \<Rightarrow> Inl panic
        | Inr (e, st) \<Rightarrow>
            Inr (e, close_conn h (upd_tr tr (\<lambda>_. rc_transfer st) (c\<lparr>cl_heap := (cl_heap c)[h := rc_conn st]\<rparr>)), rc_sink st)))"

text \<open>What the outside world does to one download.\<close>

record 'w download_env =
  env_now :: "nat \<Rightarrow> time"
  env_ctx :: "nat \<Rightarrow> ctx" \<comment> \<open>the context at the waits of the orchestrator\<close>
  env_data_ctx :: "nat \<Rightarrow> ctx" \<comment> \<open>and in the data loop\<close>
  env_data_now :: "nat \<Rightarrow> time"
  env_grow :: "nat \<Rightarrow> nat"
  env_payloads :: "byte list list" \<comment> \<open>address messages from the server\<close>
  env_connect :: "string \<Rightarrow> string \<Rightarrow> Client \<Rightarrow> ((go_error + handle) \<times> Client) list" \<comment> \<open>\<open>GetOrCreateEx\<close>\<close>
  env_others :: "nat \<Rightarrow> Client \<Rightarrow> Client" \<comment> \<open>what other goroutines do during a wait\<close>
  env_reader :: "nat \<Rightarrow> nat" \<comment> \<open>how many messages a reading goroutine has handled when the wait ends\<close>
  env_dial :: "string \<Rightarrow> go_error + Conn"
  env_write :: "'w writer"

type_synonym 'w outcomes = "(go_panic + (go_error option \<times> Client \<times> 'w)) list"

definition waitForTransferConnection :: "'w download_env \<Rightarrow> ref \<Rightarrow> string \<Rightarrow> Client \<times> 'w \<Rightarrow> 'w outcomes" where
  "waitForTransferConnection env tr peerAddr s =
     (case s of (c, sink) \<Rightarrow>
       (case enter_state (env_now env 4) TransferStateInitializing tr c of
          Inl panic \<Rightarrow> [Inl panic]
        | Inr c \<Rightarrow>
            map (\<lambda>(r, c). case r of
                Inl err \<Rightarrow> Inr (Some err, c, sink)
              | Inr h \<Rightarrow> run_transferData (env_data_ctx env) (env_data_now env) (env_write env) tr h (c, sink))
              (AwaitConnection (env_ctx env 3) tr peerAddr (env_others env 3 c))))"

definition waitForQueuedTransfer :: "'w download_env \<Rightarrow> i64 \<Rightarrow> ref \<Rightarrow> string \<Rightarrow> handle \<Rightarrow> Client \<times> 'w \<Rightarrow> 'w outcomes" where
  "waitForQueuedTransfer env expectedSize tr peerAddr h s =
     (case s of (c, sink) \<Rightarrow>
       (if t_RemoteToken (tr_of tr c) \<noteq> 0 then waitForTransferConnection env tr peerAddr (c, sink)
        else
          case read_on (\<lambda>n. env_others env (4 + n)) (env_reader env 2) expectedSize tr h (env_others env 2 c) of
            Inl panic \<Rightarrow> [Inl panic]
          | Inr (result, c) \<Rightarrow>
              (case env_ctx env 2 of Some err \<Rightarrow> [Inr (Some err, c, sink)] | None \<Rightarrow> []) @
              (case result of
                 None \<Rightarrow> []
               | Some None \<Rightarrow> waitForTransferConnection env tr peerAddr (c, sink)
               | Some (Some err) \<Rightarrow>
                   (case take_ready tr c of
                      [] \<Rightarrow> [Inr (Some err, c, sink)]
                    | cs \<Rightarrow> concat (map (\<lambda>c. waitForTransferConnection env tr peerAddr (c, sink)) cs))) @
              concat (map (\<lambda>c. waitForTransferConnection env tr peerAddr (c, sink)) (take_ready tr c))))"

definition performImmediateTransfer :: "'w download_env \<Rightarrow> ref \<Rightarrow> string \<Rightarrow> Client \<times> 'w \<Rightarrow> 'w outcomes" where
  "performImmediateTransfer env tr peerAddr s =
     (case s of (c, sink) \<Rightarrow>
       (case enter_state (env_now env 4) TransferStateInitializing tr c of
          Inl panic \<Rightarrow> [Inl panic]
        | Inr c \<Rightarrow>
            (case Dial (env_dial env) peerAddr of
               Inl err \<Rightarrow> [Inr (Some (WrapError ''dial'' err), c, sink)]
             | Inr k \<Rightarrow>
                 (case new_conn k c of
                    (h, c) \<Rightarrow>
                      (let token = t_Token (tr_of tr c);
                           w = buffer_of (Init_Encode \<lparr>init_Username = cl_username c, init_Type = ''F'', init_Token = token\<rparr>)
                       in case w_err w of
                            Some err \<Rightarrow> [Inr (Some err, close_conn h c, sink)]
                          | None \<Rightarrow>
                              (case with_conn (WriteMessage (w_sink w)) h c of
                                 (Some err, c) \<Rightarrow> [Inr (Some (WrapError ''send init'' err), close_conn h c, sink)]
                               | (None, c) \<Rightarrow>
                                   (case with_conn (Conn_Write (le_bytes 4 token)) h c of
                                      (Some err, c) \<Rightarrow> [Inr (Some (WrapError ''send token'' err), close_conn h c, sink)]
                                    | (None, c) \<Rightarrow>
                                        [run_transferData (env_data_ctx env) (env_data_now env) (env_write env) tr h (c, sink)])))))))"

definition handleTransferResponse ::
  "'w download_env \<Rightarrow> i64 \<Rightarrow> ref \<Rightarrow> string \<Rightarrow> TransferResponse \<Rightarrow> handle \<Rightarrow> Client \<times> 'w \<Rightarrow> 'w outcomes" where
  "handleTransferResponse env expectedSize tr peerAddr resp h s =
     (case s of (c, sink) \<Rightarrow>
       (if tresp_Allowed resp
        then (case checkSizeMismatch expectedSize (tresp_FileSize resp) of
                Some err \<Rightarrow> [Inr (Some err, c, sink)]
              | None \<Rightarrow> performImmediateTransfer env tr peerAddr (upd_tr tr (\<lambda>t. t\<lparr>t_Size := tresp_FileSize resp\<rparr>) c, sink))
        else if tresp_Reason resp \<noteq> ''Queued'' then [Inr (Some (TransferRejectedError (tresp_Reason resp)), c, sink)]
        else case enter_state (env_now env 3) (TransferStateQueued OR TransferStateRemotely) tr c of
               Inl panic \<Rightarrow> [Inl panic]
             | Inr c \<Rightarrow> waitForQueuedTransfer env expectedSize tr peerAddr h (c, sink)))"

section \<open>The whole download\<close>

definition download_cleanup :: "ref \<Rightarrow> Client \<Rightarrow> go_panic + Client" where
  "download_cleanup tr c =
     (case Registry_Remove (t_Token (tr_of tr c)) (cl_transfers c) of
        Inl panic \<Rightarrow> Inl panic
      | Inr r \<Rightarrow> Inr (c\<lparr>cl_transfers := r\<rparr>))"

text \<open>\<^verbatim>\<open>fail\<close> or \<^verbatim>\<open>complete\<close>, then the deferred calls.\<close>

definition finish_download :: "time \<Rightarrow> ref \<Rightarrow> handle option \<Rightarrow> go_error option \<Rightarrow> Client \<times> 'w \<Rightarrow> go_panic + (Client \<times> 'w)" where
  "finish_download now tr peerConn e s =
     (case s of (c, sink) \<Rightarrow>
       (case report tr (case e of Some err \<Rightarrow> download_fail now err | None \<Rightarrow> download_complete now) c of
          Inl panic \<Rightarrow> Inl panic
        | Inr c \<Rightarrow>
            (case download_cleanup tr (case peerConn of None \<Rightarrow> c | Some h \<Rightarrow> close_conn h c) of
               Inl panic \<Rightarrow> Inl panic
             | Inr c \<Rightarrow> Inr (c, sink))))"

definition run_connected :: "'w download_env \<Rightarrow> i64 \<Rightarrow> ref \<Rightarrow> string \<Rightarrow> handle \<Rightarrow> Client \<times> 'w \<Rightarrow> 'w outcomes" where
  "run_connected env expectedSize tr peerAddr h s =
     (case s of (c, sink) \<Rightarrow>
       (case download_sendTransferRequest tr h c of
          (Some err, c) \<Rightarrow> [Inr (Some (WrapError ''send transfer request'' err), c, sink)]
        | (None, c) \<Rightarrow>
            concat (map (\<lambda>(r, c). case r of
                Inl err \<Rightarrow> [Inr (Some (WrapError ''wait for response'' err), c, sink)]
              | Inr resp \<Rightarrow> handleTransferResponse env expectedSize tr peerAddr resp h (c, sink))
              (waitForTransferResponse (env_ctx env 1) (env_reader env 1) tr h (env_others env 1 c)))))"

definition finish_all :: "time \<Rightarrow> ref \<Rightarrow> handle option \<Rightarrow> 'w outcomes \<Rightarrow> (go_panic + (Client \<times> 'w)) list" where
  "finish_all now tr peerConn = map (\<lambda>x. case x of Inl panic \<Rightarrow> Inl panic | Inr (e, s) \<Rightarrow> finish_download now tr peerConn e s)"

definition download_run :: "'w download_env \<Rightarrow> i64 \<Rightarrow> ref \<Rightarrow> Client \<times> 'w \<Rightarrow> (go_panic + (Client \<times> 'w)) list" where
  "download_run env expectedSize tr s =
     (case s of (c, sink) \<Rightarrow>
       (case enter_state (env_now env 0) (TransferStateQueued OR TransferStateLocally) tr c of
          Inl panic \<Rightarrow> [Inl panic]
        | Inr c \<Rightarrow>
            concat (map (\<lambda>(r, c). case r of
                Inl err \<Rightarrow> finish_all (env_now env 5) tr None [Inr (Some (WrapError ''get peer address'' err), c, sink)]
              | Inr peerAddr \<Rightarrow>
                  (case enter_state (env_now env 1) TransferStateRequested tr c of
                     Inl panic \<Rightarrow> [Inl panic]
                   | Inr c \<Rightarrow>
                       concat (map (\<lambda>(r, c). case r of
                           Inl err \<Rightarrow> finish_all (env_now env 5) tr None [Inr (Some (WrapError ''connect to peer'' err), c, sink)]
                         | Inr h \<Rightarrow> finish_all (env_now env 5) tr (Some h) (run_connected env expectedSize tr peerAddr h (c, sink)))
                         (env_connect env (t_Username (tr_of tr c)) peerAddr c))))
              (getPeerAddress (env_grow env) (env_ctx env 0) (env_payloads env) 0 (t_Username (tr_of tr c)) (env_others env 0 c)))))"

section \<open>Messages from peers\<close>

definition handleTransferRequest :: "byte list \<Rightarrow> string \<Rightarrow> handle option \<Rightarrow> Client \<Rightarrow> go_panic + Client" where
  "handleTransferRequest payload username conn c =
     (case DecodeTransferRequest payload of
        Inl err \<Rightarrow> Inr c
      | Inr req \<Rightarrow>
          if treq_Direction req \<noteq> TransferUpload then Inr c
          else case GetByFile username (treq_Filename req) TransferDownload (cl_transfers c) of
                 None \<Rightarrow> Inr c
               | Some tr \<Rightarrow>
                   (let c = (case conn of
                               None \<Rightarrow> c
                             | Some h \<Rightarrow> snd (send_checked (TransferResponse_Encode
                                 \<lparr>tresp_Token = treq_Token req, tresp_Allowed = True, tresp_FileSize = treq_FileSize req, tresp_Reason = ''''\<rparr>) h c))
                    in case t_transferReadyCh (tr_of tr c) of
                         None \<Rightarrow> Inr c
                       | Some ch \<Rightarrow>
                           (case try_send \<lparr>ri_RemoteToken = treq_Token req, ri_FileSize = treq_FileSize req\<rparr> ch of
                              Inl panic \<Rightarrow> Inl panic
                            | Inr (sent, ch) \<Rightarrow> Inr (upd_tr tr (\<lambda>t. t\<lparr>t_transferReadyCh := Some ch\<rparr>) c))))"

text \<open>
  The other three look a download up, under the registry's lock, and report on it afterwards, without a lock: what they find,
  and the report, are two steps, and other goroutines may run in between.
\<close>

type_synonym found = "(ref \<times> (Transfer \<Rightarrow> go_panic + Transfer)) option"

definition run_report :: "found \<Rightarrow> Client \<Rightarrow> go_panic + Client" where
  "run_report found c = (case found of None \<Rightarrow> Inr c | Some (tr, f) \<Rightarrow> report tr f c)"

definition rejected_report :: "time \<Rightarrow> string \<Rightarrow> Transfer \<Rightarrow> go_panic + Transfer" where
  "rejected_report now reason t =
     emitProgress (SetState now (TransferStateCompleted OR TransferStateRejected) (t\<lparr>t_Error := Some (TransferRejectedError reason)\<rparr>))"

definition failed_report :: "time \<Rightarrow> string \<Rightarrow> string \<Rightarrow> Transfer \<Rightarrow> go_panic + Transfer" where
  "failed_report now username filename t =
     emitProgress (SetState now (TransferStateCompleted OR TransferStateErrored) (t\<lparr>t_Error := Some (TransferFailedError username filename)\<rparr>))"

definition found_PlaceInQueueResponse :: "byte list \<Rightarrow> string \<Rightarrow> Client \<Rightarrow> found" where
  "found_PlaceInQueueResponse payload username c =
     (case DecodePlaceInQueueResponse payload of
        Inl err \<Rightarrow> None
      | Inr resp \<Rightarrow>
          map_option (\<lambda>tr. (tr, SetQueuePosition (piq_Place resp))) (GetByFile username (piq_Filename resp) TransferDownload (cl_transfers c)))"

definition found_UploadDenied :: "time \<Rightarrow> byte list \<Rightarrow> string \<Rightarrow> Client \<Rightarrow> found" where
  "found_UploadDenied now payload username c =
     (case DecodeUploadDenied payload of
        Inl err \<Rightarrow> None
      | Inr denied \<Rightarrow>
          map_option (\<lambda>tr. (tr, rejected_report now (ud_Reason denied))) (GetByFile username (ud_Filename denied) TransferDownload (cl_transfers c)))"

definition found_UploadFailed :: "time \<Rightarrow> byte list \<Rightarrow> string \<Rightarrow> Client \<Rightarrow> found" where
  "found_UploadFailed now payload username c =
     (case DecodeUploadFailed payload of
        Inl err \<Rightarrow> None
      | Inr failed \<Rightarrow>
          map_option (\<lambda>tr. (tr, failed_report now username (uf_Filename failed)))
            (GetByFile username (uf_Filename failed) TransferDownload (cl_transfers c)))"

definition handlePlaceInQueueResponse :: "byte list \<Rightarrow> string \<Rightarrow> Client \<Rightarrow> go_panic + Client" where
  "handlePlaceInQueueResponse payload username c = run_report (found_PlaceInQueueResponse payload username c) c"

definition handleUploadDenied :: "time \<Rightarrow> byte list \<Rightarrow> string \<Rightarrow> Client \<Rightarrow> go_panic + Client" where
  "handleUploadDenied now payload username c = run_report (found_UploadDenied now payload username c) c"

definition handleUploadFailed :: "time \<Rightarrow> byte list \<Rightarrow> string \<Rightarrow> Client \<Rightarrow> go_panic + Client" where
  "handleUploadFailed now payload username c = run_report (found_UploadFailed now payload username c) c"

lemmas found_defs = run_report_def found_PlaceInQueueResponse_def found_UploadDenied_def found_UploadFailed_def
  rejected_report_def [abs_def] failed_report_def [abs_def] SetQueuePosition_def [abs_def]

section \<open>The data phase\<close>

lemma chunk_bounds:
  assumes "0 \<le> sint (r :: i64)" "sint r < sint T"
  shows "0 < chunk (T - r)" "int (chunk (T - r)) \<le> sint T - sint r"
proof -
  note range = i64_range [OF assms(1) less_imp_le [OF assms(2)]]
  have "sint (T - r) = sint (word_of_nat (nat (sint T - sint r)) :: i64)" using range(1) by (rule arg_cong)
  also have "\<dots> = int (nat (sint T - sint r))" using range(2) by (rule sint_of_nat)
  finally have "sint (T - r) = sint T - sint r" using assms(2) by simp
  then show "0 < chunk (T - r)" "int (chunk (T - r)) \<le> sint T - sint r" using assms(2) by (simp_all add: chunk_def bufferSize_def)
qed

lemma count_up:
  assumes "0 \<le> sint (r :: i64)" "sint r + int n \<le> sint (T :: i64)"
  shows "sint (r + word_of_nat n) = sint r + int n"
proof -
  have "r = word_of_nat (nat (sint r))" using assms(1) by simp
  then have sum: "r + word_of_nat n = word_of_nat (nat (sint r) + n)" by (metis of_nat_add)
  have "sint T < 2 ^ 63" using sint_lt [of T] by simp
  then have "int (nat (sint r) + n) < int (2 ^ 63)" using assms by simp
  then have "nat (sint r) + n < 2 ^ 63" by (simp only: of_nat_less_iff)
  from sint_of_nat [OF this] show ?thesis unfolding sum using assms(1) by (simp only: of_nat_add int_nat_eq if_True)
qed

context data_sink
begin

text \<open>
  Whatever the context and the writer do, the loop does not panic and leaves the transfer what it is; it returns no error
  only when the bytes that were missing have all been written.
\<close>

lemma receive_loop_safe:
  assumes "open_progress (rc_transfer st)" "0 \<le> sint received"
  shows "\<exists>e st'. receive_loop ctx now put startOffset fileSize i received st = Inr (e, st') \<and>
     identity (rc_transfer st') = identity (rc_transfer st) \<and> open_progress (rc_transfer st') \<and>
     t_Size (rc_transfer st') = t_Size (rc_transfer st) \<and> t_StartOffset (rc_transfer st') = t_StartOffset (rc_transfer st) \<and>
     t_transferReadyCh (rc_transfer st') = t_transferReadyCh (rc_transfer st) \<and>
     (e = None \<longrightarrow> length (contents (rc_sink st')) = length (contents (rc_sink st)) + nat (sint (fileSize - startOffset) - sint received))"
  using assms
proof (induction "length (stream (rc_conn st)) + length (c_in (rc_conn st))" arbitrary: i received st rule: less_induct)
  case (less st i received)
  note prems = less.prems
  let ?T = "fileSize - startOffset"
  let ?n = "chunk (?T - received)"
  obtain data err c where read: "Conn_Read ?n (rc_conn st) = ((data, err), c)" by (metis surj_pair)
  obtain werr w where w: "put data (rc_sink st) = (werr, w)" by fastforce
  show ?case
  proof (cases "sint received < sint ?T \<and> ctx i = None")
    case False
    then show ?thesis using prems by (subst receive_loop.simps) (auto simp: Let_def split: option.splits)
  next
    case True
    then have lt: "sint received < sint ?T" and ctx: "ctx i = None" by simp_all
    then have ne: "received \<noteq> ?T" by auto
    note n = chunk_bounds [OF prems(2) lt]
    show ?thesis
    proof (cases "err = None \<and> werr = None")
      case False
      then show ?thesis using lt ne ctx n(1) read w prems by (subst receive_loop.simps) (auto simp: Let_def split: option.splits)
    next
      case True
      then have read: "Conn_Read ?n (rc_conn st) = ((data, None), c)" and w: "put data (rc_sink st) = (None, w)"
        using read w by simp_all
      let ?r = "received + word_of_nat (length data)"
      obtain t where t: "receive_loop ctx now put startOffset fileSize i received st =
          receive_loop ctx now put startOffset fileSize (i + 1) ?r \<lparr>rc_conn = c, rc_sink = w, rc_transfer = t\<rparr>" "open_progress t"
        "t_Size t = t_Size (rc_transfer st)" "identity t = identity (rc_transfer st)" "t_StartOffset t = t_StartOffset (rc_transfer st)"
        "t_transferReadyCh t = t_transferReadyCh (rc_transfer st)"
        using receive_step [where ctx = ctx and i = i and now = now, OF lt ctx n(1) read w prems(1) refl] by metis
      have le: "length data \<le> ?n" using Conn_Read_stream(2) [OF read] .
      then have r: "sint ?r = sint received + int (length data)" using count_up [OF prems(2), of "length data" ?T] n(2) by linarith
      then have rest: "nat (sint ?T - sint received) = length data + nat (sint ?T - sint ?r)" using n(2) le by linarith
      show ?thesis using less.hyps [of "\<lparr>rc_conn = c, rc_sink = w, rc_transfer = t\<rparr>" ?r "i + 1"] Conn_Read_shrinks [OF read] n(1)
          t prems(2) r rest write_appends [OF w] by auto
    qed
  qed
qed

lemma transferData_safe:
  assumes "open_progress (rc_transfer st)"
  shows "\<exists>e st'. transferData ctx now put st = Inr (e, st') \<and>
     identity (rc_transfer st') = identity (rc_transfer st) \<and> open_progress (rc_transfer st') \<and>
     t_Size (rc_transfer st') = t_Size (rc_transfer st) \<and> t_StartOffset (rc_transfer st') = t_StartOffset (rc_transfer st) \<and>
     t_transferReadyCh (rc_transfer st') = t_transferReadyCh (rc_transfer st) \<and>
     (e = None \<longrightarrow> length (contents (rc_sink st')) =
        length (contents (rc_sink st)) + nat (sint (t_Size (rc_transfer st) - t_StartOffset (rc_transfer st))))"
proof -
  let ?t = "rc_transfer st"
  obtain e c where c: "Conn_Write (le_bytes 8 (t_StartOffset ?t)) (rc_conn st) = (e, c)" by fastforce
  have op: "open_progress (SetState (now 0) TransferStateInProgress ?t)" using assms by (simp add: open_progress_def)
  then obtain t where t: "emitProgress (SetState (now 0) TransferStateInProgress ?t) = Inr t" using report_ok by blast
  note tf = report_fields [OF op t]
  from receive_loop_safe [of "st\<lparr>rc_conn := c, rc_transfer := t\<rparr>" 0 ctx now "t_StartOffset t" "t_Size t" 1] tf
  show ?thesis using assms c t by (cases e) (auto simp: transferData_def)
qed

end

section \<open>A download owns its registration\<close>

text \<open>No code closes the channel that tells a download its peer is ready.\<close>

definition ready_open :: "Transfer \<Rightarrow> bool" where
  "ready_open t \<longleftrightarrow> (case t_transferReadyCh t of None \<Rightarrow> True | Some ch \<Rightarrow> \<not> ch_closed ch)"

lemma ready_open_same: "t_transferReadyCh t' = t_transferReadyCh t \<Longrightarrow> ready_open t' = ready_open t"
  by (simp add: ready_open_def)

definition mine :: "u32 \<Rightarrow> ref \<Rightarrow> Client \<Rightarrow> bool" where
  "mine token tr c \<longleftrightarrow> reg_ok (cl_transfers c) \<and> GetByToken token (cl_transfers c) = Some tr \<and> ready_open (tr_of tr c)"

lemma mineD:
  assumes "mine token tr c"
  shows "tr < length (reg_heap (cl_transfers c))" "t_Token (tr_of tr c) = token" "open_progress (tr_of tr c)"
    "ready_open (tr_of tr c)"
  using assms reg_ok_tokenD by (auto simp: mine_def)

lemma mine_cong: "cl_transfers c' = cl_transfers c \<Longrightarrow> mine token tr c' = mine token tr c"
  by (simp add: mine_def)

lemma upd_tr_fields [simp]:
  "cl_heap (upd_tr tr f c) = cl_heap c" "cl_username (upd_tr tr f c) = cl_username c"
  by (simp_all add: upd_tr_def)

lemma tr_of_upd: "mine token tr c \<Longrightarrow> tr_of tr (upd_tr tr f c) = f (tr_of tr c)"
  using mineD(1) by (simp add: upd_tr_def deref_modify)

text \<open>A pointwise change is as good as a benign function with that value.\<close>

lemma mine_upd:
  assumes "mine token tr c" "identity (f (tr_of tr c)) = identity (tr_of tr c)" "open_progress (f (tr_of tr c))"
    "ready_open (f (tr_of tr c))"
  shows "mine token tr (upd_tr tr f c)"
proof -
  let ?t = "tr_of tr c"
  define g where "g t = (if t = ?t then f t else t)" for t
  have "modify tr f (cl_transfers c) = modify tr g (cl_transfers c)" by (simp add: modify_def g_def)
  moreover have "benign g" using assms(2,3) by (auto simp: benign_def g_def)
  ultimately show ?thesis using assms(1,4) reg_ok_modify tr_of_upd [OF assms(1), of f]
    by (auto simp: mine_def upd_tr_def GetByToken_def)
qed

lemma mine_report:
  assumes "mine token tr c" "f (tr_of tr c) = Inr t" "identity t = identity (tr_of tr c)" "open_progress t"
    "t_transferReadyCh t = t_transferReadyCh (tr_of tr c)"
  shows "\<exists>c'. report tr f c = Inr c' \<and> mine token tr c' \<and> tr_of tr c' = t \<and> cl_heap c' = cl_heap c"
  using assms mine_upd [of token tr c "\<lambda>_. t"] tr_of_upd [OF assms(1), of "\<lambda>_. t"] mineD(4) [OF assms(1)] ready_open_same [OF assms(5)]
  by (auto simp: report_def)

lemma identity_updates [simp]:
  "identity (t\<lparr>t_Error := e\<rparr>) = identity t" "identity (t\<lparr>t_Size := sz\<rparr>) = identity t" "identity (t\<lparr>t_Transferred := n\<rparr>) = identity t"
  "identity (t\<lparr>t_RemoteToken := k\<rparr>) = identity t" "identity (t\<lparr>t_transferReadyCh := ch\<rparr>) = identity t"
  "identity (t\<lparr>t_transferConnCh := ch'\<rparr>) = identity t"
  by (simp_all add: identity_def)

lemma identity_SetState [simp]: "identity (SetState now s t) = identity t"
  using benign_updates(1) [of now s] by (simp add: benign_def)

lemma open_updates [simp]:
  "open_progress (t\<lparr>t_Error := e\<rparr>) = open_progress t" "open_progress (t\<lparr>t_Size := sz\<rparr>) = open_progress t"
  "open_progress (t\<lparr>t_Transferred := n\<rparr>) = open_progress t" "open_progress (t\<lparr>t_RemoteToken := k\<rparr>) = open_progress t"
  "open_progress (t\<lparr>t_transferReadyCh := ch\<rparr>) = open_progress t" "open_progress (t\<lparr>t_transferConnCh := ch'\<rparr>) = open_progress t"
  "open_progress (SetState now s t) = open_progress t"
  by (simp_all add: open_progress_def)

lemma ready_updates [simp]:
  "ready_open (t\<lparr>t_Error := e\<rparr>) = ready_open t" "ready_open (t\<lparr>t_Size := sz\<rparr>) = ready_open t"
  "ready_open (t\<lparr>t_Transferred := n\<rparr>) = ready_open t" "ready_open (t\<lparr>t_RemoteToken := k\<rparr>) = ready_open t"
  "ready_open (t\<lparr>t_transferConnCh := ch'\<rparr>) = ready_open t" "ready_open (SetState now s t) = ready_open t"
  "ready_open (t\<lparr>t_transferReadyCh := Some ch\<rparr>) \<longleftrightarrow> \<not> ch_closed ch"
  by (simp_all add: ready_open_def)

lemma mine_enter_state:
  assumes "mine token tr c"
  shows "\<exists>c'. enter_state now s tr c = Inr c' \<and> mine token tr c' \<and> cl_heap c' = cl_heap c"
proof -
  have op: "open_progress (SetState now s (tr_of tr c))" using mineD(3) [OF assms] by simp
  then obtain t where t: "emitProgress (SetState now s (tr_of tr c)) = Inr t" using report_ok by blast
  from mine_report [OF assms, of "\<lambda>t. emitProgress (SetState now s t)", OF this] report_fields [OF op t] show ?thesis
    by (auto simp: enter_state_def)
qed

lemma mine_SetRemoteToken:
  assumes "mine token tr c"
  shows "mine token tr (c\<lparr>cl_transfers := snd (SetRemoteToken t k (cl_transfers c))\<rparr>)"
  using assms mineD(1,4) [OF assms] reg_ok_updates(1) [of "cl_transfers c" t k]
  by (auto simp: mine_def SetRemoteToken_def Let_def GetByToken_def deref_modify split: option.splits)

lemma try_recv_open: "try_recv ch = (x, ch') \<Longrightarrow> ch_closed ch' = ch_closed ch"
  by (auto simp: try_recv_def split: list.splits)

lemma mine_take_ready:
  assumes "mine token tr c" "c' \<in> set (take_ready tr c)"
  shows "mine token tr c'"
proof (cases "t_transferReadyCh (tr_of tr c)")
  case None
  then show ?thesis using assms(2) by (simp add: take_ready_def)
next
  case (Some ch)
  obtain x ch' where r: "try_recv ch = (x, ch')" by fastforce
  with Some assms(2) obtain info where x: "x = Some (Some info)" by (auto simp: take_ready_def split: option.splits)
  have "\<not> ch_closed ch'" using mineD(4) [OF assms(1)] Some try_recv_open [OF r] by (auto simp: ready_open_def)
  then have "mine token tr (upd_tr tr (\<lambda>t. t\<lparr>t_transferReadyCh := Some ch', t_Size := ri_FileSize info, t_RemoteToken := ri_RemoteToken info\<rparr>) c)"
    using mineD(3) [OF assms(1)] by (intro mine_upd [OF assms(1)]) simp_all
  from mine_SetRemoteToken [OF this] show ?thesis using assms(2) Some r x by (simp add: take_ready_def Let_def)
qed

lemma mine_waitInbound:
  assumes "mine token tr c" "(r, c') \<in> set (waitInbound ctx tr c)"
  shows "mine token tr c'"
proof -
  have "mine token tr (upd_tr tr (\<lambda>t. t\<lparr>t_transferConnCh := ch\<rparr>) c)" for ch
    using assms(1) mineD(3,4) [OF assms(1)] by (intro mine_upd) simp_all
  with assms show ?thesis by (auto simp: waitInbound_def upd_tr_def split: option.splits prod.splits)
qed

lemma mine_with_conn: "mine token tr c \<Longrightarrow> with_conn f h c = (x, c') \<Longrightarrow> mine token tr c'"
  by (auto simp: with_conn_def mine_def split: prod.splits)

lemma mine_close_conn [simp]: "mine token tr (close_conn h c) = mine token tr c"
  by (simp add: close_conn_def with_conn_def mine_def)

lemma tr_of_close_conn [simp]: "tr_of tr (close_conn h c) = tr_of tr c"
  by (simp add: close_conn_def with_conn_def)

section \<open>Every phase keeps the registration and cannot panic\<close>

text \<open>
  What the environment may do: other goroutines keep the registry consistent and this download registered, also while it is
  being connected to the peer. \<open>ends\<close>: an outcome of a phase, with the data written when there is no error.
\<close>

definition fair_env :: "u32 \<Rightarrow> ref \<Rightarrow> 'w download_env \<Rightarrow> bool" where
  "fair_env token tr env \<longleftrightarrow> (\<forall>i c. mine token tr c \<longrightarrow> mine token tr (env_others env i c)) \<and>
     (\<forall>u a c r c'. mine token tr c \<longrightarrow> (r, c') \<in> set (env_connect env u a c) \<longrightarrow> mine token tr c')"

definition ends :: "('w \<Rightarrow> byte list) \<Rightarrow> u32 \<Rightarrow> ref \<Rightarrow> 'w \<Rightarrow> go_panic + (go_error option \<times> Client \<times> 'w) \<Rightarrow> bool" where
  "ends contents token tr sink x \<longleftrightarrow> (\<exists>e c' sink'. x = Inr (e, c', sink') \<and> mine token tr c' \<and>
     (e = None \<longrightarrow> length (contents sink') = length (contents sink) + nat (sint (t_Size (tr_of tr c') - t_StartOffset (tr_of tr c')))))"

lemma ends_error: "mine token tr c \<Longrightarrow> ends contents token tr sink (Inr (Some err, c, sink'))"
  by (simp add: ends_def)

context data_sink
begin

lemma run_transferData_ends:
  assumes "mine token tr c"
  shows "ends contents token tr sink (run_transferData ctx now put tr h (c, sink))"
proof -
  let ?st = "\<lparr>rc_conn = cl_heap c ! h, rc_sink = sink, rc_transfer = tr_of tr c\<rparr>"
  have "open_progress (rc_transfer ?st)" using mineD(3) [OF assms] by simp
  from transferData_safe [OF this, of ctx now] obtain e st' where
    st': "transferData ctx now put ?st = Inr (e, st')" "identity (rc_transfer st') = identity (tr_of tr c)" "open_progress (rc_transfer st')"
      "t_Size (rc_transfer st') = t_Size (tr_of tr c)" "t_StartOffset (rc_transfer st') = t_StartOffset (tr_of tr c)"
      "t_transferReadyCh (rc_transfer st') = t_transferReadyCh (tr_of tr c)"
      "e = None \<longrightarrow> length (contents (rc_sink st')) = length (contents sink) + nat (sint (t_Size (tr_of tr c) - t_StartOffset (tr_of tr c)))"
    by auto
  have ready: "ready_open (rc_transfer st')" using mineD(4) [OF assms] ready_open_same [OF st'(6)] by simp
  let ?c = "c\<lparr>cl_heap := (cl_heap c)[h := rc_conn st']\<rparr>"
  have c: "mine token tr ?c" "tr_of tr ?c = tr_of tr c" using assms by (simp_all add: mine_def)
  have "mine token tr (upd_tr tr (\<lambda>_. rc_transfer st') ?c)" using mine_upd [OF c(1), of "\<lambda>_. rc_transfer st'"] st'(2,3) ready by simp
  moreover have "tr_of tr (upd_tr tr (\<lambda>_. rc_transfer st') ?c) = rc_transfer st'" using tr_of_upd [OF c(1)] .
  ultimately show ?thesis using st' by (simp add: run_transferData_def ends_def)
qed

lemma waitForTransferConnection_ends:
  assumes "mine token tr c" "fair_env token tr env" "env_write env = put" "x \<in> set (waitForTransferConnection env tr addr (c, sink))"
  shows "ends contents token tr sink x"
proof -
  obtain c1 where c1: "enter_state (env_now env 4) TransferStateInitializing tr c = Inr c1" "mine token tr c1"
    using mine_enter_state [OF assms(1)] by blast
  then have "mine token tr (env_others env 3 c1)" using assms(2) by (simp add: fair_env_def)
  from mine_waitInbound [OF this] assms(3,4) c1 run_transferData_ends ends_error show ?thesis
    by (fastforce simp: waitForTransferConnection_def AwaitConnection_def split: sum.splits)
qed

lemma performImmediateTransfer_ends:
  assumes "mine token tr c" "env_write env = put" "x \<in> set (performImmediateTransfer env tr addr (c, sink))"
  shows "ends contents token tr sink x"
proof -
  obtain c1 where c1: "enter_state (env_now env 4) TransferStateInitializing tr c = Inr c1" "mine token tr c1"
    using mine_enter_state [OF assms(1)] by blast
  show ?thesis
  proof (cases "Dial (env_dial env) addr")
    case (Inl err)
    then show ?thesis using assms(3) c1 by (auto simp: performImmediateTransfer_def intro!: ends_error)
  next
    case (Inr k)
    let ?h = "length (cl_heap c1)"
    let ?c = "c1\<lparr>cl_heap := cl_heap c1 @ [k]\<rparr>"
    let ?token = "t_Token (tr_of tr c1)"
    let ?m = "buffer_of (Init_Encode \<lparr>init_Username = cl_username c1, init_Type = ''F'', init_Token = ?token\<rparr>)"
    obtain e2 c2 where c2: "with_conn (WriteMessage (w_sink ?m)) ?h ?c = (e2, c2)" by fastforce
    obtain e3 c3 where c3: "with_conn (Conn_Write (le_bytes 4 ?token)) ?h c2 = (e3, c3)" by fastforce
    have "mine token tr ?c" using c1(2) by (simp add: mine_def)
    moreover note mine_with_conn [OF this c2]
    moreover note mine_with_conn [OF this c3]
    moreover have "w_err ?m = None" by (simp add: Init_writes)
    ultimately show ?thesis using assms(3) c1 c2 c3 Inr
      by (cases e2; cases e3) (auto simp: performImmediateTransfer_def new_conn_def Let_def intro!: ends_error run_transferData_ends [folded assms(2)])
  qed
qed

end

lemma try_send_open: "\<not> ch_closed ch \<Longrightarrow> \<exists>sent ch'. try_send x ch = Inr (sent, ch') \<and> \<not> ch_closed ch'"
  by (auto simp: try_send_def)

lemma accept_request_mine:
  assumes "mine token tr c"
  shows "\<exists>e conn' c'. accept_request tr req conn c = Inr (e, conn', c') \<and> mine token tr c'"
proof -
  define c1 where "c1 = upd_tr tr (\<lambda>t. t\<lparr>t_RemoteToken := treq_Token req, t_Size := treq_FileSize req\<rparr>) c"
  define c2 where "c2 = c1\<lparr>cl_transfers := snd (SetRemoteToken (t_Token (tr_of tr c1)) (treq_Token req) (cl_transfers c1))\<rparr>"
  let ?m = "buffer_of (TransferResponse_Encode
      \<lparr>tresp_Token = treq_Token req, tresp_Allowed = True, tresp_FileSize = treq_FileSize req, tresp_Reason = []\<rparr>)"
  have "mine token tr c1" unfolding c1_def using mineD(3,4) [OF assms] by (intro mine_upd [OF assms]) simp_all
  then have c2: "mine token tr c2" unfolding c2_def by (rule mine_SetRemoteToken)
  have up: "mine token tr (upd_tr tr (\<lambda>t. t\<lparr>t_transferReadyCh := Some ch\<rparr>) c2)" if "\<not> ch_closed ch" for ch
    using mineD(3) [OF c2] that by (intro mine_upd [OF c2]) simp_all
  obtain e conn' where w: "WriteMessage (w_sink ?m) conn = (e, conn')" by fastforce
  have m: "w_err ?m = None" by (simp add: tresp.payload)
  note eq = accept_request_def [of tr req conn c, unfolded Let_def, folded c1_def, folded c2_def, unfolded m w option.case prod.case]
  show ?thesis
  proof (cases "t_transferReadyCh (tr_of tr c2)")
    case None
    then show ?thesis unfolding eq using c2 by (cases e) auto
  next
    case (Some ch)
    then have "\<not> ch_closed ch" using mineD(4) [OF c2] by (simp add: ready_open_def)
    from try_send_open [OF this] obtain sent ch' where ch': "try_send \<lparr>ri_RemoteToken = treq_Token req, ri_FileSize = treq_FileSize req\<rparr> ch = Inr (sent, ch')" "\<not> ch_closed ch'"
      by blast
    from c2 up [OF ch'(2)] show ?thesis unfolding eq Some by (cases e) (simp_all add: ch'(1))
  qed
qed

text \<open>The four kinds of message that \<^verbatim>\<open>readPeerMessagesUntilReady\<close> looks at have different results, but each of them is one of three.\<close>

lemma ready_message_results:
  assumes "\<And>e. P (Inr (e, conn, c))"
    and "\<And>req. P (case accept_request tr req conn c of Inl panic \<Rightarrow> Inl panic | Inr (e, conn, c) \<Rightarrow> Inr (Some e, conn, c))"
    and "P (case report tr emitProgress c of Inl panic \<Rightarrow> Inl panic | Inr c \<Rightarrow> Inr (None, conn, c))"
  shows "P (ready_message expectedSize tr payload conn c)"
  unfolding ready_message_def Let_def using assms
  by (cases "DecodeTransferRequest payload"; cases "DecodePlaceInQueueResponse payload"; cases "DecodeUploadDenied payload";
      cases "DecodeUploadFailed payload") (simp_all split del: if_split split: if_splits option.splits)

lemma mine_emitProgress:
  assumes "mine token tr c"
  shows "\<exists>c'. report tr emitProgress c = Inr c' \<and> mine token tr c'"
proof -
  obtain t where t: "emitProgress (tr_of tr c) = Inr t" using mineD(3) [OF assms] report_ok by blast
  from mine_report [OF assms, of emitProgress, OF t] report_fields [OF mineD(3) [OF assms] t] show ?thesis by auto
qed

lemma ready_message_mine:
  assumes "mine token tr c"
  shows "\<exists>r conn' c'. ready_message expectedSize tr payload conn c = Inr (r, conn', c') \<and> mine token tr c'"
proof -
  have "\<exists>r conn' c'. (case accept_request tr req conn c of Inl panic \<Rightarrow> Inl panic | Inr (e, conn, c) \<Rightarrow> Inr (Some e, conn, c)) = Inr (r, conn', c') \<and> mine token tr c'"
    for req using accept_request_mine [OF assms, of req conn] by auto
  moreover obtain c1 where "report tr emitProgress c = Inr c1" "mine token tr c1" using mine_emitProgress [OF assms] by blast
  ultimately show ?thesis using assms
    by (intro ready_message_results [where P = "\<lambda>x. \<exists>r conn' c'. x = Inr (r, conn', c') \<and> mine token tr c'"]) simp_all
qed

lemma readPeerMessagesUntilReady_mine:
  assumes "mine token tr c"
  shows "\<exists>e conn' c'. readPeerMessagesUntilReady expectedSize tr conn c = Inr (e, conn', c') \<and> mine token tr c'"
  using assms
proof (induction "length (stream conn)" arbitrary: conn c rule: less_induct)
  case (less conn c)
  obtain x conn1 where rd: "ReadMessage conn = (x, conn1)" by fastforce
  show ?case
  proof (cases x)
    case (Inl e)
    then show ?thesis using rd less.prems by (subst readPeerMessagesUntilReady.simps) simp
  next
    case (Inr payload)
    from ready_message_mine [OF less.prems, of expectedSize payload conn1] obtain r conn2 c2 where
      m: "ready_message expectedSize tr payload conn1 c = Inr (r, conn2, c2)" "mine token tr c2" by blast
    show ?thesis
    proof (cases r)
      case (Some e)
      then show ?thesis using rd Inr m by (subst readPeerMessagesUntilReady.simps) simp
    next
      case None
      then have "conn2 = conn1" using ready_message_skip m(1) by simp
      then have "length (stream conn2) < length (stream conn)" using ReadMessage_shrinks rd Inr by simp
      from less.hyps [OF this m(2)] show ?thesis using rd Inr m(1) None by (subst readPeerMessagesUntilReady.simps) simp
    qed
  qed
qed


lemma mine_heap [simp]: "mine token tr (c\<lparr>cl_heap := hp\<rparr>) = mine token tr c" "mine token tr (set_conn h conn c) = mine token tr c"
  by (simp_all add: mine_def set_conn_def)

text \<open>
  The reading goroutine is the loop, if the rest of the client leaves it alone: a message is handled without a look at the
  connections of the client.
\<close>

lemma set_conn_simps [simp]:
  "cl_transfers (set_conn h k c) = cl_transfers c" "upd_tr tr f (set_conn h k c) = set_conn h k (upd_tr tr f c)"
  "set_conn h k' (set_conn h k c) = set_conn h k' c" "(set_conn h k c)\<lparr>cl_transfers := r\<rparr> = set_conn h k (c\<lparr>cl_transfers := r\<rparr>)"
  "h < length (cl_heap c) \<Longrightarrow> cl_heap (set_conn h k c) ! h = k" "length (cl_heap (set_conn h k c)) = length (cl_heap c)"
  by (simp_all add: set_conn_def upd_tr_def)

abbreviation on_client :: "(Client \<Rightarrow> Client) \<Rightarrow> go_panic + ('a \<times> Conn \<times> Client) \<Rightarrow> go_panic + ('a \<times> Conn \<times> Client)" where
  "on_client f \<equiv> map_sum id (map_prod id (map_prod id f))"

lemma report_set_conn: "report tr f (set_conn h k c) = map_sum id (set_conn h k) (report tr f c)"
  by (simp add: report_def split: sum.splits)

lemma accept_request_set_conn: "accept_request tr req conn (set_conn h k c) = on_client (set_conn h k) (accept_request tr req conn c)"
  by (simp add: accept_request_def Let_def split: option.splits prod.splits sum.splits)

lemma ready_message_set_conn:
  "ready_message expectedSize tr p conn (set_conn h k c) = on_client (set_conn h k) (ready_message expectedSize tr p conn c)"
proof -
  have 1: "(case on_client f x of Inl panic \<Rightarrow> Inl panic | Inr (e, conn, c) \<Rightarrow> Inr (Some e, conn, c)) =
      on_client f (case x of Inl panic \<Rightarrow> Inl panic | Inr (e, conn, c) \<Rightarrow> Inr (Some e, conn, c))" for f and x :: "go_panic + (go_error option \<times> Conn \<times> Client)"
    by (cases x) auto
  have 2: "(case map_sum id f x of Inl panic \<Rightarrow> Inl panic | Inr c \<Rightarrow> Inr (None, conn, c)) =
      on_client f (case x of Inl panic \<Rightarrow> Inl panic | Inr c \<Rightarrow> Inr (None, conn, c))" for f and x :: "go_panic + Client"
    by (cases x) auto
  show ?thesis
    by (cases "DecodeTransferRequest p"; cases "DecodePlaceInQueueResponse p"; cases "DecodeUploadDenied p"; cases "DecodeUploadFailed p")
      (simp_all add: ready_message_def Let_def accept_request_set_conn report_set_conn 1 2 split: option.splits)
qed

lemma accept_request_heap:
  assumes "accept_request tr req conn c = Inr (e, conn', c')"
  shows "cl_heap c' = cl_heap c"
proof -
  define c1 where "c1 = upd_tr tr (\<lambda>t. t\<lparr>t_RemoteToken := treq_Token req, t_Size := treq_FileSize req\<rparr>) c"
  define c2 where "c2 = c1\<lparr>cl_transfers := snd (SetRemoteToken (t_Token (tr_of tr c1)) (treq_Token req) (cl_transfers c1))\<rparr>"
  have "c' = c2 \<or> (\<exists>f. c' = upd_tr tr f c2)"
    using assms unfolding accept_request_def Let_def c1_def [symmetric] c2_def [symmetric]
    by (auto split: option.splits prod.splits sum.splits)
  then show ?thesis by (auto simp: c2_def c1_def)
qed

lemma ready_message_heap:
  assumes "ready_message expectedSize tr p conn c = Inr (r, conn', c')"
  shows "cl_heap c' = cl_heap c"
proof -
  let ?P = "\<lambda>x. case x of Inl panic \<Rightarrow> True | Inr (r, conn', c') \<Rightarrow> cl_heap c' = cl_heap c"
  have "?P (ready_message expectedSize tr p conn c)"
  proof (rule ready_message_results)
    show "?P (case accept_request tr req conn c of Inl panic \<Rightarrow> Inl panic | Inr (e, conn, c) \<Rightarrow> Inr (Some e, conn, c))" for req
      using accept_request_heap [of tr req conn c] by (cases "accept_request tr req conn c") auto
    show "?P (case report tr emitProgress c of Inl panic \<Rightarrow> Inl panic | Inr c \<Rightarrow> Inr (None, conn, c))"
      by (auto simp: report_def split: sum.splits)
  qed simp
  then show ?thesis using assms by simp
qed

lemma readPeerMessagesUntilReady_set_conn:
  "readPeerMessagesUntilReady expectedSize tr conn (set_conn h k c) =
     on_client (set_conn h k) (readPeerMessagesUntilReady expectedSize tr conn c)"
proof (induction "length (stream conn)" arbitrary: conn c rule: less_induct)
  case less
  obtain x conn1 where rd: "ReadMessage conn = (x, conn1)" by fastforce
  show ?case
  proof (cases "\<exists>payload c2. x = Inr payload \<and> ready_message expectedSize tr payload conn1 c = Inr (None, conn1, c2)")
    case True
    then obtain payload c2 where x: "x = Inr payload" and c2: "ready_message expectedSize tr payload conn1 c = Inr (None, conn1, c2)" by blast
    have "length (stream conn1) < length (stream conn)" using rd x ReadMessage_shrinks by simp
    from less [OF this, of c2] show ?thesis using rd x c2
      by (subst (1 2) readPeerMessagesUntilReady.simps) (simp add: ready_message_set_conn)
  next
    case False
    then show ?thesis using rd ready_message_skip [of expectedSize tr _ conn1 c]
      by (subst (1 2) readPeerMessagesUntilReady.simps)
        (auto simp: ready_message_set_conn split: sum.splits prod.splits option.splits)
  qed
qed

lemma read_on_sound:
  assumes "read_on (\<lambda>_ c. c) n expectedSize tr h c = Inr (Some e, c')" "h < length (cl_heap c)"
  shows "\<exists>conn c1. readPeerMessagesUntilReady expectedSize tr (cl_heap c ! h) c = Inr (e, conn, c1) \<and> c' = set_conn h conn c1"
  using assms
proof (induction n arbitrary: c)
  case (Suc n)
  obtain x conn where rd: "ReadMessage (cl_heap c ! h) = (x, conn)" by fastforce
  show ?case
  proof (cases "\<exists>payload c2. x = Inr payload \<and> ready_message expectedSize tr payload conn c = Inr (None, conn, c2)")
    case True
    then obtain payload c2 where x: "x = Inr payload" and c2: "ready_message expectedSize tr payload conn c = Inr (None, conn, c2)" by blast
    then have len: "length (cl_heap c2) = length (cl_heap c)" using ready_message_heap by metis
    from Suc.IH [of "set_conn h conn c2"] Suc.prems rd x c2 len
    obtain conn' c1 where "readPeerMessagesUntilReady expectedSize tr conn (set_conn h conn c2) = Inr (e, conn', c1)" "c' = set_conn h conn' c1"
      by auto
    then show ?thesis using rd x c2
      by (subst readPeerMessagesUntilReady.simps, cases "readPeerMessagesUntilReady expectedSize tr conn c2")
        (auto simp: readPeerMessagesUntilReady_set_conn)
  next
    case False
    then show ?thesis using rd Suc.prems ready_message_skip [of expectedSize tr _ conn c]
      by (subst readPeerMessagesUntilReady.simps) (auto split: sum.splits prod.splits option.splits)
  qed
qed simp

lemma read_on_mine:
  assumes "mine token tr c" "\<And>i c. mine token tr c \<Longrightarrow> mine token tr (others i c)"
  shows "\<exists>e c'. read_on others n expectedSize tr h c = Inr (e, c') \<and> mine token tr c'"
  using assms(1)
proof (induction n arbitrary: c)
  case (Suc n)
  obtain x conn where rd: "ReadMessage (cl_heap c ! h) = (x, conn)" by fastforce
  show ?case
  proof (cases x)
    case (Inl err)
    then show ?thesis using rd Suc.prems by simp
  next
    case (Inr payload)
    from ready_message_mine [OF Suc.prems, of expectedSize payload conn] obtain r conn' c1 where
      m: "ready_message expectedSize tr payload conn c = Inr (r, conn', c1)" "mine token tr c1" by blast
    then show ?thesis using rd Inr Suc.IH [of "others n (set_conn h conn' c1)"] assms(2) by (cases r) simp_all
  qed
qed simp

context data_sink
begin

lemma waitForQueuedTransfer_ends:
  assumes "mine token tr c" "fair_env token tr env" "env_write env = put"
    "x \<in> set (waitForQueuedTransfer env expectedSize tr addr h (c, sink))"
  shows "ends contents token tr sink x"
proof (cases "t_RemoteToken (tr_of tr c) \<noteq> 0")
  case True
  then show ?thesis using assms(4) waitForTransferConnection_ends [OF assms(1-3)] by (simp add: waitForQueuedTransfer_def)
next
  case False
  have "mine token tr (env_others env 2 c)" using assms(1,2) by (simp add: fair_env_def)
  then obtain e c' where r: "read_on (\<lambda>n. env_others env (4 + n)) (env_reader env 2) expectedSize tr h (env_others env 2 c) = Inr (e, c')"
    and c': "mine token tr c'" using read_on_mine [of token tr "env_others env 2 c" "\<lambda>n. env_others env (4 + n)"] assms(2)
    unfolding fair_env_def by metis
  from assms(4) False r consider err where "x = Inr (Some err, c', sink)"
    | d where "mine token tr d" "x \<in> set (waitForTransferConnection env tr addr (d, sink))"
    using c' mine_take_ready [OF c']
    by (cases "env_ctx env 2"; cases e; cases "the e"; cases "take_ready tr c'") (auto simp: waitForQueuedTransfer_def)
  then show ?thesis using c' waitForTransferConnection_ends [OF _ assms(2,3)] by cases (auto intro: ends_error)
qed

lemma handleTransferResponse_ends:
  assumes "mine token tr c" "fair_env token tr env" "env_write env = put"
    "x \<in> set (handleTransferResponse env expectedSize tr addr resp h (c, sink))"
  shows "ends contents token tr sink x"
proof -
  obtain c1 where c1: "enter_state (env_now env 3) (TransferStateQueued OR TransferStateRemotely) tr c = Inr c1" "mine token tr c1"
    using mine_enter_state [OF assms(1)] by blast
  have c2: "mine token tr (upd_tr tr (\<lambda>t. t\<lparr>t_Size := tresp_FileSize resp\<rparr>) c)"
    using mineD(3,4) [OF assms(1)] by (intro mine_upd [OF assms(1)]) simp_all
  from assms(4) consider err where "x = Inr (Some err, c, sink)"
    | "x \<in> set (performImmediateTransfer env tr addr (upd_tr tr (\<lambda>t. t\<lparr>t_Size := tresp_FileSize resp\<rparr>) c, sink))"
    | "x \<in> set (waitForQueuedTransfer env expectedSize tr addr h (c1, sink))"
    using c1(1) by (auto simp: handleTransferResponse_def split: if_splits option.splits)
  then show ?thesis using assms(1) c1(2) waitForQueuedTransfer_ends [OF _ assms(2,3)] performImmediateTransfer_ends [OF c2 assms(3)]
    by cases (auto intro: ends_error)
qed

end


lemma mine_send_checked: "mine token tr c \<Longrightarrow> send_checked m h c = (e, c') \<Longrightarrow> mine token tr c'"
  by (auto simp: send_checked_def Let_def split: option.splits dest: mine_with_conn)

lemma mine_waitForTransferResponse:
  assumes "mine token tr c" "(r, c') \<in> set (waitForTransferResponse ctx n tr h c)"
  shows "mine token tr c'"
proof -
  obtain x c1 where c1: "with_conn (read_response_on n (t_Token (tr_of tr c))) h c = (x, c1)" by fastforce
  note m = mine_with_conn [OF assms(1) c1]
  have "c' = c1 \<or> c' \<in> set (take_ready tr c1)"
    using assms(2) c1 by (cases ctx; cases x; cases "the x"; cases "take_ready tr c1") (auto simp: waitForTransferResponse_def Let_def)
  then show ?thesis using m mine_take_ready [OF m] by blast
qed

lemma Client_WriteMessage_transfers: "cl_transfers (snd (Client_WriteMessage data c)) = cl_transfers c"
  by (simp add: Client_WriteMessage_def split: option.splits prod.splits bool.splits)

lemma getPeerAddress_transfers:
  assumes "(r, c') \<in> set (getPeerAddress grow ctx payloads key u c)"
  shows "cl_transfers c' = cl_transfers c"
proof -
  let ?w = "buffer_of (GetPeerAddress_Encode \<lparr>gpa_Username = u\<rparr>)"
  obtain e c1 where c1: "Client_WriteMessage (w_sink ?w) c = (e, c1)" by fastforce
  then have "cl_transfers c1 = cl_transfers c" using Client_WriteMessage_transfers [of "w_sink ?w" c] by simp
  with assms show ?thesis unfolding getPeerAddress_def Let_def c1 by (auto split: option.splits prod.splits)
qed

context data_sink
begin

lemma run_connected_ends:
  assumes "mine token tr c" "fair_env token tr env" "env_write env = put"
    "x \<in> set (run_connected env expectedSize tr addr h (c, sink))"
  shows "ends contents token tr sink x"
proof -
  obtain e c1 where c1: "download_sendTransferRequest tr h c = (e, c1)" by fastforce
  then have m1: "mine token tr c1" using mine_send_checked [OF assms(1)] by (simp add: download_sendTransferRequest_def)
  then have "mine token tr (env_others env 1 c1)" using assms(2) by (simp add: fair_env_def)
  note m2 = mine_waitForTransferResponse [OF this]
  show ?thesis
  proof (cases e)
    case (Some err)
    then show ?thesis using assms(4) c1 m1 by (simp add: run_connected_def ends_error)
  next
    case None
    with assms(4) c1 obtain r c2 where r: "(r, c2) \<in> set (waitForTransferResponse (env_ctx env 1) (env_reader env 1) tr h (env_others env 1 c1))"
      "x \<in> set (case r of Inl err \<Rightarrow> [Inr (Some (WrapError ''wait for response'' err), c2, sink)]
              | Inr resp \<Rightarrow> handleTransferResponse env expectedSize tr addr resp h (c2, sink))"
      by (auto simp: run_connected_def)
    then show ?thesis using m2 [OF r(1)] handleTransferResponse_ends [OF _ assms(2,3)] by (cases r) (auto intro: ends_error)
  qed
qed

end

section \<open>How a download ends\<close>

text \<open>\<open>ended\<close>: the download is out of the registry, its progress channel is closed and its outcome is recorded.\<close>

definition ended :: "('w \<Rightarrow> byte list) \<Rightarrow> u32 \<Rightarrow> ref \<Rightarrow> 'w \<Rightarrow> go_panic + (Client \<times> 'w) \<Rightarrow> bool" where
  "ended contents token tr sink x \<longleftrightarrow> (\<exists>c' sink'. x = Inr (c', sink') \<and> reg_ok (cl_transfers c') \<and> GetByToken token (cl_transfers c') = None \<and>
     (let t = tr_of tr c' in ch_closed (t_progressCh t) \<and>
       ((\<exists>err. t_Error t = Some err \<and> t_state t = failed_state err) \<or>
        t_state t = TransferStateCompleted OR TransferStateSucceeded \<and> t_Transferred t = t_Size t \<and>
        length (contents sink') = length (contents sink) + nat (sint (t_Size t - t_StartOffset t)))))"

lemma Remove_closes:
  assumes "reg_ok r" "GetByToken t r = Some p"
  shows "\<exists>r'. Registry_Remove t r = Inr r' \<and> reg_ok r' \<and> GetByToken t r' = None \<and>
     (\<exists>ch. ch_closed ch \<and> ch_buf ch = ch_buf (t_progressCh (deref r p)) \<and> deref r' p = (deref r p)\<lparr>t_progressCh := ch\<rparr>)"
proof -
  from Remove_present [OF assms] obtain r' where r': "Registry_Remove t r = Inr r'" "reg_byToken r' = Delete t (reg_byToken r)" by blast
  have "\<exists>ch. ch_closed ch \<and> ch_buf ch = ch_buf (t_progressCh (deref r p)) \<and> deref r' p = (deref r p)\<lparr>t_progressCh := ch\<rparr>"
    using r'(1) reg_ok_tokenD [OF assms] assms(2)
    by (intro exI [of _ "(t_progressCh (deref r p))\<lparr>ch_closed := True\<rparr>"])
      (auto simp: Registry_Remove_def GetByToken_def Transfer_Close_def close_chan_def open_progress_def Let_def modify_def)
  moreover have "reg_ok r'" using reg_ok_Remove [OF assms(1) r'(1)] .
  ultimately show ?thesis using r' assms(1) by (auto simp: GetByToken_def reg_ok_def)
qed

lemma cleanup_ended:
  assumes "mine token tr c"
  shows "\<exists>c' ch. download_cleanup tr c = Inr c' \<and> reg_ok (cl_transfers c') \<and> GetByToken token (cl_transfers c') = None \<and>
     ch_closed ch \<and> ch_buf ch = ch_buf (t_progressCh (tr_of tr c)) \<and> tr_of tr c' = (tr_of tr c)\<lparr>t_progressCh := ch\<rparr>"
  using assms Remove_closes [of "cl_transfers c" token tr] mineD(2) [OF assms] by (auto simp: mine_def download_cleanup_def)

definition final_transfer :: "time \<Rightarrow> go_error option \<Rightarrow> Transfer \<Rightarrow> Transfer" where
  "final_transfer now e t = (case e of
       Some err \<Rightarrow> SetState now (failed_state err) (t\<lparr>t_Error := Some err\<rparr>)
     | None \<Rightarrow> SetState now (TransferStateCompleted OR TransferStateSucceeded) (t\<lparr>t_Transferred := t_Size t\<rparr>))"

lemma finish_reports:
  assumes "mine token tr c"
  shows "\<exists>c1. report tr (case e of Some err \<Rightarrow> download_fail now err | None \<Rightarrow> download_complete now) c = Inr c1 \<and> mine token tr c1 \<and>
     emitProgress (final_transfer now e (tr_of tr c)) = Inr (tr_of tr c1)"
proof -
  let ?f = "case e of Some err \<Rightarrow> download_fail now err | None \<Rightarrow> download_complete now"
  let ?t = "final_transfer now e (tr_of tr c)"
  have op: "open_progress ?t" and id: "identity ?t = identity (tr_of tr c)" and rd: "t_transferReadyCh ?t = t_transferReadyCh (tr_of tr c)"
    using mineD(3) [OF assms] by (cases e; simp add: final_transfer_def)+
  obtain t where t: "emitProgress ?t = Inr t" using report_ok [OF op] by blast
  have "?f (tr_of tr c) = Inr t" using t by (cases e) (simp_all add: download_fail_def download_complete_def final_transfer_def)
  from mine_report [OF assms, of ?f, OF this] report_fields [OF op t] id rd t show ?thesis by auto
qed

lemma finish_ended:
  assumes "mine token tr c"
    "e = None \<Longrightarrow> length (contents sink') = length (contents sink) + nat (sint (t_Size (tr_of tr c) - t_StartOffset (tr_of tr c)))"
  shows "ended contents token tr sink (finish_download now tr peerConn e (c, sink'))"
proof -
  let ?f = "case e of Some err \<Rightarrow> download_fail now err | None \<Rightarrow> download_complete now"
  from finish_reports [OF assms(1), of now e] obtain c1 where c1: "report tr ?f c = Inr c1" "mine token tr c1"
    and t: "emitProgress (final_transfer now e (tr_of tr c)) = Inr (tr_of tr c1)" by auto
  have "open_progress (final_transfer now e (tr_of tr c))"
    using mineD(3) [OF assms(1)] by (cases e) (simp_all add: final_transfer_def)
  note tf = report_fields [OF this t]
  let ?c2 = "case peerConn of None \<Rightarrow> c1 | Some h \<Rightarrow> close_conn h c1"
  have c2: "mine token tr ?c2" "tr_of tr ?c2 = tr_of tr c1" using c1 by (cases peerConn; simp)+
  from cleanup_ended [OF c2(1)] obtain c3 ch where c3: "download_cleanup tr ?c2 = Inr c3" "reg_ok (cl_transfers c3)"
    "GetByToken token (cl_transfers c3) = None" "ch_closed ch" "tr_of tr c3 = (tr_of tr c1)\<lparr>t_progressCh := ch\<rparr>" unfolding c2(2) by blast
  have "finish_download now tr peerConn e (c, sink') = Inr (c3, sink')" using c1(1) c3(1) by (simp add: finish_download_def)
  then show ?thesis using c3 tf assms(2) unfolding ended_def Let_def by (cases e) (auto simp: final_transfer_def)
qed

lemma finish_all_ended:
  assumes "\<And>y. y \<in> set ys \<Longrightarrow> ends contents token tr sink y" "x \<in> set (finish_all now tr peerConn ys)"
  shows "ended contents token tr sink x"
proof -
  from assms(2) obtain y where y: "y \<in> set ys" "x = (case y of Inl panic \<Rightarrow> Inl panic | Inr (e, s) \<Rightarrow> finish_download now tr peerConn e s)"
    by (auto simp: finish_all_def)
  from assms(1) [OF y(1)] obtain e c' sink' where e: "y = Inr (e, c', sink')" "mine token tr c'"
    "e = None \<longrightarrow> length (contents sink') = length (contents sink) + nat (sint (t_Size (tr_of tr c') - t_StartOffset (tr_of tr c')))"
    by (auto simp: ends_def)
  show ?thesis unfolding y(2) e(1) sum.case prod.case using e(2,3) by (intro finish_ended) blast+
qed

lemma download_run_cases:
  assumes "mine token tr c" "fair_env token tr env" "x \<in> set (download_run env expectedSize tr (c, sink))"
  obtains d e where "mine token tr d" "x \<in> set (finish_all (env_now env 5) tr None [Inr (Some e, d, sink)])"
    | d addr h where "mine token tr d" "x \<in> set (finish_all (env_now env 5) tr (Some h) (run_connected env expectedSize tr addr h (d, sink)))"
proof -
  obtain c1 where c1: "enter_state (env_now env 0) (TransferStateQueued OR TransferStateLocally) tr c = Inr c1" "mine token tr c1"
    using mine_enter_state [OF assms(1)] by blast
  have m: "mine token tr (env_others env 0 c1)" using c1(2) assms(2) by (simp add: fair_env_def)
  from assms(3) c1(1) obtain r c2 where
    r: "(r, c2) \<in> set (getPeerAddress (env_grow env) (env_ctx env 0) (env_payloads env) 0 (t_Username (tr_of tr c1)) (env_others env 0 c1))"
    and x: "x \<in> set (case r of
        Inl err \<Rightarrow> finish_all (env_now env 5) tr None [Inr (Some (WrapError ''get peer address'' err), c2, sink)]
      | Inr peerAddr \<Rightarrow>
          (case enter_state (env_now env 1) TransferStateRequested tr c2 of
             Inl panic \<Rightarrow> [Inl panic]
           | Inr c \<Rightarrow>
               concat (map (\<lambda>(r, c). case r of
                   Inl err \<Rightarrow> finish_all (env_now env 5) tr None [Inr (Some (WrapError ''connect to peer'' err), c, sink)]
                 | Inr h \<Rightarrow> finish_all (env_now env 5) tr (Some h) (run_connected env expectedSize tr peerAddr h (c, sink)))
                 (env_connect env (t_Username (tr_of tr c)) peerAddr c))))"
    by (auto simp: download_run_def)
  have c2: "mine token tr c2" using m mine_cong [OF getPeerAddress_transfers [OF r]] by blast
  show thesis
  proof (cases r)
    case (Inl err)
    then show thesis using that(1) [OF c2] x by auto
  next
    case (Inr addr)
    obtain c3 where c3: "enter_state (env_now env 1) TransferStateRequested tr c2 = Inr c3" "mine token tr c3"
      using mine_enter_state [OF c2] by blast
    with x Inr obtain r' c4 where c4: "(r', c4) \<in> set (env_connect env (t_Username (tr_of tr c3)) addr c3)"
      and x': "x \<in> set (case r' of
           Inl err \<Rightarrow> finish_all (env_now env 5) tr None [Inr (Some (WrapError ''connect to peer'' err), c4, sink)]
         | Inr h \<Rightarrow> finish_all (env_now env 5) tr (Some h) (run_connected env expectedSize tr addr h (c4, sink)))" by auto
    have "mine token tr c4" using c4 c3(2) assms(2) unfolding fair_env_def by blast
    with x' that show thesis by (cases r') auto
  qed
qed

text \<open>
  Every download ends cleanly. Whatever the server, the peer, the destination and the other goroutines do (they keep the
  registry consistent and the download registered), no run of the orchestrator panics, and when it is over the download has \<open>ended\<close>.
\<close>

lemma download_ends:
  assumes "\<And>data w w'. env_write env data w = (None, w') \<Longrightarrow> contents w' = contents w @ data"
    and "mine token tr c" "fair_env token tr env" "x \<in> set (download_run env expectedSize tr (c, sink))"
  shows "ended contents token tr sink x"
proof -
  have sink: "data_sink (env_write env) contents" using assms(1) by unfold_locales
  show ?thesis using assms(2-4)
  proof (cases rule: download_run_cases)
    case (1 d e)
    show ?thesis by (rule finish_all_ended [OF _ 1(2)]) (simp add: ends_error 1(1))
  next
    case (2 d addr h)
    show ?thesis using data_sink.run_connected_ends [OF sink 2(1) assms(3) refl] by (rule finish_all_ended [OF _ 2(2)])
  qed
qed

text \<open>A download that was started is registered under its token.\<close>

lemma Download_mine:
  assumes "reg_ok (cl_transfers c)" "Download u f w opts c = (Inr tr, c')"
  shows "mine (cl_transferToken c + 1) tr c'"
proof -
  let ?token = "cl_transferToken c + 1"
  let ?cfg = "fold apply_option opts \<lparr>dc_startOffset = 0, dc_expectedSize = 0\<rparr>"
  let ?init = "\<lambda>t. (InitDownloadChannels (t\<lparr>t_StartOffset := dc_startOffset ?cfg\<rparr>))\<lparr>t_writer := Some w\<rparr>"
  obtain x r where r: "register TransferDownload u f ?token 0 (cl_transfers c) = (x, r)" by fastforce
  with assms(2) have x: "x = Inr tr" and c': "cl_transfers c' = modify tr ?init r"
    by (auto simp: Download_def Let_def RegisterDownload_def upd_tr_def start_goroutine_def split: if_splits sum.splits)
  have free: "GetByFile u f TransferDownload (cl_transfers c) = None" "GetByToken ?token (cl_transfers c) = None"
    using r x register_duplicate [OF assms(1), of u f TransferDownload ?token 0] by (auto simp del: not_None_eq)
  have ok: "reg_ok r" using reg_ok_register [OF assms(1), of TransferDownload u f ?token 0] r by simp
  have p: "GetByToken ?token r = Some tr" using r x register_fresh [OF free, of 0] assms(1) by (auto simp: GetByToken_def reg_ok_def)
  have "benign ?init" by (simp add: benign_def InitDownloadChannels_def identity_def open_progress_def)
  from reg_ok_modify [OF ok this] have "reg_ok (cl_transfers c')" unfolding c' .
  moreover have "deref (modify tr ?init r) tr = ?init (deref r tr)" using reg_ok_tokenD(1) [OF ok p] by (simp add: deref_modify)
  then have "ready_open (tr_of tr c')" unfolding c' by (simp add: ready_open_def InitDownloadChannels_def make_chan_def)
  ultimately show ?thesis using p unfolding mine_def c' by (simp add: GetByToken_def)
qed

text \<open>A download whose context is cancelled before the server has told the peer's address.\<close>

definition cancelled_env :: "byte list download_env" where
  "cancelled_env = \<lparr>env_now = (\<lambda>_. 7), env_ctx = (\<lambda>_. Some Canceled), env_data_ctx = (\<lambda>_. None), env_data_now = (\<lambda>_. 7), env_grow = id,
     env_payloads = [], env_connect = (\<lambda>_ _ c. []), env_others = (\<lambda>_ c. c), env_reader = (\<lambda>_. 0),
     env_dial = (\<lambda>_. Inl EOF), env_write = (\<lambda>d w. (None, w @ d))\<rparr>"

definition online_client :: Client where
  "online_client = (New None)\<lparr>cl_loggedIn := True, cl_connected := True, cl_conn := Some (NewConn [] EOF)\<rparr>"

lemma online_download: "mine 1 0 (snd (Download ''bob'' ''a.mp3'' 0 [] online_client))"
proof -
  have "fst (Download ''bob'' ''a.mp3'' 0 [] online_client) = Inr 0" by code_simp
  then have D: "Download ''bob'' ''a.mp3'' 0 [] online_client = (Inr 0, snd (Download ''bob'' ''a.mp3'' 0 [] online_client))"
    by (metis prod.collapse)
  have "reg_ok (cl_transfers online_client)" "cl_transferToken online_client = 0"
    by (simp_all add: online_client_def reg_ok_new New_defs)
  with Download_mine [OF this(1) D] show ?thesis by simp
qed

section \<open>The connection cache after a download\<close>

lemma send_checked_closed:
  assumes "cl_heap c ! h = Conn_Close k"
  shows "fst (send_checked m h c) \<noteq> None"
  using assms WriteMessage_closed by (simp add: send_checked_def with_conn_def Let_def split: option.splits prod.splits) (metis fst_conv)

text \<open>
  C20: A finished download leaves a dead connection behind. The orchestrator takes the peer's message connection from the cache of
  \<^verbatim>\<open>peerConnManager\<close> and closes it when it returns, with or without an error, but the cache keeps it. So the next caller that
  asks for a connection to this peer is given the closed one, and every further download from the peer on it ends with an error
  of its first write, without anything being sent.
\<close>

theorem closed_connection_stays_cached:
  fixes sink :: 'w
  assumes "mine token tr c" "GetCached username c = Some h" "h < length (cl_heap c)"
  shows "\<exists>c'. finish_download now tr (Some h) e (c, sink) = Inr (c', sink) \<and> getOrCreate_begin username c' = (Cached h, c') \<and>
     c_closed (cl_heap c' ! h) \<and>
     (\<forall>env expectedSize tr' addr (sink' :: 'w). \<exists>err c''. run_connected env expectedSize tr' addr h (c', sink') =
        [Inr (Some (WrapError ''send transfer request'' err), c'', sink')])"
proof -
  let ?f = "case e of Some err \<Rightarrow> download_fail now err | None \<Rightarrow> download_complete now"
  from finish_reports [OF assms(1), of now e] obtain c1 where
    c1: "report tr ?f c = Inr c1" "mine token tr c1" by auto
  then have same: "cl_heap c1 = cl_heap c" "cl_peerConnMgr c1 = cl_peerConnMgr c"
    by (auto simp: report_def upd_tr_def split: sum.splits)
  from cleanup_ended [of token tr "close_conn h c1"] c1(2) obtain c3 where c3: "download_cleanup tr (close_conn h c1) = Inr c3" by auto
  then have heap: "cl_heap c3 = (cl_heap c)[h := Conn_Close (cl_heap c ! h)]" and cache: "cl_peerConnMgr c3 = cl_peerConnMgr c"
    using same by (auto simp: download_cleanup_def close_conn_def with_conn_def split: sum.splits)
  have "getOrCreate_begin username c3 = (Cached h, c3)" using assms(2) cache by (simp add: getOrCreate_begin_def GetCached_def Let_def)
  moreover have dead: "cl_heap c3 ! h = Conn_Close (cl_heap c ! h)" using heap assms(3) by simp
  moreover have "\<exists>err c''. run_connected env expectedSize tr' addr h (c3, sink') = [Inr (Some (WrapError ''send transfer request'' err), c'', sink')]"
    for env expectedSize tr' addr and sink' :: 'w
  proof -
    obtain err c'' where "download_sendTransferRequest tr' h c3 = (Some err, c'')"
      using send_checked_closed [OF dead] unfolding download_sendTransferRequest_def by (metis prod.collapse option.exhaust_sel)
    then show ?thesis by (simp add: run_connected_def)
  qed
  ultimately show ?thesis using c1(1) c3 by (simp add: finish_download_def Conn_Close_def)
qed


theorem closed_connection_stays_cached_witness:
  "let c = (snd (Download ''bob'' ''a.mp3'' 0 [] online_client))\<lparr>cl_heap := [NewConn [] EOF],
       cl_peerConnMgr := newPeerConnManager\<lparr>pm_conns := [(''bob'', 0)]\<rparr>\<rparr>
   in \<exists>c'. finish_download 9 0 (Some 0) None (c, []) = Inr (c', [] :: byte list) \<and> getOrCreate_begin ''bob'' c' = (Cached 0, c') \<and>
        c_closed (cl_heap c' ! 0)"
proof -
  let ?d = "snd (Download ''bob'' ''a.mp3'' 0 [] online_client)"
  let ?c = "?d\<lparr>cl_heap := [NewConn [] EOF], cl_peerConnMgr := newPeerConnManager\<lparr>pm_conns := [(''bob'', 0)]\<rparr>\<rparr>"
  have "mine 1 0 ?c" using online_download by (simp add: mine_def)
  moreover have "GetCached ''bob'' ?c = Some 0" "0 < length (cl_heap ?c)" by (simp_all add: GetCached_def)
  ultimately show ?thesis using closed_connection_stays_cached [of 1 0 ?c "''bob''" 0 9 None "[] :: byte list"] by (auto simp: Let_def)
qed

end
