(* ===== verification/PeerLoop.thy ===== *)
theory PeerLoop
  imports Downloads Uploads
begin

text \<open>
  The loop that serves a peer's message connection, \<^verbatim>\<open>handleIncomingPeerMessages\<close> of \<^verbatim>\<open>src/client/client.go\<close>, over the
  handlers of the theories \<^theory_text>\<open>Searches\<close>, \<^theory_text>\<open>Uploads\<close> and \<^theory_text>\<open>Downloads\<close>. The deadline of each read is
  part of the connection: its expiry is the error the connection ends with. The theory shows that no sequence of messages
  makes a handler panic and that a peer reaches only transfers with itself.
\<close>

section \<open>Definitions\<close>

definition handleSearchResponse :: "(byte list \<Rightarrow> go_error + byte list) \<Rightarrow> byte list \<Rightarrow> Client \<Rightarrow> go_panic + Client" where
  "handleSearchResponse decompress payload c =
     (case DecodeSearchResponse decompress payload of
        Inl err \<Rightarrow> Inr c
      | Inr resp \<Rightarrow>
          (case deliver resp (cl_searches c) of
             Inl panic \<Rightarrow> Inl panic
           | Inr (delivered, r) \<Rightarrow> Inr (c\<lparr>cl_searches := r\<rparr>)))"

text \<open>The body of the loop for one message.\<close>

definition peer_message ::
  "(byte list \<Rightarrow> go_error + byte list) \<Rightarrow> time \<Rightarrow> byte list \<Rightarrow> string \<Rightarrow> handle \<Rightarrow> Client \<Rightarrow> go_panic + Client" where
  "peer_message decompress now payload username h c =
     (if length payload < 4 then Inr c
      else
        let code = (from_le (take 4 payload) :: u32)
        in if code = PeerSearchResponse then handleSearchResponse decompress payload c
           else if code = PeerTransferRequest then handleTransferRequest payload username (Some h) c
           else if code = PeerTransferResponse then Inr c
           else if code = PeerPlaceInQueueResponse then handlePlaceInQueueResponse payload username c
           else if code = PeerUploadDenied then handleUploadDenied now payload username c
           else if code = PeerUploadFailed then handleUploadFailed now payload username c
           else if code = PeerQueueDownload then Inr (handleQueueDownload now payload username h c)
           else if code = PeerPlaceInQueueRequest then Inr (handlePlaceInQueueRequest payload username h c)
           else Inr c)"

text \<open>\<open>None\<close>: the loop does not return. The \<open>i\<close>-th message is handled at time \<open>now i\<close>.\<close>

partial_function (option) handleIncomingPeerMessages ::
  "(byte list \<Rightarrow> go_error + byte list) \<Rightarrow> (nat \<Rightarrow> time) \<Rightarrow> nat \<Rightarrow> handle \<Rightarrow> string \<Rightarrow> Client \<Rightarrow> (go_panic + Client) option" where
  "handleIncomingPeerMessages decompress now i h username c =
     (case with_conn ReadMessage h c of
        (Inl err, c) \<Rightarrow> Some (Inr c)
      | (Inr payload, c) \<Rightarrow>
          (case peer_message decompress (now i) payload username h c of
             Inl panic \<Rightarrow> Some (Inl panic)
           | Inr c \<Rightarrow> handleIncomingPeerMessages decompress now (i + 1) h username c))"

section \<open>Invariant\<close>

text \<open>The registry is consistent, nobody has closed a channel a handler sends on, and the searches are live.\<close>

definition client_ok :: "Client \<Rightarrow> bool" where
  "client_ok c \<longleftrightarrow> reg_ok (cl_transfers c) \<and> (\<forall>t \<in> set (reg_heap (cl_transfers c)). ready_open t) \<and> search_ok (cl_searches c)"

lemma client_ok_New: "client_ok (New opts)"
  using reg_ok_new by (simp add: client_ok_def search_ok_def newSearchRegistry_def) (simp add: NewTransferRegistry_def)

text \<open>User names without the separator of the registry's keys.\<close>

definition plain_name :: "string \<Rightarrow> bool" where
  "plain_name u \<longleftrightarrow> CHR '':'' \<notin> set u"

definition names_ok :: "Client \<Rightarrow> bool" where
  "names_ok c \<longleftrightarrow> (\<forall>t \<in> set (reg_heap (cl_transfers c)). plain_name (t_Username t))"

text \<open>
  What serving one message of user \<open>u\<close> may do to the client: the invariant holds again, what other connections and this one
  still have to deliver is untouched, and so are the transfers with other users.
\<close>

definition serves :: "string \<Rightarrow> Client \<Rightarrow> Client \<Rightarrow> bool" where
  "serves u c c' \<longleftrightarrow> client_ok c' \<and> length (cl_heap c') = length (cl_heap c) \<and> (\<forall>h. c_in (cl_heap c' ! h) = c_in (cl_heap c ! h)) \<and>
     length (reg_heap (cl_transfers c)) \<le> length (reg_heap (cl_transfers c')) \<and>
     (plain_name u \<and> names_ok c \<longrightarrow> names_ok c' \<and>
        (\<forall>p < length (reg_heap (cl_transfers c)). t_Username (tr_of p c) \<noteq> u \<longrightarrow> tr_of p c' = tr_of p c))"

lemma serves_refl [simp]: "serves u c c \<longleftrightarrow> client_ok c"
  by (auto simp: serves_def)

lemma flush_c_in: "bufio_flush buf k = (e, k') \<Longrightarrow> c_in k' = c_in k"
  by (auto simp: bufio_flush_def socket_Write_def split: option.splits if_splits)

lemma bufio_Write_c_in: "bufio_Write p buf k = (e, rest, k') \<Longrightarrow> c_in k' = c_in k"
  by (auto simp: bufio_Write_def Let_def split: option.splits if_splits prod.splits dest!: flush_c_in)

lemma WriteMessage_c_in: "WriteMessage p k = (e, k') \<Longrightarrow> c_in k' = c_in k"
  by (auto simp: WriteMessage_def split: option.splits prod.splits dest!: flush_c_in bufio_Write_c_in)

lemma serves_transfers:
  assumes "serves u c c'" "cl_transfers c'' = cl_transfers c'" "cl_searches c'' = cl_searches c'" "length (cl_heap c'') = length (cl_heap c')"
    "\<And>h. c_in (cl_heap c'' ! h) = c_in (cl_heap c' ! h)"
  shows "serves u c c''"
  using assms by (simp add: serves_def client_ok_def names_ok_def)

lemma serves_with_conn:
  assumes "serves u c c'" "with_conn (WriteMessage p) h c' = (e, c'')"
  shows "serves u c c''"
proof -
  obtain k where k: "WriteMessage p (cl_heap c' ! h) = (e, k)" "c'' = c'\<lparr>cl_heap := (cl_heap c')[h := k]\<rparr>"
    using assms(2) by (auto simp: with_conn_def split: prod.splits)
  then have "c_in (cl_heap c'' ! i) = c_in (cl_heap c' ! i)" for i using WriteMessage_c_in [OF k(1)]
    by (cases "h < length (cl_heap c')") (auto simp: nth_list_update list_update_beyond)
  with k(2) show ?thesis by (intro serves_transfers [OF assms(1)]) simp_all
qed

lemma serves_send_checked: "serves u c c' \<Longrightarrow> serves u c (snd (send_checked m h c'))"
  unfolding send_checked_def Let_def by (auto split: option.splits intro: serves_with_conn [OF _ prod.collapse [symmetric]])

lemma serves_send_best_effort: "serves u c c' \<Longrightarrow> serves u c (send_best_effort m h c')"
  unfolding send_best_effort_def Let_def by (auto intro: serves_with_conn [OF _ prod.collapse [symmetric]])


section \<open>Every handler\<close>

text \<open>The transfer a handler finds under the sender's name.\<close>

lemma found:
  assumes "client_ok c" "GetByFile u f d (cl_transfers c) = Some tr"
  shows "mine (t_Token (tr_of tr c)) tr c" "plain_name u \<Longrightarrow> names_ok c \<Longrightarrow> t_Username (tr_of tr c) = u"
proof -
  have k: "Load (fileKey d u f) (reg_byFileKey (cl_transfers c)) = Some tr" and ok: "reg_ok (cl_transfers c)"
    using assms by (simp_all add: GetByFile_def client_ok_def)
  note entry = reg_ok_fileD [OF ok k]
  then have "tr_of tr c \<in> set (reg_heap (cl_transfers c))" by simp
  then show "mine (t_Token (tr_of tr c)) tr c" "plain_name u \<Longrightarrow> names_ok c \<Longrightarrow> t_Username (tr_of tr c) = u"
    using assms(1) ok entry fileKey_inj by (auto simp: mine_def client_ok_def names_ok_def plain_name_def fileKey_FileKey)
qed

lemma serves_upd:
  assumes "client_ok c" "GetByFile u f d (cl_transfers c) = Some tr" "identity t = identity (tr_of tr c)" "open_progress t" "ready_open t"
  shows "serves u c (upd_tr tr (\<lambda>_. t) c)"
proof -
  let ?c = "upd_tr tr (\<lambda>_. t) c"
  note m = found [OF assms(1,2)]
  have "mine (t_Token (tr_of tr c)) tr ?c" using m(1) assms(3-5) by (intro mine_upd) simp_all
  then have "reg_ok (cl_transfers ?c)" by (simp add: mine_def)
  moreover have heap: "reg_heap (cl_transfers ?c) = (reg_heap (cl_transfers c))[tr := t]" by (simp add: upd_tr_def modify_def)
  then have "\<forall>x \<in> set (reg_heap (cl_transfers ?c)). ready_open x"
    using assms(1,5) by (auto simp: client_ok_def dest!: subsetD [OF set_update_subset_insert])
  ultimately have "client_ok ?c" using assms(1) by (simp add: client_ok_def upd_tr_def)
  moreover have "names_ok ?c" if "plain_name u" "names_ok c"
    using that m(2) [OF that] assms(3) unfolding names_ok_def heap
    by (auto simp: identity_def dest!: subsetD [OF set_update_subset_insert])
  moreover have "tr_of p ?c = tr_of p c" if "plain_name u" "names_ok c" "t_Username (tr_of p c) \<noteq> u" for p
    using that(3) m(2) [OF that(1,2)] unfolding heap by (cases "p = tr") simp_all
  ultimately show ?thesis using heap by (auto simp: serves_def)
qed

lemma serves_report:
  assumes "client_ok c" "GetByFile u f d (cl_transfers c) = Some tr" "identity (g (tr_of tr c)) = identity (tr_of tr c)"
    "open_progress (g (tr_of tr c))" "ready_open (g (tr_of tr c))"
  shows "\<exists>c'. report tr (\<lambda>t. emitProgress (g t)) c = Inr c' \<and> serves u c c'"
proof -
  obtain t where t: "emitProgress (g (tr_of tr c)) = Inr t" using report_ok [OF assms(4)] by blast
  note tf = report_fields [OF assms(4) t]
  have "serves u c (upd_tr tr (\<lambda>_. t) c)"
    using tf assms(3,5) ready_open_same [OF tf(10)] by (intro serves_upd [OF assms(1,2)]) simp_all
  then show ?thesis using t by (simp add: report_def)
qed

lemma identity_queuePosition [simp]: "identity (t\<lparr>t_queuePosition := n\<rparr>) = identity t"
  "open_progress (t\<lparr>t_queuePosition := n\<rparr>) = open_progress t" "ready_open (t\<lparr>t_queuePosition := n\<rparr>) = ready_open t"
  by (simp_all add: identity_def open_progress_def ready_open_def)

lemma found_open:
  assumes "client_ok c" "GetByFile u f d (cl_transfers c) = Some tr"
  shows "open_progress (tr_of tr c)" "ready_open (tr_of tr c)"
  using mineD(3,4) [OF found(1) [OF assms]] by simp_all

lemma handlePlaceInQueueResponse_serves:
  assumes "client_ok c"
  shows "\<exists>c'. handlePlaceInQueueResponse payload u c = Inr c' \<and> serves u c c'"
  unfolding handlePlaceInQueueResponse_def found_defs using assms found_open [OF assms]
  by (auto split: sum.splits option.splits intro!: serves_report)

lemma handleUploadDenied_serves:
  assumes "client_ok c"
  shows "\<exists>c'. handleUploadDenied now payload u c = Inr c' \<and> serves u c c'"
  unfolding handleUploadDenied_def found_defs using assms found_open [OF assms] by (auto split: sum.splits option.splits intro!: serves_report)

lemma handleUploadFailed_serves:
  assumes "client_ok c"
  shows "\<exists>c'. handleUploadFailed now payload u c = Inr c' \<and> serves u c c'"
  unfolding handleUploadFailed_def found_defs using assms found_open [OF assms] by (auto split: sum.splits option.splits intro!: serves_report)


lemma serves_trans [trans]:
  assumes "serves u c c'" "serves u c' c''"
  shows "serves u c c''"
proof -
  have "tr_of p c'' = tr_of p c" if "plain_name u" "names_ok c" "p < length (reg_heap (cl_transfers c))" "t_Username (tr_of p c) \<noteq> u" for p
  proof -
    have "names_ok c'" "tr_of p c' = tr_of p c" "p < length (reg_heap (cl_transfers c'))" using assms(1) that by (simp_all add: serves_def)
    with assms(2) that show ?thesis by (simp add: serves_def)
  qed
  with assms show ?thesis by (simp add: serves_def)
qed

lemma serves_client_ok: "serves u c c' \<Longrightarrow> client_ok c'"
  by (simp add: serves_def)

lemma send_checked_transfers: "cl_transfers (snd (send_checked m h c)) = cl_transfers c"
  by (simp add: send_checked_def with_conn_def Let_def split: option.splits prod.splits)

lemma handleTransferRequest_serves:
  assumes "client_ok c"
  shows "\<exists>c'. handleTransferRequest payload u (Some h) c = Inr c' \<and> serves u c c'"
proof (cases "\<exists>req tr. DecodeTransferRequest payload = Inr req \<and> treq_Direction req = TransferUpload \<and>
    GetByFile u (treq_Filename req) TransferDownload (cl_transfers c) = Some tr")
  case False
  then show ?thesis using assms unfolding handleTransferRequest_def by (auto split: sum.splits option.splits)
next
  case True
  then obtain req tr where req: "DecodeTransferRequest payload = Inr req" "treq_Direction req = TransferUpload"
    "GetByFile u (treq_Filename req) TransferDownload (cl_transfers c) = Some tr" by blast
  define c1 where "c1 = snd (send_checked (TransferResponse_Encode
      \<lparr>tresp_Token = treq_Token req, tresp_Allowed = True, tresp_FileSize = treq_FileSize req, tresp_Reason = []\<rparr>) h c)"
  have c1: "serves u c c1" "cl_transfers c1 = cl_transfers c"
    unfolding c1_def using assms by (simp_all add: serves_send_checked send_checked_transfers)
  have ok: "client_ok c1" and g: "GetByFile u (treq_Filename req) TransferDownload (cl_transfers c1) = Some tr"
    using c1 req(3) serves_client_ok by auto
  note eq = handleTransferRequest_def [of payload u "Some h" c, unfolded req(1) sum.case, unfolded req(2,3) option.case Let_def c1_def [symmetric]]
  show ?thesis
  proof (cases "t_transferReadyCh (tr_of tr c1)")
    case None
    then show ?thesis using c1(1) by (simp add: eq)
  next
    case (Some ch)
    then have "\<not> ch_closed ch" using found_open(2) [OF ok g] by (simp add: ready_open_def)
    from try_send_open [OF this] obtain sent ch' where
      ch': "try_send \<lparr>ri_RemoteToken = treq_Token req, ri_FileSize = treq_FileSize req\<rparr> ch = Inr (sent, ch')" "\<not> ch_closed ch'" by blast
    have "upd_tr tr (\<lambda>t. t\<lparr>t_transferReadyCh := Some ch'\<rparr>) c1 = upd_tr tr (\<lambda>_. (tr_of tr c1)\<lparr>t_transferReadyCh := Some ch'\<rparr>) c1"
      by (simp add: upd_tr_def modify_def)
    moreover have "serves u c1 \<dots>" using found_open [OF ok g] ch'(2) by (intro serves_upd [OF ok g]) simp_all
    ultimately show ?thesis using serves_trans [OF c1(1)] ch'(1) Some by (simp add: eq)
  qed
qed

lemma handleSearchResponse_serves:
  assumes "client_ok c"
  shows "\<exists>c'. handleSearchResponse decompress payload c = Inr c' \<and> serves u c c'"
proof -
  have keep: "serves u c (c\<lparr>cl_searches := r\<rparr>)" if "search_ok r" for r
    using assms that by (simp add: serves_def client_ok_def names_ok_def)
  have "\<exists>b r. deliver resp (cl_searches c) = Inr (b, r) \<and> search_ok r" for resp
  proof (cases "search_get (sr_Token resp) (cl_searches c)")
    case None
    then show ?thesis using assms by (auto simp: deliver_def client_ok_def)
  next
    case (Some p)
    then show ?thesis using search_send_open [OF _ Some refl] assms by (fastforce simp: deliver_def client_ok_def)
  qed
  then have "\<exists>b r. deliver resp (cl_searches c) = Inr (b, r) \<and> serves u c (c\<lparr>cl_searches := r\<rparr>)" for resp using keep by blast
  note delivered = this
  show ?thesis
  proof (cases "DecodeSearchResponse decompress payload")
    case (Inl err)
    then show ?thesis using assms by (simp add: handleSearchResponse_def)
  next
    case (Inr resp)
    with delivered [of resp] show ?thesis by (auto simp: handleSearchResponse_def)
  qed
qed

lemma serves_register:
  assumes "client_ok c" "cl_transfers c' = snd (register d u f t sz (cl_transfers c))" "cl_searches c' = cl_searches c" "cl_heap c' = cl_heap c"
  shows "serves u c c'"
proof (cases "GetByFile u f d (cl_transfers c) \<noteq> None \<or> GetByToken t (cl_transfers c) \<noteq> None")
  case True
  then have "cl_transfers c' = cl_transfers c" using assms(1,2) register_duplicate [of "cl_transfers c" u f d t sz] by (simp add: client_ok_def)
  then show ?thesis using assms(1,3,4) by (simp add: serves_def client_ok_def names_ok_def)
next
  case False
  then have heap: "reg_heap (cl_transfers c') = reg_heap (cl_transfers c) @ [(NewTransfer d u f t)\<lparr>t_Size := sz\<rparr>]"
    using assms(2) register_fresh [of u f d "cl_transfers c" t sz] by simp
  have "reg_ok (cl_transfers c')" using assms(1,2) reg_ok_register by (simp add: client_ok_def)
  moreover have "ready_open ((NewTransfer d u f t)\<lparr>t_Size := sz\<rparr>)" "t_Username ((NewTransfer d u f t)\<lparr>t_Size := sz\<rparr>) = u"
    by (simp_all add: NewTransfer_def ready_open_def)
  ultimately show ?thesis using assms(1,3,4) heap by (simp add: serves_def client_ok_def names_ok_def nth_append)
qed

lemma handleQueueDownload_serves:
  assumes "client_ok c"
  shows "serves u c (handleQueueDownload now payload u h c)"
proof -
  let ?t = "cl_transferToken c + 1"
  have reg: "serves u c (c\<lparr>cl_transferToken := ?t, cl_transfers := r, cl_queueMgr := q\<rparr>)" "serves u c (c\<lparr>cl_transferToken := ?t, cl_transfers := r\<rparr>)"
    if "register TransferUpload u f ?t sz (cl_transfers c) = (x, r)" for f sz x r q
    using that by (intro serves_register [OF assms, where d = TransferUpload and f = f and t = ?t and sz = sz]; simp)+
  show ?thesis unfolding handleQueueDownload_def sendUploadDenied_def sendPlaceInQueueResponse_def RegisterUpload_def Let_def using assms reg
    by (auto split: sum.splits option.splits prod.splits intro!: serves_send_best_effort)
qed

lemma handlePlaceInQueueRequest_serves:
  assumes "client_ok c"
  shows "serves u c (handlePlaceInQueueRequest payload u h c)"
  unfolding handlePlaceInQueueRequest_def using assms by (auto split: sum.splits intro!: serves_send_best_effort)


lemmas handlers_serve = handleSearchResponse_serves handleTransferRequest_serves handlePlaceInQueueResponse_serves
  handleUploadDenied_serves handleUploadFailed_serves handleQueueDownload_serves handlePlaceInQueueRequest_serves

lemma peer_message_serves:
  assumes "client_ok c"
  shows "\<exists>c'. peer_message decompress now payload u h c = Inr c' \<and> serves u c c'"
proof -
  define served_by where "served_by x \<longleftrightarrow> (\<exists>c'. x = Inr c' \<and> serves u c c')" for x :: "go_panic + Client"
  have "served_by (Inr c')" if "serves u c c'" for c' using that by (simp add: served_by_def)
  moreover note handlers_serve [OF assms, where u = u, folded served_by_def]
  ultimately have "served_by (peer_message decompress now payload u h c)" using assms by (simp add: peer_message_def Let_def)
  then show ?thesis by (simp add: served_by_def)
qed

section \<open>The loop\<close>

lemma served_stream: "serves u c c' \<Longrightarrow> stream (cl_heap c' ! h) = stream (cl_heap c ! h)"
  by (simp add: serves_def)

lemma ReadMessage_fields: "ReadMessage k = (x, k') \<Longrightarrow> k' = k\<lparr>c_in := c_in k'\<rparr>"
  by (auto simp: ReadMessage_def Let_def Conn_ReadFull_def split: prod.splits sum.splits if_splits)

text \<open>Reading only takes input off the connection.\<close>

lemma client_ok_read: "client_ok c \<Longrightarrow> with_conn ReadMessage h c = (x, c') \<Longrightarrow> client_ok c'"
  by (auto simp: with_conn_def client_ok_def split: prod.splits)

lemma read_frame_fields:
  assumes "with_conn ReadMessage h c = (x, c')"
  shows "cl_transfers c' = cl_transfers c" "length (cl_heap c') = length (cl_heap c)"
  using assms by (auto simp: with_conn_def split: prod.splits)

lemma read_shrinks:
  assumes "with_conn ReadMessage h c = (Inr payload, c')" "h < length (cl_heap c)"
  shows "length (stream (cl_heap c' ! h)) < length (stream (cl_heap c ! h))"
  using assms ReadMessage_shrinks by (fastforce simp: with_conn_def split: prod.splits)

text \<open>\<open>served\<close>: the isolation of \<open>serves\<close> over a whole connection.\<close>

definition served :: "string \<Rightarrow> Client \<Rightarrow> Client \<Rightarrow> bool" where
  "served u c c' \<longleftrightarrow> client_ok c' \<and> length (reg_heap (cl_transfers c)) \<le> length (reg_heap (cl_transfers c')) \<and>
     (plain_name u \<and> names_ok c \<longrightarrow> names_ok c' \<and>
        (\<forall>p < length (reg_heap (cl_transfers c)). t_Username (tr_of p c) \<noteq> u \<longrightarrow> tr_of p c' = tr_of p c))"

lemma served_step:
  assumes "cl_transfers c1 = cl_transfers c" "serves u c1 c2" "served u c2 c3"
  shows "served u c c3"
proof -
  have names: "names_ok c1 = names_ok c" using assms(1) by (simp add: names_ok_def)
  have "tr_of p c3 = tr_of p c" if "plain_name u" "names_ok c" "p < length (reg_heap (cl_transfers c))" "t_Username (tr_of p c) \<noteq> u" for p
  proof -
    have "names_ok c2" "tr_of p c2 = tr_of p c" "p < length (reg_heap (cl_transfers c2))"
      using assms(1,2) names that by (simp_all add: serves_def)
    with assms(3) that show ?thesis by (simp add: served_def)
  qed
  moreover have "names_ok c3" if "plain_name u" "names_ok c" using that assms(2,3) names by (simp add: serves_def served_def)
  moreover have "length (reg_heap (cl_transfers c)) \<le> length (reg_heap (cl_transfers c3))" "client_ok c3"
    using assms by (simp_all add: serves_def served_def)
  ultimately show ?thesis by (simp add: served_def)
qed

lemma loop_served:
  assumes "client_ok c" "h < length (cl_heap c)"
  shows "\<exists>c'. handleIncomingPeerMessages decompress now i h u c = Some (Inr c') \<and> served u c c'"
  using assms
proof (induction "length (stream (cl_heap c ! h))" arbitrary: c i rule: less_induct)
  case (less c i)
  obtain x c1 where rd: "with_conn ReadMessage h c = (x, c1)" by fastforce
  note c1 = client_ok_read [OF less.prems(1) rd] read_frame_fields [OF rd]
  show ?case
  proof (cases x)
    case (Inl err)
    then have "handleIncomingPeerMessages decompress now i h u c = Some (Inr c1)"
      using rd by (subst handleIncomingPeerMessages.simps) simp
    then show ?thesis using c1(1,2) by (simp add: served_def names_ok_def)
  next
    case (Inr payload)
    from peer_message_serves [OF c1(1)] obtain c2 where c2: "peer_message decompress (now i) payload u h c1 = Inr c2" "serves u c1 c2" by blast
    have shorter: "length (stream (cl_heap c2 ! h)) < length (stream (cl_heap c ! h))"
      using read_shrinks [OF rd [unfolded Inr] less.prems(2)] served_stream [OF c2(2)] by simp
    have "client_ok c2" "h < length (cl_heap c2)" using c1(3) c2(2) less.prems(2) by (simp_all add: serves_def)
    from less.hyps [OF shorter this, of "i + 1"] obtain c3 where
      c3: "handleIncomingPeerMessages decompress now (i + 1) h u c2 = Some (Inr c3)" "served u c2 c3" by blast
    have "handleIncomingPeerMessages decompress now i h u c = Some (Inr c3)"
      using rd Inr c2(1) c3(1) by (subst handleIncomingPeerMessages.simps) simp
    with served_step [OF c1(2) c2(2) c3(2)] show ?thesis by blast
  qed
qed

section \<open>Properties\<close>

text \<open>
  C4: The loop serving a peer's message connection, run by itself. Whatever bytes the peer sends, framed or not, well-formed or not, in
  whatever segments: the loop returns when the connection ends, no handler panics, and the client is well-formed as before
  (consistent registry, open channels, live searches). A client fresh from \<^verbatim>\<open>New\<close> is well-formed. This is about one loop
  with no other goroutine between a handler's lookup and its send, and as long as there is memory for the slices the handlers
  make: \<^verbatim>\<open>DecodeSearchResponse\<close> makes room for as many files as the peer announces. What happens when other goroutines do
  run in between is part of the property on the whole client.
\<close>

theorem peer_messages_safe:
  assumes "client_ok c" "h < length (cl_heap c)"
  shows "\<exists>c'. handleIncomingPeerMessages decompress now 0 h username c = Some (Inr c') \<and> client_ok c' \<and> client_ok (New opts)"
  using loop_served [OF assms] client_ok_New by (fastforce simp: served_def)

theorem peer_messages_safe_witness:
  "\<exists>c'. handleIncomingPeerMessages Inr (\<lambda>_. 3) 0 0 ''eve'' ((New None)\<lparr>cl_heap := [NewConn [[200, 1], [2, 3], [4]] EOF]\<rparr>) = Some (Inr c')"
  using peer_messages_safe [of "(New None)\<lparr>cl_heap := [NewConn [[200, 1], [2, 3], [4]] EOF]\<rparr>" 0 Inr "\<lambda>_. 3" "''eve''" None] client_ok_New [of None]
  by (auto simp: client_ok_def)

text \<open>
  C8: A peer reaches only its own transfers. Where no user name contains a colon (the separator of the registry's keys),
  everything a peer sends on its message connection leaves every transfer with another user exactly as it is: its state, size,
  error, queue position and channels.
\<close>

theorem peer_isolation:
  assumes "client_ok c" "h < length (cl_heap c)" "plain_name username" "names_ok c"
    and "p < length (reg_heap (cl_transfers c))" "t_Username (deref (cl_transfers c) p) \<noteq> username"
  shows "\<exists>c'. handleIncomingPeerMessages decompress now 0 h username c = Some (Inr c') \<and>
     deref (cl_transfers c') p = deref (cl_transfers c) p"
  using loop_served [OF assms(1,2), of decompress now 0 username] assms(3-6) by (auto simp: served_def)


text \<open>A download from one user, while another one reports that an upload of the same file has failed.\<close>

definition demo_denial :: Client where
  "demo_denial = (snd (Download ''bob'' ''a.mp3'' 0 [] online_client))\<lparr>cl_heap :=
     [NewConn [frame (w_sink (buffer_of (UploadFailed_Encode \<lparr>uf_Filename = ''a.mp3''\<rparr>)))] EOF]\<rparr>"

lemma demo_denial: "client_ok demo_denial" "names_ok demo_denial" "length (reg_heap (cl_transfers demo_denial)) = 1"
  "t_Username (deref (cl_transfers demo_denial) 0) = ''bob''"
proof -
  have m: "mine 1 0 demo_denial" using online_download by (simp add: demo_denial_def)
  show one: "length (reg_heap (cl_transfers demo_denial)) = 1" by code_simp
  show user: "t_Username (deref (cl_transfers demo_denial) 0) = ''bob''" by code_simp
  have "srg_searches (cl_searches demo_denial) = []" by code_simp
  then have "search_ok (cl_searches demo_denial)" by (simp add: search_ok_def)
  moreover obtain t where "reg_heap (cl_transfers demo_denial) = [t]" using one by (auto simp: length_Suc_conv)
  ultimately show "client_ok demo_denial" "names_ok demo_denial"
    using m user by (simp_all add: client_ok_def mine_def names_ok_def plain_name_def)
qed

theorem peer_isolation_witness:
  "\<exists>c'. handleIncomingPeerMessages Inr (\<lambda>_. 3) 0 0 ''eve'' demo_denial = Some (Inr c') \<and>
     deref (cl_transfers c') 0 = deref (cl_transfers demo_denial) 0"
proof -
  have "0 < length (cl_heap demo_denial)" by (simp add: demo_denial_def)
  from peer_isolation [OF demo_denial(1) this, of "''eve''" 0 Inr "\<lambda>_. 3"] demo_denial(2-4) show ?thesis by (simp add: plain_name_def)
qed

end
