(* ===== verification/Session.thy ===== *)
theory Session
  imports PeerLoop Router
begin

text \<open>
  The session with the server: connecting, logging in, the read loop with the client's own message handlers, searching and
  disconnecting (\<^verbatim>\<open>src/client/client.go\<close> and \<^verbatim>\<open>Search\<close> of \<^verbatim>\<open>src/client/search.go\<close>). \<^verbatim>\<open>c.conn\<close> is \<open>None\<close> for nil; using it
  then is a nil dereference. Handlers are registered with the router under numbers: the client's own three, and others
  (a caller's, or the temporary one of \<^verbatim>\<open>getPeerAddress\<close>) whose effect is a parameter. Deadlines are part of the connection.
\<close>

section \<open>The server connection\<close>

definition server_write :: "byte list \<Rightarrow> Client \<Rightarrow> go_panic + (go_error option \<times> Client)" where
  "server_write payload c =
     (case cl_conn c of
        None \<Rightarrow> Inl NilDereference
      | Some k \<Rightarrow> (case WriteMessage payload k of (e, k) \<Rightarrow> Inr (e, c\<lparr>cl_conn := Some k\<rparr>)))"

definition server_read :: "Client \<Rightarrow> go_panic + ((go_error + byte list) \<times> Client)" where
  "server_read c =
     (case cl_conn c of
        None \<Rightarrow> Inl NilDereference
      | Some k \<Rightarrow> (case ReadMessage k of (x, k) \<Rightarrow> Inr (x, c\<lparr>cl_conn := Some k\<rparr>)))"

definition Connect :: "(string \<Rightarrow> go_error + Conn) \<Rightarrow> Client \<Rightarrow> go_error option \<times> Client" where
  "Connect dial c =
     (if cl_connected c then (Some (ErrorString ''already connected''), c)
      else case Dial dial (opt_ServerAddress (cl_opts c)) of
             Inl err \<Rightarrow> (Some (WrapError ''dial server'' err), c)
           | Inr conn \<Rightarrow>
               (None, c\<lparr>cl_conn := Some conn, cl_connected := True, cl_stopCh := Some (make_chan 0), cl_doneCh := Some (make_chan 0),
                        cl_disconnectedCh := Some (make_chan 0), cl_disconnectErr := None\<rparr>))"

section \<open>Logging in\<close>

definition sendPostLoginConfig :: "Client \<Rightarrow> go_panic + (go_error option \<times> Client)" where
  "sendPostLoginConfig c =
     (let w = buffer_of (SetOnlineStatus_Encode \<lparr>sos_Status = StatusOnline\<rparr>)
      in case w_err w of
           Some err \<Rightarrow> Inr (Some (WrapError ''encode status'' err), c)
         | None \<Rightarrow>
             (case server_write (w_sink w) c of
                Inl panic \<Rightarrow> Inl panic
              | Inr (Some err, c) \<Rightarrow> Inr (Some (WrapError ''send status'' err), c)
              | Inr (None, c) \<Rightarrow>
                  (let (dirs, files) = (case opt_FileSharer (cl_opts c) of None \<Rightarrow> (0, 0) | Some fs \<Rightarrow> GetStats fs);
                       w = buffer_of (SharedFoldersAndFiles_Encode \<lparr>sff_Directories = word_of_nat dirs, sff_Files = word_of_nat files\<rparr>)
                   in case w_err w of
                        Some err \<Rightarrow> Inr (Some (WrapError ''encode shares'' err), c)
                      | None \<Rightarrow>
                          (case server_write (w_sink w) c of
                             Inl panic \<Rightarrow> Inl panic
                           | Inr (Some err, c) \<Rightarrow> Inr (Some (WrapError ''send shares'' err), c)
                           | Inr (None, c) \<Rightarrow> Inr (None, c)))))"

text \<open>The numbers of the client's own handlers.\<close>

definition handler_embedded :: nat where "handler_embedded = 1"
definition handler_ping :: nat where "handler_ping = 2"
definition handler_connectToPeer :: nat where "handler_connectToPeer = 3"

definition registerInternalHandlers :: "(nat \<Rightarrow> nat) \<Rightarrow> Client \<Rightarrow> Client" where
  "registerInternalHandlers grow c =
     (let r = snd (Router_Register grow ServerEmbeddedMessage handler_embedded (cl_router c));
          r = snd (Router_Register grow ServerPing handler_ping r);
          r = snd (Router_Register grow ServerConnectToPeer handler_connectToPeer r)
      in c\<lparr>cl_router := r\<rparr>)"

definition Login ::
  "(byte list \<Rightarrow> byte list) \<Rightarrow> (nat \<Rightarrow> nat) \<Rightarrow> string \<Rightarrow> string \<Rightarrow> Client \<Rightarrow> go_panic + (go_error option \<times> Client)" where
  "Login md5_Sum grow username password c =
     (if \<not> cl_connected c then Inr (Some (ErrorString ''not connected''), c)
      else if cl_loggedIn c then Inr (Some (ErrorString ''already logged in''), c)
      else
        let w = buffer_of (do {
              LoginRequest_Encode md5_Sum (NewLoginRequest username password);
              SetListenPort_Encode \<lparr>slp_Port = opt_ListenPort (cl_opts c)\<rparr> })
        in case w_err w of
             Some err \<Rightarrow> Inr (Some (WrapError ''encode login'' err), c)
           | None \<Rightarrow>
               (case server_write (w_sink w) c of
                  Inl panic \<Rightarrow> Inl panic
                | Inr (Some err, c) \<Rightarrow> Inr (Some (WrapError ''send login'' err), c)
                | Inr (None, c) \<Rightarrow>
                    (case server_read c of
                       Inl panic \<Rightarrow> Inl panic
                     | Inr (Inl err, c) \<Rightarrow> Inr (Some (WrapError ''read response'' err), c)
                     | Inr (Inr payload, c) \<Rightarrow>
                         (case fst (run_state DecodeLoginResponse (NewReader payload)) of
                            Inl err \<Rightarrow> Inr (Some (WrapError ''decode response'' err), c)
                          | Inr resp \<Rightarrow>
                              if \<not> lresp_Succeeded resp then Inr (Some (ErrorString (''login rejected: '' @ lresp_Message resp)), c)
                              else
                                let c = c\<lparr>cl_username := username,
                                          cl_ipAddress := (if lresp_IPAddress resp = [] then None else Some (lresp_IPAddress resp)),
                                          cl_isSupporter := lresp_IsSupporter resp, cl_loggedIn := True,
                                          cl_peerConnMgr := (cl_peerConnMgr c)\<lparr>pm_ourUsername := username\<rparr>\<rparr>
                                in case sendPostLoginConfig c of
                                     Inl panic \<Rightarrow> Inl panic
                                   | Inr (Some err, c) \<Rightarrow> Inr (Some (WrapError ''post-login config'' err), c)
                                   | Inr (None, c) \<Rightarrow>
                                       (let c = registerInternalHandlers grow c;
                                            c = start_goroutine Go_runReadLoop (c\<lparr>cl_running := True\<rparr>)
                                        in Inr (None, uploadProcessor_Start c))))))"

section \<open>Messages from the server\<close>

definition handlePing :: "Client \<Rightarrow> go_panic + Client" where
  "handlePing c =
     (let w = buffer_of Ping_Encode
      in if w_err w \<noteq> None then Inr c
         else case server_write (w_sink w) c of Inl panic \<Rightarrow> Inl panic | Inr (e, c) \<Rightarrow> Inr c)"

text \<open>
  The handlers with the numbers \<open>ks\<close>, one after the other, on a message; \<open>other\<close> is the effect of a handler that is not one of
  the client's own. An embedded message that is no search response is dispatched again, under its own code.
\<close>

function run_handlers ::
  "(byte list \<Rightarrow> go_error + byte list) \<Rightarrow> (nat \<Rightarrow> byte list \<Rightarrow> Client \<Rightarrow> Client) \<Rightarrow> nat list \<Rightarrow> byte list \<Rightarrow> Client \<Rightarrow> go_panic + Client" where
  "run_handlers decompress other [] payload c = Inr c"
| "run_handlers decompress other (k # ks) payload c =
     (case (if k = handler_embedded then
              (if length payload < 5 then Inr c
               else
                 let embeddedCode = payload ! 4;
                     embeddedPayload = drop 5 payload
                 in if length embeddedPayload \<ge> 4 \<and> (from_le (take 4 embeddedPayload) :: u32) = PeerSearchResponse
                    then handleSearchResponse decompress embeddedPayload c
                    else run_handlers decompress other (map he_handler (Dispatch (\<lambda>_ r. r) (ucast embeddedCode) (cl_router c))) embeddedPayload c)
            else if k = handler_ping then handlePing c
            else if k = handler_connectToPeer then Inr (handleConnectToPeer payload c)
            else Inr (other k payload c)) of
        Inl panic \<Rightarrow> Inl panic
      | Inr c \<Rightarrow> run_handlers decompress other ks payload c)"
  by pat_completeness auto
termination by (relation "measures [\<lambda>(d, os, ks, payload, c). length payload, \<lambda>(d, os, ks, payload, c). length ks]") auto

declare run_handlers.simps [simp del]

definition dispatch_message ::
  "(byte list \<Rightarrow> go_error + byte list) \<Rightarrow> (nat \<Rightarrow> byte list \<Rightarrow> Client \<Rightarrow> Client) \<Rightarrow> u32 \<Rightarrow> byte list \<Rightarrow> Client \<Rightarrow> go_panic + Client" where
  "dispatch_message decompress other code payload c =
     run_handlers decompress other (map he_handler (Dispatch (\<lambda>_ r. r) code (cl_router c))) payload c"

text \<open>The connection is lost: record why, announce it, end the searches.\<close>

definition read_failed :: "go_error \<Rightarrow> Client \<Rightarrow> go_panic + Client" where
  "read_failed err c =
     (let c = c\<lparr>cl_connected := False, cl_loggedIn := False, cl_running := False, cl_disconnectErr := Some err\<rparr>
      in case cl_disconnectedCh c of
           None \<Rightarrow> Inl CloseOfNil
         | Some ch \<Rightarrow>
             (case close_chan ch of
                Inl panic \<Rightarrow> Inl panic
              | Inr ch \<Rightarrow>
                  (case closeAll (cl_searches c) of
                     Inl panic \<Rightarrow> Inl panic
                   | Inr r \<Rightarrow> Inr (c\<lparr>cl_disconnectedCh := Some ch, cl_searches := r\<rparr>))))"

text \<open>One iteration: \<open>Inr (False, c)\<close> when the loop returns. The check of \<^verbatim>\<open>stopCh\<close> and the rest are separate steps.\<close>

definition loop_stopped :: "Client \<Rightarrow> bool" where
  "loop_stopped c \<longleftrightarrow> (case cl_stopCh c of None \<Rightarrow> False | Some ch \<Rightarrow> ch_closed ch)"

definition loop_read ::
  "(byte list \<Rightarrow> go_error + byte list) \<Rightarrow> (nat \<Rightarrow> byte list \<Rightarrow> Client \<Rightarrow> Client) \<Rightarrow> Client \<Rightarrow> go_panic + (bool \<times> Client)" where
  "loop_read decompress other c =
     (case server_read c of
        Inl panic \<Rightarrow> Inl panic
      | Inr (Inl err, c) \<Rightarrow> (case read_failed err c of Inl panic \<Rightarrow> Inl panic | Inr c \<Rightarrow> Inr (False, c))
      | Inr (Inr payload, c) \<Rightarrow>
          if length payload < 4 then Inr (True, c)
          else case dispatch_message decompress other (from_le (take 4 payload)) payload c of
                 Inl panic \<Rightarrow> Inl panic
               | Inr c \<Rightarrow> Inr (True, c))"

text \<open>
  \<^verbatim>\<open>defer close(c.doneCh)\<close>. The statement evaluates \<^verbatim>\<open>c.doneCh\<close> when the loop starts; here it is the channel the client has
  when the loop ends, the same one unless the caller has connected anew by then.
\<close>

definition close_done :: "Client \<Rightarrow> go_panic + Client" where
  "close_done c =
     (case cl_doneCh c of
        None \<Rightarrow> Inl CloseOfNil
      | Some ch \<Rightarrow> (case close_chan ch of Inl panic \<Rightarrow> Inl panic | Inr ch \<Rightarrow> Inr (c\<lparr>cl_doneCh := Some ch\<rparr>)))"

text \<open>\<open>None\<close>: the loop does not return.\<close>

partial_function (option) runReadLoop ::
  "(byte list \<Rightarrow> go_error + byte list) \<Rightarrow> (nat \<Rightarrow> byte list \<Rightarrow> Client \<Rightarrow> Client) \<Rightarrow> Client \<Rightarrow> (go_panic + Client) option" where
  "runReadLoop decompress other c =
     (if loop_stopped c then Some (close_done c)
      else case loop_read decompress other c of
             Inl panic \<Rightarrow> Some (Inl panic)
           | Inr (again, c) \<Rightarrow> if again then runReadLoop decompress other c else Some (close_done c))"

section \<open>Searching\<close>

text \<open>
  \<^verbatim>\<open>Search\<close>: the new search, or an error. It first draws a token and registers the search, then sends the request; no lock is
  held in between.
\<close>

definition Search_begin :: "string \<Rightarrow> Client \<Rightarrow> (go_error + (u32 \<times> nat \<times> byte list)) \<times> Client" where
  "Search_begin query c =
     (if \<not> cl_loggedIn c then (Inl (ErrorString ''not logged in''), c)
      else
        let token = cl_searchToken c + 1;
            c = c\<lparr>cl_searchToken := token\<rparr>;
            w = buffer_of (FileSearch_Encode \<lparr>fs_Token = token, fs_Query = query\<rparr>)
        in case w_err w of
             Some err \<Rightarrow> (Inl err, c)
           | None \<Rightarrow> (case new_search (cl_searches c) of (p, r) \<Rightarrow> (Inr (token, p, w_sink w), c\<lparr>cl_searches := search_add token p r\<rparr>)))"

definition Search_send :: "u32 \<Rightarrow> nat \<Rightarrow> byte list \<Rightarrow> Client \<Rightarrow> go_panic + ((go_error + nat) \<times> Client)" where
  "Search_send token p request c =
     (case server_write request c of
        Inl panic \<Rightarrow> Inl panic
      | Inr (Some err, c) \<Rightarrow>
          (case search_close p (search_cancel p (search_remove token (cl_searches c))) of
             Inl panic \<Rightarrow> Inl panic
           | Inr r \<Rightarrow> Inr (Inl err, c\<lparr>cl_searches := r\<rparr>))
      | Inr (None, c) \<Rightarrow> Inr (Inr p, start_goroutine (Go_searchCleanup token p) c))"

definition Search :: "string \<Rightarrow> Client \<Rightarrow> go_panic + ((go_error + nat) \<times> Client)" where
  "Search query c =
     (case Search_begin query c of
        (Inl err, c) \<Rightarrow> Inr (Inl err, c)
      | (Inr (token, p, request), c) \<Rightarrow> Search_send token p request c)"

section \<open>Disconnecting\<close>

text \<open>
  \<^verbatim>\<open>Disconnect\<close> waits twice: in \<^verbatim>\<open>uploadProc.Stop\<close> for the processor, then for the read loop. \<open>waitProc\<close> and \<open>waitLoop\<close> are
  what the other goroutines do meanwhile; \<open>None\<close>: the channel waited for is not closed by then, the call does not return.
\<close>

definition disconnect_state :: "Client \<Rightarrow> go_panic + Client" where
  "disconnect_state c =
     (case (if cl_running c
            then (case cl_stopCh c of
                    None \<Rightarrow> Inl CloseOfNil
                  | Some ch \<Rightarrow> (case close_chan ch of Inl panic \<Rightarrow> Inl panic | Inr ch \<Rightarrow> Inr (c\<lparr>cl_stopCh := Some ch\<rparr>)))
            else Inr c) of
        Inl panic \<Rightarrow> Inl panic
      | Inr c \<Rightarrow>
          if cl_conn c = None then Inl NilDereference
          else Inr (c\<lparr>cl_conn := None, cl_connected := False, cl_loggedIn := False, cl_running := False, cl_username := '''',
                      cl_ipAddress := None, cl_isSupporter := False\<rparr>))"

definition Disconnect :: "(Client \<Rightarrow> Client) \<Rightarrow> (Client \<Rightarrow> Client) \<Rightarrow> Client \<Rightarrow> (go_panic + Client) option" where
  "Disconnect waitProc waitLoop c =
     (if \<not> cl_connected c then Some (Inr c)
      else case disconnect_state c of
             Inl panic \<Rightarrow> Some (Inl panic)
           | Inr c \<Rightarrow>
               (case closeAll (cl_searches c) of
                  Inl panic \<Rightarrow> Some (Inl panic)
                | Inr r \<Rightarrow>
                    (case uploadProcessor_Stop (peerConn_Close (c\<lparr>cl_searches := r\<rparr>)) of
                       Inl panic \<Rightarrow> Some (Inl panic)
                     | Inr (waits, c) \<Rightarrow>
                         (let c = (if waits then waitProc c else c)
                          in if waits \<and> \<not> ch_closed (upr_doneCh (cl_uploadProc c)) then None
                             else case SlotManager_Close (cl_slots c) of
                                    Inl panic \<Rightarrow> Some (Inl panic)
                                  | Inr s \<Rightarrow>
                                      (let c = waitLoop (c\<lparr>cl_slots := s\<rparr>)
                                       in case cl_doneCh c of
                                            None \<Rightarrow> Some (Inr c)
                                          | Some ch \<Rightarrow> if ch_closed ch then Some (Inr c) else None)))))"

section \<open>Accessors\<close>

definition Disconnected :: "Client \<Rightarrow> unit chan option" where "Disconnected c = cl_disconnectedCh c"
definition DisconnectError :: "Client \<Rightarrow> go_error option" where "DisconnectError c = cl_disconnectErr c"
definition Connected :: "Client \<Rightarrow> bool" where "Connected c = cl_connected c"
definition LoggedIn :: "Client \<Rightarrow> bool" where "LoggedIn c = cl_loggedIn c"
definition Username :: "Client \<Rightarrow> string" where "Username c = cl_username c"
definition IPAddress :: "Client \<Rightarrow> byte list option" where "IPAddress c = cl_ipAddress c"
definition IsSupporter :: "Client \<Rightarrow> bool" where "IsSupporter c = cl_isSupporter c"
definition StopListener :: "Client \<Rightarrow> Client" where "StopListener c = Listener_Stop c"
definition ListenerPort :: "Client \<Rightarrow> int" where "ListenerPort c = cl_listenerPort c"


section \<open>A working connection to the server\<close>

lemma ReadMessage_raw:
  assumes "read_raw_frame k = (Inr p, k')" "length p \<le> maxMessageSize"
  shows "ReadMessage k = (Inr p, k')"
proof -
  from assms(1) obtain b k1 where b: "Conn_ReadFull 4 k = (Inr b, k1)" "Conn_ReadFull (unat (from_le b :: u32)) k1 = (Inr p, k')"
    by (auto simp: read_raw_frame_def split: prod.splits sum.splits)
  then have "unat (from_le b :: u32) = length p" using Conn_ReadFull_consumes [OF b(2)] by simp
  then show ?thesis using b assms(2) by (simp add: ReadMessage_def)
qed

lemma ReadMessage_frame:
  assumes "stream k = frame p @ rest" "length p \<le> maxMessageSize"
  shows "\<exists>k'. ReadMessage k = (Inr p, k') \<and> stream k' = rest \<and> k' = k\<lparr>c_in := c_in k'\<rparr>"
  using read_raw_frame_frame [OF assms(1)] ReadMessage_raw assms(2) by (fastforce simp: maxMessageSize_def)

text \<open>The client is connected over \<open>k\<close>, which takes everything.\<close>

definition online :: "Conn \<Rightarrow> Client \<Rightarrow> bool" where
  "online k c \<longleftrightarrow> cl_conn c = Some k \<and> c_werr k = None \<and> c_room k = None"

lemma server_write_online:
  assumes "online k c"
  shows "\<exists>k'. server_write p c = Inr (None, c\<lparr>cl_conn := Some k'\<rparr>) \<and> online k' (c\<lparr>cl_conn := Some k'\<rparr>) \<and>
     c_out k' = c_out k @ frame p \<and> c_in k' = c_in k"
proof -
  obtain e k' where w: "WriteMessage p k = (e, k')" by fastforce
  from assms have k: "cl_conn c = Some k" "c_werr k = None" "c_room k = None" by (simp_all add: online_def)
  from WriteMessage_sends [OF k(2) w] WriteMessage_room [OF k(3) w] k(3) have
    "e = None" "c_werr k' = None" "c_room k' = None" "c_out k' = c_out k @ frame p" "c_in k' = c_in k"
    by (auto simp: sends_def accepts_def take_room_def)
  then show ?thesis using w k(1) by (intro exI [of _ k']) (simp add: server_write_def online_def)
qed

lemma server_read_online:
  assumes "online k c" "stream k = frame p @ rest" "length p \<le> maxMessageSize"
  shows "\<exists>k'. server_read c = Inr (Inr p, c\<lparr>cl_conn := Some k'\<rparr>) \<and> online k' (c\<lparr>cl_conn := Some k'\<rparr>) \<and>
     c_out k' = c_out k \<and> stream k' = rest"
proof -
  from ReadMessage_frame [OF assms(2,3)] obtain k' where k': "ReadMessage k = (Inr p, k')" "stream k' = rest" "k' = k\<lparr>c_in := c_in k'\<rparr>" by blast
  from k'(3) have "c_out k' = c_out k" "c_werr k' = c_werr k" "c_room k' = c_room k"
    by (metis Conn.select_convs Conn.surjective Conn.update_convs(1))+
  with k' assms(1) show ?thesis by (intro exI [of _ k']) (simp add: server_read_def online_def)
qed

section \<open>Logging in\<close>

definition login_payload :: "(byte list \<Rightarrow> byte list) \<Rightarrow> string \<Rightarrow> string \<Rightarrow> u32 \<Rightarrow> byte list" where
  "login_payload md5_Sum username password port =
     w_sink (buffer_of (LoginRequest_Encode md5_Sum (NewLoginRequest username password))) @
     w_sink (buffer_of (SetListenPort_Encode \<lparr>slp_Port = port\<rparr>))"

lemma login_buffer:
  "w_sink (buffer_of (do { LoginRequest_Encode md5_Sum (NewLoginRequest u p); SetListenPort_Encode \<lparr>slp_Port = port\<rparr> })) =
     login_payload md5_Sum u p port"
  "w_err (buffer_of (do { LoginRequest_Encode md5_Sum (NewLoginRequest u p); SetListenPort_Encode \<lparr>slp_Port = port\<rparr> })) = None"
  by (simp_all add: login_payload_def buffer_of_def LoginRequest_Encode_def SetListenPort_Encode_def Let_def)

lemma server_requests_ok [simp]:
  "w_err (buffer_of (SetOnlineStatus_Encode a)) = None" "w_err (buffer_of (SharedFoldersAndFiles_Encode b)) = None"
  "w_err (buffer_of Ping_Encode) = None" "w_err (buffer_of (FileSearch_Encode d)) = None"
  by (simp_all add: buffer_of_def SetOnlineStatus_Encode_def SharedFoldersAndFiles_Encode_def Ping_Encode_def FileSearch_Encode_def)

text \<open>What the client reports about its shares.\<close>

definition share_counts :: "Client \<Rightarrow> nat \<times> nat" where
  "share_counts c = (case opt_FileSharer (cl_opts c) of None \<Rightarrow> (0, 0) | Some fs \<Rightarrow> GetStats fs)"

definition config_bytes :: "Client \<Rightarrow> byte list" where
  "config_bytes c = frame (w_sink (buffer_of (SetOnlineStatus_Encode \<lparr>sos_Status = StatusOnline\<rparr>))) @
     frame (w_sink (buffer_of (SharedFoldersAndFiles_Encode
       \<lparr>sff_Directories = word_of_nat (fst (share_counts c)), sff_Files = word_of_nat (snd (share_counts c))\<rparr>)))"

lemma sendPostLoginConfig_online:
  assumes "online k c"
  shows "\<exists>k'. sendPostLoginConfig c = Inr (None, c\<lparr>cl_conn := Some k'\<rparr>) \<and> online k' (c\<lparr>cl_conn := Some k'\<rparr>) \<and>
     c_out k' = c_out k @ config_bytes c \<and> c_in k' = c_in k"
proof -
  let ?w1 = "w_sink (buffer_of (SetOnlineStatus_Encode \<lparr>sos_Status = StatusOnline\<rparr>))"
  let ?w2 = "w_sink (buffer_of (SharedFoldersAndFiles_Encode
       \<lparr>sff_Directories = word_of_nat (fst (share_counts c)), sff_Files = word_of_nat (snd (share_counts c))\<rparr>))"
  from server_write_online [OF assms, of ?w1] obtain k1 where k1: "server_write ?w1 c = Inr (None, c\<lparr>cl_conn := Some k1\<rparr>)"
    "online k1 (c\<lparr>cl_conn := Some k1\<rparr>)" "c_out k1 = c_out k @ frame ?w1" "c_in k1 = c_in k" by blast
  from server_write_online [OF k1(2), of ?w2] obtain k2 where k2: "server_write ?w2 (c\<lparr>cl_conn := Some k1\<rparr>) = Inr (None, c\<lparr>cl_conn := Some k2\<rparr>)"
    "online k2 (c\<lparr>cl_conn := Some k2\<rparr>)" "c_out k2 = c_out k1 @ frame ?w2" "c_in k2 = c_in k1" by auto
  have "sendPostLoginConfig c = Inr (None, c\<lparr>cl_conn := Some k2\<rparr>)"
    using k1(1) k2(1) by (simp add: sendPostLoginConfig_def Let_def share_counts_def split_def)
  with k1 k2 show ?thesis by (auto simp: config_bytes_def)
qed


text \<open>Which handlers run for a message code.\<close>

definition handler_keys :: "u32 \<Rightarrow> Client \<Rightarrow> nat list" where
  "handler_keys code c = map he_handler (handlers_of code (cl_router c))"

definition own_handlers :: "u32 \<Rightarrow> nat list" where
  "own_handlers code =
     (if code = ServerEmbeddedMessage then [handler_embedded] else if code = ServerPing then [handler_ping]
      else if code = ServerConnectToPeer then [handler_connectToPeer] else [])"

lemma handler_codes_distinct:
  "ServerEmbeddedMessage \<noteq> ServerPing" "ServerEmbeddedMessage \<noteq> ServerConnectToPeer" "ServerPing \<noteq> ServerConnectToPeer"
  by (simp_all add: wire_code)

lemma Router_Register_counter: "rt_counter (snd (Router_Register grow code h r)) = rt_counter r + 1"
  by (simp add: Router_Register_def append_entry_def Let_def split: option.splits)

lemma add_eq_minus_1:
  assumes "unat (n :: u64) + 3 < 2 ^ 64"
  shows "n \<noteq> - 1" "n + 1 \<noteq> - 1" "n + 2 \<noteq> - 1"
proof -
  have max: "unat (- 1 :: u64) = 18446744073709551615" by (simp add: unsigned_minus_1_eq_mask mask_eq_exp_minus_1)
  have sums: "unat (n + 1) = unat n + 1" "unat (n + 2) = unat n + 2" using assms by (simp_all add: unat_word_ariths)
  from assms max show "n \<noteq> - 1" by auto
  from assms max sums(1) show "n + 1 \<noteq> - 1" by force
  from assms max sums(2) show "n + 2 \<noteq> - 1" by force
qed

lemma registerInternalHandlers_keys:
  assumes "router_ok (cl_router c)" "unat (rt_counter (cl_router c)) + 3 < 2 ^ 64"
  shows "router_ok (cl_router (registerInternalHandlers grow c))"
    "handler_keys code (registerInternalHandlers grow c) = handler_keys code c @ own_handlers code"
proof -
  let ?r0 = "cl_router c"
  define r1 where "r1 = snd (Router_Register grow ServerEmbeddedMessage handler_embedded ?r0)"
  define r2 where "r2 = snd (Router_Register grow ServerPing handler_ping r1)"
  define r3 where "r3 = snd (Router_Register grow ServerConnectToPeer handler_connectToPeer r2)"
  have n: "rt_counter r1 = rt_counter ?r0 + 1" "rt_counter r2 = rt_counter ?r0 + 2"
    unfolding r1_def r2_def by (simp_all add: Router_Register_counter)
  have room: "rt_counter ?r0 \<noteq> - 1" "rt_counter r1 \<noteq> - 1" "rt_counter r2 \<noteq> - 1"
    unfolding n using add_eq_minus_1 [OF assms(2)] by simp_all
  note r1 = router_ok_Register [OF assms(1) room(1), where grow = grow and code = ServerEmbeddedMessage and h = handler_embedded, folded r1_def]
  note r2 = router_ok_Register [OF r1(1) room(2), where grow = grow and code = ServerPing and h = handler_ping, folded r2_def]
  note r3 = router_ok_Register [OF r2(1) room(3), where grow = grow and code = ServerConnectToPeer and h = handler_connectToPeer, folded r3_def]
  have eq: "registerInternalHandlers grow c = c\<lparr>cl_router := r3\<rparr>"
    by (simp add: registerInternalHandlers_def Let_def r1_def r2_def r3_def)
  show "router_ok (cl_router (registerInternalHandlers grow c))" using r3(1) by (simp add: eq)
  show "handler_keys code (registerInternalHandlers grow c) = handler_keys code c @ own_handlers code"
    using handler_codes_distinct by (simp add: eq handler_keys_def own_handlers_def r1(3) r2(3) r3(3))
qed


definition logged_in :: "string \<Rightarrow> LoginResponse \<Rightarrow> Client \<Rightarrow> Client" where
  "logged_in username resp c = c\<lparr>cl_username := username,
     cl_ipAddress := (if lresp_IPAddress resp = [] then None else Some (lresp_IPAddress resp)),
     cl_isSupporter := lresp_IsSupporter resp, cl_loggedIn := True, cl_peerConnMgr := (cl_peerConnMgr c)\<lparr>pm_ourUsername := username\<rparr>\<rparr>"

definition start_session :: "(nat \<Rightarrow> nat) \<Rightarrow> Client \<Rightarrow> Client" where
  "start_session grow c = uploadProcessor_Start (start_goroutine Go_runReadLoop ((registerInternalHandlers grow c)\<lparr>cl_running := True\<rparr>))"

lemma Login_answered:
  assumes "online k c" "cl_connected c" "\<not> cl_loggedIn c" "stream k = frame p @ rest" "length p \<le> maxMessageSize"
    "fst (run_state DecodeLoginResponse (NewReader p)) = Inr resp"
  shows "\<exists>k'. online k' (c\<lparr>cl_conn := Some k'\<rparr>) \<and> stream k' = rest \<and>
     c_out k' = c_out k @ frame (login_payload md5_Sum u pw (opt_ListenPort (cl_opts c))) \<and>
     Login md5_Sum grow u pw c =
       (if \<not> lresp_Succeeded resp then Inr (Some (ErrorString (''login rejected: '' @ lresp_Message resp)), c\<lparr>cl_conn := Some k'\<rparr>)
        else case sendPostLoginConfig (logged_in u resp (c\<lparr>cl_conn := Some k'\<rparr>)) of
               Inl panic \<Rightarrow> Inl panic
             | Inr (Some err, c) \<Rightarrow> Inr (Some (WrapError ''post-login config'' err), c)
             | Inr (None, c) \<Rightarrow> Inr (None, start_session grow c))"
proof -
  let ?m = "login_payload md5_Sum u pw (opt_ListenPort (cl_opts c))"
  from server_write_online [OF assms(1), of ?m] obtain k1 where k1: "server_write ?m c = Inr (None, c\<lparr>cl_conn := Some k1\<rparr>)"
    "online k1 (c\<lparr>cl_conn := Some k1\<rparr>)" "c_out k1 = c_out k @ frame ?m" "c_in k1 = c_in k" by blast
  have "stream k1 = frame p @ rest" using assms(4) k1(4) by simp
  from server_read_online [OF k1(2) this assms(5)] obtain k2 where k2: "server_read (c\<lparr>cl_conn := Some k1\<rparr>) = Inr (Inr p, c\<lparr>cl_conn := Some k2\<rparr>)"
    "online k2 (c\<lparr>cl_conn := Some k2\<rparr>)" "c_out k2 = c_out k1" "stream k2 = rest" by auto
  have "Login md5_Sum grow u pw c =
       (if \<not> lresp_Succeeded resp then Inr (Some (ErrorString (''login rejected: '' @ lresp_Message resp)), c\<lparr>cl_conn := Some k2\<rparr>)
        else case sendPostLoginConfig (logged_in u resp (c\<lparr>cl_conn := Some k2\<rparr>)) of
               Inl panic \<Rightarrow> Inl panic
             | Inr (Some err, c) \<Rightarrow> Inr (Some (WrapError ''post-login config'' err), c)
             | Inr (None, c) \<Rightarrow> Inr (None, start_session grow c))"
    unfolding Login_def Let_def login_buffer k1(1) sum.case prod.case option.case k2(1) assms(6) logged_in_def start_session_def
    using assms(2,3) by simp
  with k1 k2 show ?thesis by auto
qed

lemma start_session_fields:
  "cl_conn (start_session grow c) = cl_conn c" "cl_loggedIn (start_session grow c) = cl_loggedIn c"
  "cl_username (start_session grow c) = cl_username c" "cl_ipAddress (start_session grow c) = cl_ipAddress c"
  "cl_isSupporter (start_session grow c) = cl_isSupporter c" "cl_peerConnMgr (start_session grow c) = cl_peerConnMgr c"
  "cl_started (start_session grow c) = cl_started c @ [Go_runReadLoop, Go_uploadProcessor]" "cl_running (start_session grow c)"
  "cl_router (start_session grow c) = cl_router (registerInternalHandlers grow c)"
  "cl_uploadProc (start_session grow c) = (cl_uploadProc c)\<lparr>upr_started := True\<rparr>" "cl_stopCh (start_session grow c) = cl_stopCh c"
  "cl_doneCh (start_session grow c) = cl_doneCh c" "cl_disconnectedCh (start_session grow c) = cl_disconnectedCh c"
  "cl_connected (start_session grow c) = cl_connected c" "cl_searches (start_session grow c) = cl_searches c"
  "cl_slots (start_session grow c) = cl_slots c"
  by (simp_all add: start_session_def uploadProcessor_Start_def start_goroutine_def registerInternalHandlers_def Let_def)

definition msg_code :: "byte list \<Rightarrow> u32" where
  "msg_code m = from_le (take 4 m)"


lemma length_LoginSucceeded: "string_ok greeting \<Longrightarrow> string_ok hash \<Longrightarrow> length ip = 4 \<Longrightarrow>
    length (wire_LoginSucceeded greeting ip hash supporter) \<le> maxMessageSize"
  by (simp add: wire_LoginSucceeded_def wire_string_def string_ok_def maxStringLength_def maxMessageSize_def)

lemma handler_keys_cong: "cl_router c' = cl_router c \<Longrightarrow> handler_keys code c' = handler_keys code c"
  by (simp add: handler_keys_def)

text \<open>
  C6: What a successful login does. On a working connection on which the server answers with an acceptance, \<^verbatim>\<open>Login\<close> sends exactly
  three messages, consumes exactly the answer, takes over user name, address and supporter status, adds the client's three
  handlers behind whatever handlers are registered, and starts the read loop and the upload processor. The first message holds the
  login request and, behind it, the bytes of \<^verbatim>\<open>SetListenPort\<close>: they are inside the frame of the login, so the server is never
  sent a message with that code.
\<close>

theorem login_session:
  assumes "online k c" "cl_connected c" "\<not> cl_loggedIn c"
    and "stream k = frame (wire_LoginSucceeded greeting [ip1, ip2, ip3, ip4] hash supporter) @ rest" "string_ok greeting" "string_ok hash"
    and "router_ok (cl_router c)" "unat (rt_counter (cl_router c)) + 3 < 2 ^ 64"
  shows "\<exists>c' k' login status shares. Login md5_Sum grow username password c = Inr (None, c') \<and> cl_conn c' = Some k' \<and> stream k' = rest \<and>
     c_out k' = c_out k @ frame login @ frame status @ frame shares \<and>
     map msg_code [login, status, shares] = [ServerLogin, ServerSetOnlineStatus, ServerSharedFoldersAndFiles] \<and>
     (\<exists>request. login = request @ le_bytes 4 ServerSetListenPort @ le_bytes 4 (opt_ListenPort (cl_opts c))) \<and>
     LoggedIn c' \<and> Username c' = username \<and> IPAddress c' = Some (net_IPv4 ip1 ip2 ip3 ip4) \<and> IsSupporter c' = supporter \<and>
     cl_started c' = cl_started c @ [Go_runReadLoop, Go_uploadProcessor] \<and>
     (\<forall>code. handler_keys code c' = handler_keys code c @ own_handlers code)"
proof -
  let ?p = "wire_LoginSucceeded greeting [ip1, ip2, ip3, ip4] hash supporter"
  let ?resp = "\<lparr>lresp_Succeeded = True, lresp_Message = greeting, lresp_IPAddress = net_IPv4 ip1 ip2 ip3 ip4, lresp_Hash = hash, lresp_IsSupporter = supporter\<rparr>"
  let ?m = "login_payload md5_Sum username password (opt_ListenPort (cl_opts c))"
  have dec: "fst (run_state DecodeLoginResponse (NewReader ?p)) = Inr ?resp" using decode_LoginSucceeded [OF assms(5,6), of _ _ _ _ _ "[]"] by simp
  have len: "length ?p \<le> maxMessageSize" using assms(5,6) by (simp add: length_LoginSucceeded)
  from Login_answered [OF assms(1-4) len dec, of md5_Sum username password grow] obtain k1 where
    k1: "online k1 (c\<lparr>cl_conn := Some k1\<rparr>)" "stream k1 = rest" "c_out k1 = c_out k @ frame ?m" and
    run: "Login md5_Sum grow username password c = (case sendPostLoginConfig (logged_in username ?resp (c\<lparr>cl_conn := Some k1\<rparr>)) of
        Inl panic \<Rightarrow> Inl panic
      | Inr (Some err, c) \<Rightarrow> Inr (Some (WrapError ''post-login config'' err), c)
      | Inr (None, c) \<Rightarrow> Inr (None, start_session grow c))" by auto
  define d where "d = logged_in username ?resp (c\<lparr>cl_conn := Some k1\<rparr>)"
  have d: "online k1 d" "cl_router d = cl_router c" "cl_started d = cl_started c" "cl_opts d = cl_opts c"
    using k1(1) by (simp_all add: d_def logged_in_def online_def)
  from sendPostLoginConfig_online [OF d(1)] obtain k2 where
    k2: "sendPostLoginConfig d = Inr (None, d\<lparr>cl_conn := Some k2\<rparr>)" "c_out k2 = c_out k1 @ config_bytes d" "c_in k2 = c_in k1" by blast
  let ?c = "start_session grow (d\<lparr>cl_conn := Some k2\<rparr>)"
  have "Login md5_Sum grow username password c = Inr (None, ?c)" using run k2(1) by (simp add: d_def)
  moreover have "handler_keys code ?c = handler_keys code c @ own_handlers code" for code
    using registerInternalHandlers_keys(2) [of "d\<lparr>cl_conn := Some k2\<rparr>" code grow] assms(7,8) d(2)
    by (simp add: handler_keys_def start_session_fields)
  moreover have "\<exists>request. ?m = request @ le_bytes 4 ServerSetListenPort @ le_bytes 4 (opt_ListenPort (cl_opts c))"
    by (simp add: login_payload_def wire_simps)
  moreover have "net_IPv4 ip1 ip2 ip3 ip4 \<noteq> []" by (simp add: net_IPv4_def)
  moreover have "LoggedIn ?c" "Username ?c = username" "IsSupporter ?c = supporter" "cl_started ?c = cl_started c @ [Go_runReadLoop, Go_uploadProcessor]"
    by (simp_all add: LoggedIn_def Username_def IsSupporter_def start_session_fields d(3)) (simp_all add: d_def logged_in_def)
  moreover have "IPAddress ?c = Some (net_IPv4 ip1 ip2 ip3 ip4)"
    using calculation(4) by (simp add: IPAddress_def start_session_fields) (simp add: d_def logged_in_def)
  moreover have "msg_code ?m = ServerLogin" by (simp add: msg_code_def login_payload_def buffer_of_def LoginRequest_Encode_def Let_def)
  ultimately show ?thesis using k1 k2 unfolding config_bytes_def
    by (intro exI [of _ ?c] exI [of _ k2] exI [of _ ?m]
        exI [of _ "w_sink (buffer_of (SetOnlineStatus_Encode \<lparr>sos_Status = StatusOnline\<rparr>))"]
        exI [of _ "w_sink (buffer_of (SharedFoldersAndFiles_Encode
          \<lparr>sff_Directories = word_of_nat (fst (share_counts d)), sff_Files = word_of_nat (snd (share_counts d))\<rparr>))"])
      (simp add: start_session_fields msg_code_def wire_simps)
qed


text \<open>A client connected to a server that will accept its login.\<close>

definition demo_server :: "string \<Rightarrow> go_error + Conn" where
  "demo_server addr = Inr (NewConn [frame (wire_LoginSucceeded ''hi'' [1, 2, 3, 4] '''' False)] EOF)"

definition demo_connected :: Client where
  "demo_connected = snd (Connect demo_server (New None))"

lemma demo_connected:
  "online (NewConn [frame (wire_LoginSucceeded ''hi'' [1, 2, 3, 4] '''' False)] EOF) demo_connected"
  "cl_connected demo_connected" "\<not> cl_loggedIn demo_connected" "cl_router demo_connected = NewMessageRouter 0"
  by (simp_all add: demo_connected_def Connect_def demo_server_def online_def NewConn_def) (simp add: New_defs)

theorem login_session_witness:
  "\<exists>c'. Login (\<lambda>_. []) (\<lambda>n. n) ''me'' ''pw'' demo_connected = Inr (None, c') \<and> Username c' = ''me'' \<and> handler_keys ServerPing c' = [handler_ping]"
proof -
  let ?k = "NewConn [frame (wire_LoginSucceeded ''hi'' [1, 2, 3, 4] '''' False)] EOF"
  have "stream ?k = frame (wire_LoginSucceeded ''hi'' [1, 2, 3, 4] '''' False) @ []" "string_ok ''hi''" "string_ok ''''"
    by (simp_all add: NewConn_def string_ok_def maxStringLength_def)
  moreover have "router_ok (cl_router demo_connected)" "unat (rt_counter (cl_router demo_connected)) + 3 < 2 ^ 64"
    using router_ok_New by (simp_all add: demo_connected(4)) (simp add: NewMessageRouter_def)
  moreover have "handler_keys ServerPing demo_connected = []"
    by (simp add: handler_keys_def demo_connected(4) handlers_of_def NewMessageRouter_def)
  moreover have "own_handlers ServerPing = [handler_ping]" using handler_codes_distinct by (simp add: own_handlers_def)
  ultimately show ?thesis
    using login_session [OF demo_connected(1-3), of "''hi''" 1 2 3 4 "''''" False "[]" "\<lambda>_. []" "\<lambda>n. n" "''me''" "''pw''"] by fastforce
qed

section \<open>The read loop\<close>

text \<open>What a handler may do to the session: nothing to the incoming bytes and the loop's channels, and the client stays well-formed.\<close>

definition keeps_session :: "Client \<Rightarrow> Client \<Rightarrow> bool" where
  "keeps_session c c' \<longleftrightarrow> map_option c_in (cl_conn c') = map_option c_in (cl_conn c) \<and> cl_disconnectedCh c' = cl_disconnectedCh c \<and>
     cl_doneCh c' = cl_doneCh c \<and> (client_ok c \<longrightarrow> client_ok c')"

lemma keeps_session_refl [simp]: "keeps_session c c"
  by (simp add: keeps_session_def)

lemma keeps_session_trans: "keeps_session c c' \<Longrightarrow> keeps_session c' c'' \<Longrightarrow> keeps_session c c''"
  by (simp add: keeps_session_def)

lemma handlePing_keeps:
  assumes "cl_conn c \<noteq> None"
  shows "\<exists>c'. handlePing c = Inr c' \<and> keeps_session c c'"
proof -
  obtain k where k: "cl_conn c = Some k" using assms by blast
  obtain e k' where w: "WriteMessage (w_sink (buffer_of Ping_Encode)) k = (e, k')" by fastforce
  have "c_in k' = c_in k" using WriteMessage_c_in [OF w] .
  then show ?thesis using k w by (simp add: handlePing_def server_write_def keeps_session_def client_ok_def Let_def)
qed

lemma handleSearchResponse_keeps:
  assumes "client_ok c"
  shows "\<exists>c'. handleSearchResponse decompress payload c = Inr c' \<and> keeps_session c c'"
proof -
  from handleSearchResponse_serves [OF assms, of decompress payload] obtain c' where
    c': "handleSearchResponse decompress payload c = Inr c'" "client_ok c'" using serves_client_ok by blast
  then have "cl_conn c' = cl_conn c" "cl_disconnectedCh c' = cl_disconnectedCh c" "cl_doneCh c' = cl_doneCh c"
    by (auto simp: handleSearchResponse_def split: sum.splits)
  with c' show ?thesis by (simp add: keeps_session_def)
qed

lemma handleConnectToPeer_keeps: "keeps_session c (handleConnectToPeer payload c)"
  by (simp add: handleConnectToPeer_def keeps_session_def client_ok_def solicits_add_def start_goroutine_def Let_def split: sum.splits)

lemma run_handlers_keep:
  assumes "\<And>k p c. keeps_session c (other k p c)" "client_ok c" "cl_conn c \<noteq> None"
  shows "\<exists>c'. run_handlers decompress other ks payload c = Inr c' \<and> keeps_session c c'"
  using assms
proof (induction decompress other ks payload c rule: run_handlers.induct)
  case (1 decompress other payload c)
  then show ?case by (simp add: run_handlers.simps)
next
  case (2 decompress other k ks payload c)
  let ?keys = "map he_handler (Dispatch (\<lambda>_ r. r) (ucast (payload ! 4)) (cl_router c))"
  define first where "first = (if k = handler_embedded then
      (if length payload < 5 then Inr c
       else if length (drop 5 payload) \<ge> 4 \<and> (from_le (take 4 (drop 5 payload)) :: u32) = PeerSearchResponse
       then handleSearchResponse decompress (drop 5 payload) c
       else run_handlers decompress other ?keys (drop 5 payload) c)
    else if k = handler_ping then handlePing c
    else if k = handler_connectToPeer then Inr (handleConnectToPeer payload c)
    else Inr (other k payload c))"
  have run: "run_handlers decompress other (k # ks) payload c =
     (case first of Inl panic \<Rightarrow> Inl panic | Inr c \<Rightarrow> run_handlers decompress other ks payload c)"
    by (simp only: run_handlers.simps first_def Let_def)
  have nested: "\<exists>c'. run_handlers decompress other ?keys (drop 5 payload) c = Inr c' \<and> keeps_session c c'"
    if "k = handler_embedded" "\<not> length payload < 5"
      "\<not> (length (drop 5 payload) \<ge> 4 \<and> (from_le (take 4 (drop 5 payload)) :: u32) = PeerSearchResponse)"
    using 2(1) [OF that(1,2) refl refl that(3)] 2(3-) by blast
  have "\<exists>c1. first = Inr c1 \<and> keeps_session c c1"
    unfolding first_def using nested 2(3) handlePing_keeps [OF 2(5)] handleSearchResponse_keeps [OF 2(4)] handleConnectToPeer_keeps by simp
  then obtain c1 where c1: "first = Inr c1" "keeps_session c c1" by blast
  then have "client_ok c1" "cl_conn c1 \<noteq> None" using 2(4,5) by (auto simp: keeps_session_def)
  with 2(2) [unfolded Let_def, folded first_def, OF c1(1)] 2(3) obtain c2 where
    "run_handlers decompress other ks payload c1 = Inr c2" "keeps_session c1 c2" by blast
  then show ?case using run c1 keeps_session_trans by auto
qed


text \<open>The loop has announced that the connection is lost.\<close>

definition announced :: "Client \<Rightarrow> bool" where
  "announced c \<longleftrightarrow> \<not> cl_connected c \<and> \<not> cl_loggedIn c \<and> \<not> cl_running c \<and> cl_disconnectErr c \<noteq> None \<and>
     (\<exists>ch. cl_disconnectedCh c = Some ch \<and> ch_closed ch) \<and> srg_searches (cl_searches c) = []"

lemma closeAll_empties: "search_ok r \<Longrightarrow> \<exists>r'. closeAll r = Inr r' \<and> srg_searches r' = []"
  using close_searches_all by (fastforce simp: closeAll_def)

lemma read_failed_announces:
  assumes "client_ok c" "cl_disconnectedCh c = Some ch" "\<not> ch_closed ch"
  shows "\<exists>c'. read_failed err c = Inr c' \<and> announced c' \<and> cl_doneCh c' = cl_doneCh c"
proof -
  from closeAll_empties assms(1) obtain r where "closeAll (cl_searches c) = Inr r" "srg_searches r = []" by (auto simp: client_ok_def)
  then show ?thesis using assms(2,3) by (simp add: read_failed_def announced_def close_chan_def Let_def)
qed

definition done_open :: "Client \<Rightarrow> bool" where
  "done_open c \<longleftrightarrow> (\<exists>ch. cl_doneCh c = Some ch \<and> \<not> ch_closed ch)"

definition done_closed :: "Client \<Rightarrow> bool" where
  "done_closed c \<longleftrightarrow> (\<exists>ch. cl_doneCh c = Some ch \<and> ch_closed ch)"

lemma close_done_open:
  assumes "done_open c"
  shows "\<exists>c'. close_done c = Inr c' \<and> done_closed c' \<and> announced c' = announced c \<and> cl_stopCh c' = cl_stopCh c"
  using assms by (auto simp: done_open_def done_closed_def close_done_def close_chan_def announced_def)

lemma server_read_cases:
  assumes "cl_conn c = Some k"
  obtains err k' where "server_read c = Inr (Inl err, c\<lparr>cl_conn := Some k'\<rparr>)"
    | payload k' where "server_read c = Inr (Inr payload, c\<lparr>cl_conn := Some k'\<rparr>)" "length (stream k') < length (stream k)"
proof -
  obtain x k' where r: "ReadMessage k = (x, k')" by fastforce
  then show thesis using that assms ReadMessage_shrinks by (cases x) (auto simp: server_read_def)
qed

lemma read_loop_returns:
  assumes other: "\<And>k p c. keeps_session c (other k p c)"
    and "client_ok c" "cl_conn c = Some k" "cl_disconnectedCh c = Some ch" "\<not> ch_closed ch" "done_open c"
  shows "\<exists>c'. runReadLoop decompress other c = Some (Inr c') \<and> done_closed c' \<and> (loop_stopped c' \<or> announced c')"
  using assms(2-)
proof (induction "length (stream k)" arbitrary: c k rule: less_induct)
  case (less k c)
  note prems = less.prems
  show ?case
  proof (cases "loop_stopped c")
    case True
    then show ?thesis using close_done_open [OF prems(5)] by (subst runReadLoop.simps) (auto simp: loop_stopped_def)
  next
    case False
    from prems(2) show ?thesis
    proof (cases rule: server_read_cases)
      case (1 err k')
      let ?c = "c\<lparr>cl_conn := Some k'\<rparr>"
      have "client_ok ?c" "cl_disconnectedCh ?c = Some ch" using prems(1,3) by (simp_all add: client_ok_def)
      from read_failed_announces [OF this prems(4), of err] obtain c1 where
        c1: "read_failed err ?c = Inr c1" "announced c1" "cl_doneCh c1 = cl_doneCh c" by auto
      then have "done_open c1" using prems(5) by (simp add: done_open_def)
      from close_done_open [OF this] c1(2) obtain c2 where "close_done c1 = Inr c2" "done_closed c2" "announced c2" by blast
      then show ?thesis using False 1 c1(1) by (subst runReadLoop.simps) (simp add: loop_read_def)
    next
      case (2 payload k')
      let ?c = "c\<lparr>cl_conn := Some k'\<rparr>"
      have ok: "client_ok ?c" "cl_conn ?c \<noteq> None" using prems(1) by (simp_all add: client_ok_def)
      obtain c1 where step: "loop_read decompress other c = Inr (True, c1)" and c1: "keeps_session ?c c1"
      proof (cases "length payload < 4")
        case True
        then show thesis using that 2(1) by (simp add: loop_read_def)
      next
        case False
        from run_handlers_keep [where other = other, OF other ok, of decompress] obtain c1 where
          "dispatch_message decompress other (from_le (take 4 payload)) payload ?c = Inr c1" "keeps_session ?c c1"
          unfolding dispatch_message_def by blast
        then show thesis using that [of c1] 2(1) False by (simp add: loop_read_def)
      qed
      then obtain k1 where k1: "cl_conn c1 = Some k1" "c_in k1 = c_in k'" by (auto simp: keeps_session_def)
      then have "length (stream k1) < length (stream k)" using 2(2) by simp
      moreover have "client_ok c1" "cl_disconnectedCh c1 = Some ch" "done_open c1"
        using c1 ok(1) prems(3,5) by (simp_all add: keeps_session_def done_open_def)
      ultimately show ?thesis using less.hyps [of k1 c1] k1(1) prems(4) False step by (subst runReadLoop.simps) simp
    qed
  qed
qed

text \<open>
  C7: The read loop ends, and says so. Whatever the server sends, in whatever segments, until its connection ends: with handlers
  of callers that leave the session's channels alone, the loop returns, none of the client's own handlers panics, and \<^verbatim>\<open>doneCh\<close> is
  closed. Unless it was told to stop, the loop has recorded the error, the client is disconnected and logged out,
  \<^verbatim>\<open>Disconnected()\<close> is closed, and no search is left open. (An embedded message may contain an embedded message: each level
  is at least five bytes shorter, so dispatching ends, too.)
\<close>

theorem read_loop_ends:
  assumes "\<And>k p c. keeps_session c (other k p c)"
    and "client_ok c" "cl_conn c = Some k" "cl_disconnectedCh c = Some ch" "\<not> ch_closed ch" "done_open c"
  shows "\<exists>c'. runReadLoop decompress other c = Some (Inr c') \<and> done_closed c' \<and>
     (loop_stopped c' \<or> \<not> Connected c' \<and> \<not> LoggedIn c' \<and> DisconnectError c' \<noteq> None \<and>
        (\<exists>ch'. Disconnected c' = Some ch' \<and> ch_closed ch') \<and> srg_searches (cl_searches c') = [])"
  using read_loop_returns [where other = other, OF assms] unfolding announced_def Connected_def LoggedIn_def DisconnectError_def Disconnected_def by blast


theorem read_loop_ends_witness:
  "\<exists>c'. runReadLoop Inr (\<lambda>k p c. c) ((New None)\<lparr>cl_conn := Some (NewConn [[5, 0, 0, 0, 93, 0], [0, 0, 1]] EOF), cl_connected := True,
       cl_disconnectedCh := Some (make_chan 0), cl_doneCh := Some (make_chan 0)\<rparr>) = Some (Inr c') \<and> done_closed c'"
proof -
  let ?k = "NewConn [[5, 0, 0, 0, 93, 0], [0, 0, 1]] EOF"
  let ?c = "(New None)\<lparr>cl_conn := Some ?k, cl_connected := True, cl_disconnectedCh := Some (make_chan 0), cl_doneCh := Some (make_chan 0)\<rparr>"
  have "client_ok ?c" "cl_conn ?c = Some ?k" "cl_disconnectedCh ?c = Some (make_chan 0)" "\<not> ch_closed (make_chan 0)" "done_open ?c"
    using client_ok_New [of None] by (simp_all add: client_ok_def done_open_def make_chan_def)
  from read_loop_ends [where other = "\<lambda>k p c. c", OF keeps_session_refl this, of Inr] show ?thesis by blast
qed


section \<open>Disconnecting and logging in again\<close>

text \<open>The parts of the client that a login attempt leaves alone until it succeeds.\<close>

definition same_session :: "Client \<Rightarrow> Client \<Rightarrow> bool" where
  "same_session c c' \<longleftrightarrow> cl_running c' = cl_running c \<and> cl_uploadProc c' = cl_uploadProc c \<and> cl_doneCh c' = cl_doneCh c \<and>
     cl_connected c' = cl_connected c \<and> cl_searches c' = cl_searches c \<and> cl_slots c' = cl_slots c \<and> cl_router c' = cl_router c \<and>
     cl_stopCh c' = cl_stopCh c \<and> cl_disconnectedCh c' = cl_disconnectedCh c \<and> cl_started c' = cl_started c \<and>
     cl_transfers c' = cl_transfers c \<and> cl_queueMgr c' = cl_queueMgr c \<and>
     (cl_conn c' = None \<longleftrightarrow> cl_conn c = None)"

lemma same_session_refl [simp]: "same_session c c"
  by (simp add: same_session_def)

lemma same_session_trans: "same_session c c' \<Longrightarrow> same_session c' c'' \<Longrightarrow> same_session c c''"
  by (simp add: same_session_def)

lemma server_write_same: "server_write p c = Inr (e, c') \<Longrightarrow> same_session c c'"
  by (auto simp: server_write_def same_session_def split: option.splits prod.splits)

lemma server_read_same: "server_read c = Inr (x, c') \<Longrightarrow> same_session c c'"
  by (auto simp: server_read_def same_session_def split: option.splits prod.splits)

lemma logged_in_same: "same_session c (logged_in u resp c)"
  by (simp add: same_session_def logged_in_def)

lemma sendPostLoginConfig_same: "sendPostLoginConfig c = Inr (e, c') \<Longrightarrow> same_session c c'"
  unfolding sendPostLoginConfig_def Let_def
  by (auto split: option.splits sum.splits prod.splits dest!: server_write_same intro: same_session_trans)

lemma Login_cases:
  assumes "Login md5_Sum grow u p c = Inr (e, c')"
  shows "e \<noteq> None \<and> same_session c c' \<or> e = None \<and> (\<exists>d. same_session c d \<and> c' = start_session grow d)"
proof (cases "cl_connected c \<and> \<not> cl_loggedIn c")
  case False
  then show ?thesis using assms by (auto simp: Login_def split: if_splits)
next
  case True
  let ?m = "login_payload md5_Sum u p (opt_ListenPort (cl_opts c))"
  note run = assms [unfolded Login_def Let_def login_buffer option.case, folded logged_in_def start_session_def]
  from True run obtain e1 c1 where c1: "server_write ?m c = Inr (e1, c1)" by (cases "server_write ?m c") auto
  note s1 = server_write_same [OF c1]
  show ?thesis
  proof (cases e1)
    case (Some err)
    then show ?thesis using True run c1 s1 by auto
  next
    case None
    with True run c1 obtain x c2 where c2: "server_read c1 = Inr (x, c2)" by (cases "server_read c1") auto
    note s2 = same_session_trans [OF s1 server_read_same [OF c2]]
    show ?thesis
    proof (cases "\<exists>payload resp. x = Inr payload \<and> fst (run_state DecodeLoginResponse (NewReader payload)) = Inr resp \<and> lresp_Succeeded resp")
      case False
      then show ?thesis using True run c1 c2 None s2 by (auto split: sum.splits)
    next
      case ok: True
      then obtain payload resp where r: "x = Inr payload" "fst (run_state DecodeLoginResponse (NewReader payload)) = Inr resp" "lresp_Succeeded resp"
        by blast
      then have "(case sendPostLoginConfig (logged_in u resp c2) of
          Inl panic \<Rightarrow> Inl panic
        | Inr (Some err, c) \<Rightarrow> Inr (Some (WrapError ''post-login config'' err), c)
        | Inr (None, c) \<Rightarrow> Inr (None, start_session grow c)) = Inr (e, c')"
        using True run c1 c2 None by (simp add: logged_in_def start_session_def)
      then obtain e3 c3 where c3: "sendPostLoginConfig (logged_in u resp c2) = Inr (e3, c3)"
        and res: "(case e3 of Some err \<Rightarrow> Inr (Some (WrapError ''post-login config'' err), c3) | None \<Rightarrow> Inr (None, start_session grow c3)) = (Inr (e, c') :: go_panic + _)"
        by (auto split: sum.splits option.splits prod.splits)
      have "same_session c c3" using same_session_trans [OF same_session_trans [OF s2 logged_in_same] sendPostLoginConfig_same [OF c3]] .
      with res show ?thesis by (cases e3) auto
    qed
  qed
qed


lemma processNextUpload_proc: "processNextUpload now c = Inr c' \<Longrightarrow> cl_uploadProc c' = cl_uploadProc c"
  by (auto simp: processNextUpload_def Let_def split: list.splits option.splits sum.splits if_splits)

lemma uploadProcessor_run_closed:
  assumes "ch_closed (upr_doneCh (cl_uploadProc c))"
  shows "\<exists>panic. uploadProcessor_run ticks c = Inl panic"
  using assms
proof (induction ticks arbitrary: c)
  case Nil
  then show ?case by (simp add: close_chan_def Let_def)
next
  case (Cons now ticks)
  then show ?case using processNextUpload_proc [of now c] by (cases "processNextUpload now c") auto
qed

lemma close_cached_fields:
  "cl_uploadProc (close_cached hs c) = cl_uploadProc c" "cl_slots (close_cached hs c) = cl_slots c" "cl_doneCh (close_cached hs c) = cl_doneCh c"
  by (induction hs c rule: close_cached.induct) (simp_all add: close_conn_def with_conn_def)

lemma close_cached_flags: "cl_connected (close_cached hs c) = cl_connected c" "cl_loggedIn (close_cached hs c) = cl_loggedIn c"
  by (induction hs c rule: close_cached.induct) (simp_all add: close_conn_def with_conn_def)

lemma disconnect_state_fields:
  assumes "disconnect_state c = Inr c'"
  shows "cl_uploadProc c' = cl_uploadProc c" "cl_slots c' = cl_slots c" "cl_doneCh c' = cl_doneCh c" "cl_searches c' = cl_searches c"
    "cl_conn c' = None" "\<not> cl_connected c'"
  using assms by (auto simp: disconnect_state_def split: if_splits option.splits sum.splits)

text \<open>A client whose upload processor runs is disconnected only after the processor has closed \<^verbatim>\<open>doneCh\<close>.\<close>

lemma Disconnect_stops_processor:
  assumes "cl_connected c" "upr_started (cl_uploadProc c)" "\<not> upr_stopped (cl_uploadProc c)"
    "Disconnect waitProc waitLoop c = Some (Inr c1)"
    "\<And>d. ch_closed (upr_doneCh (cl_uploadProc d)) \<Longrightarrow> ch_closed (upr_doneCh (cl_uploadProc (waitLoop d)))"
  shows "ch_closed (upr_doneCh (cl_uploadProc c1))"
proof -
  note run = assms(4) [unfolded Disconnect_def Let_def]
  from run assms(1) obtain d where d: "disconnect_state c = Inr d" by (cases "disconnect_state c") auto
  note df = disconnect_state_fields [OF d]
  from run assms(1) d obtain r where r: "closeAll (cl_searches d) = Inr r" by (cases "closeAll (cl_searches d)") auto
  let ?d = "peerConn_Close (d\<lparr>cl_searches := r\<rparr>)"
  have "upr_started (cl_uploadProc ?d)" "\<not> upr_stopped (cl_uploadProc ?d)"
    using assms(2,3) df(1) by (simp_all add: peerConn_Close_def close_cached_fields)
  then have "\<exists>e. uploadProcessor_Stop ?d = Inr (True, e)" if "uploadProcessor_Stop ?d = Inr x" for x
    using that by (auto simp: uploadProcessor_Stop_def Let_def split: if_splits sum.splits)
  with run assms(1) d r obtain e where e: "uploadProcessor_Stop ?d = Inr (True, e)" by (cases "uploadProcessor_Stop ?d") auto
  with run assms(1) d r have closed: "ch_closed (upr_doneCh (cl_uploadProc (waitProc e)))" by (auto split: if_splits)
  with run assms(1) d r e obtain s where s: "SlotManager_Close (cl_slots (waitProc e)) = Inr s" by (auto split: sum.splits)
  have "c1 = waitLoop ((waitProc e)\<lparr>cl_slots := s\<rparr>)" using run assms(1) d r e closed s by (auto split: option.splits if_splits)
  then show ?thesis using assms(5) closed by simp
qed

text \<open>
  C17: A client can be used for one session only. When a logged-in client is disconnected (the call returns, so its upload processor has
  closed \<^verbatim>\<open>doneCh\<close>) and then connected and logged in again, the second login succeeds and starts the same upload processor again.
  Its stop channel is still closed, and however many ticks it handles first, closing \<^verbatim>\<open>doneCh\<close> a second time panics and takes
  the program down.
\<close>

theorem second_session_panics:
  assumes "cl_connected c" "upr_started (cl_uploadProc c)" "\<not> upr_stopped (cl_uploadProc c)"
    and "Disconnect waitProc waitLoop c = Some (Inr c1)"
    and "\<And>d. ch_closed (upr_doneCh (cl_uploadProc d)) \<Longrightarrow> ch_closed (upr_doneCh (cl_uploadProc (waitLoop d)))"
    and "Connect dial c1 = (None, c2)" "Login md5_Sum grow username password c2 = Inr (None, c3)"
  shows "Go_uploadProcessor \<in> set (cl_started c3) \<and> (\<exists>panic. uploadProcessor_run ticks c3 = Inl panic)"
proof -
  have "ch_closed (upr_doneCh (cl_uploadProc c1))" using Disconnect_stops_processor [OF assms(1-5)] .
  moreover have "cl_uploadProc c2 = cl_uploadProc c1" using assms(6) by (auto simp: Connect_def split: if_splits sum.splits)
  moreover obtain d where "same_session c2 d" "c3 = start_session grow d" using Login_cases [OF assms(7)] by blast
  ultimately have "ch_closed (upr_doneCh (cl_uploadProc c3))" "Go_uploadProcessor \<in> set (cl_started c3)"
    by (simp_all add: same_session_def start_session_fields)
  then show ?thesis using uploadProcessor_run_closed by blast
qed


lemma login_accepted:
  assumes "online k c" "cl_connected c" "\<not> cl_loggedIn c"
    and "stream k = frame (wire_LoginSucceeded greeting [ip1, ip2, ip3, ip4] hash supporter) @ rest" "string_ok greeting" "string_ok hash"
  shows "\<exists>c' k'. Login md5_Sum grow u p c = Inr (None, c') \<and> online k' c'"
proof -
  have "length (wire_LoginSucceeded greeting [ip1, ip2, ip3, ip4] hash supporter) \<le> maxMessageSize"
    using assms(5,6) by (simp add: length_LoginSucceeded)
  from Login_answered [OF assms(1-4) this decode_LoginSucceeded [OF assms(5,6), of _ _ _ _ _ "[]", simplified], of md5_Sum u p grow]
  obtain k1 and resp :: LoginResponse where k1: "online k1 (c\<lparr>cl_conn := Some k1\<rparr>)" and
    run: "Login md5_Sum grow u p c = (case sendPostLoginConfig (logged_in u resp (c\<lparr>cl_conn := Some k1\<rparr>)) of
        Inl panic \<Rightarrow> Inl panic
      | Inr (Some err, c) \<Rightarrow> Inr (Some (WrapError ''post-login config'' err), c)
      | Inr (None, c) \<Rightarrow> Inr (None, start_session grow c))" by (auto simp del: append_Nil2)
  have "online k1 (logged_in u resp (c\<lparr>cl_conn := Some k1\<rparr>))" using k1 by (simp add: online_def logged_in_def)
  from sendPostLoginConfig_online [OF this] run show ?thesis by (auto simp: online_def start_session_fields)
qed

text \<open>The processor without a tick, and the read loop told to stop: what \<^verbatim>\<open>Disconnect\<close> waits for.\<close>

definition proc_exits :: "Client \<Rightarrow> Client" where
  "proc_exits c = (case uploadProcessor_run [] c of Inr c' \<Rightarrow> c' | Inl panic \<Rightarrow> c)"

definition loop_exits :: "Client \<Rightarrow> Client" where
  "loop_exits c = (case close_done c of Inr c' \<Rightarrow> c' | Inl panic \<Rightarrow> c)"

lemma demo_login:
  assumes "Connect demo_server c = (None, c')" "\<not> cl_loggedIn c"
  shows "\<exists>c'' k. Login (\<lambda>_. []) (\<lambda>n. n) ''me'' ''pw'' c' = Inr (None, c'') \<and> online k c''"
proof -
  let ?k = "NewConn [frame (wire_LoginSucceeded ''hi'' [1, 2, 3, 4] '''' False)] EOF"
  have "online ?k c'" "cl_connected c'" "\<not> cl_loggedIn c'"
    using assms by (auto simp: Connect_def demo_server_def online_def NewConn_def split: if_splits)
  moreover have "stream ?k = frame (wire_LoginSucceeded ''hi'' [1, 2, 3, 4] '''' False) @ []" "string_ok ''hi''" "string_ok ''''"
    by (simp_all add: NewConn_def string_ok_def maxStringLength_def)
  ultimately show ?thesis by (rule login_accepted)
qed


lemma demo_session:
  assumes "Login (\<lambda>_. []) (\<lambda>n. n) ''me'' ''pw'' demo_connected = Inr (None, c)"
  shows "cl_connected c" "cl_uploadProc c = newUploadProcessor\<lparr>upr_started := True\<rparr>"
    "\<exists>c1. Disconnect proc_exits loop_exits c = Some (Inr c1) \<and> \<not> cl_connected c1 \<and> \<not> cl_loggedIn c1"
proof -
  from Login_cases [OF assms] obtain d where d: "same_session demo_connected d" "c = start_session (\<lambda>n. n) d" by blast
  have fields: "cl_connected c" "cl_running c" "cl_stopCh c = Some (make_chan 0)" "cl_doneCh c = Some (make_chan 0)" "cl_conn c \<noteq> None"
    "cl_searches c = newSearchRegistry" "cl_slots c = NewSlotManager 10 10" "cl_uploadProc c = newUploadProcessor\<lparr>upr_started := True\<rparr>"
    using d(1) unfolding d(2) start_session_fields same_session_def demo_connected_def Connect_def demo_server_def
    by (simp_all add: start_session_fields New_defs DefaultOptions_def DefaultMaxConcurrentDownloads_def DefaultMaxConcurrentUploads_def)
  then show "cl_connected c" "cl_uploadProc c = newUploadProcessor\<lparr>upr_started := True\<rparr>" by simp_all
  obtain e where e: "disconnect_state c = Inr e" "\<not> cl_connected e" "\<not> cl_loggedIn e"
    using fields(2,3,5) by (auto simp: disconnect_state_def close_chan_def make_chan_def)
  note ef = disconnect_state_fields [OF e(1)]
  let ?r = newSearchRegistry
  let ?e = "peerConn_Close (e\<lparr>cl_searches := ?r\<rparr>)"
  have r: "closeAll (cl_searches e) = Inr ?r" using ef(4) fields(6) by (simp add: closeAll_def newSearchRegistry_def)
  have proc: "cl_uploadProc ?e = newUploadProcessor\<lparr>upr_started := True\<rparr>" "cl_slots ?e = NewSlotManager 10 10" "cl_doneCh ?e = Some (make_chan 0)"
    using ef fields by (simp_all add: peerConn_Close_def close_cached_fields)
  have flags: "\<not> cl_connected ?e" "\<not> cl_loggedIn ?e" using e(2,3) by (simp_all add: peerConn_Close_def close_cached_flags)
  obtain f where f: "uploadProcessor_Stop ?e = Inr (True, f)" "cl_slots f = NewSlotManager 10 10" "cl_doneCh f = Some (make_chan 0)"
    "\<not> ch_closed (upr_doneCh (cl_uploadProc f))" "\<not> cl_connected f" "\<not> cl_loggedIn f"
    using proc flags by (auto simp: uploadProcessor_Stop_def newUploadProcessor_def close_chan_def make_chan_def Let_def)
  have g: "ch_closed (upr_doneCh (cl_uploadProc (proc_exits f)))" "cl_slots (proc_exits f) = NewSlotManager 10 10"
    "cl_doneCh (proc_exits f) = Some (make_chan 0)" "\<not> cl_connected (proc_exits f)" "\<not> cl_loggedIn (proc_exits f)"
    using f by (simp_all add: proc_exits_def close_chan_def Let_def)
  obtain s where s: "SlotManager_Close (NewSlotManager 10 10) = Inr s"
    by (simp add: SlotManager_Close_def NewSlotManager_def close_chan_def make_chan_def)
  let ?g = "loop_exits ((proc_exits f)\<lparr>cl_slots := s\<rparr>)"
  have h: "\<exists>ch. cl_doneCh ?g = Some ch \<and> ch_closed ch" "\<not> cl_connected ?g" "\<not> cl_loggedIn ?g"
    using g by (simp_all add: loop_exits_def close_done_def close_chan_def make_chan_def)
  then have "Disconnect proc_exits loop_exits c = Some (Inr ?g)"
    using fields(1) e(1) r f(1) g(1,2) s by (auto simp: Disconnect_def Let_def)
  with h show "\<exists>c1. Disconnect proc_exits loop_exits c = Some (Inr c1) \<and> \<not> cl_connected c1 \<and> \<not> cl_loggedIn c1" by blast
qed

theorem second_session_panics_witness:
  "\<exists>c c1 c2 c3 panic. Login (\<lambda>_. []) (\<lambda>n. n) ''me'' ''pw'' demo_connected = Inr (None, c) \<and>
     Disconnect proc_exits loop_exits c = Some (Inr c1) \<and> Connect demo_server c1 = (None, c2) \<and>
     Login (\<lambda>_. []) (\<lambda>n. n) ''me'' ''pw'' c2 = Inr (None, c3) \<and> uploadProcessor_run [] c3 = Inl panic"
proof -
  have "Connect demo_server (New None) = (None, demo_connected)" by (simp add: demo_connected_def Connect_def demo_server_def)
  from demo_login [OF this] obtain c where c: "Login (\<lambda>_. []) (\<lambda>n. n) ''me'' ''pw'' demo_connected = Inr (None, c)" by auto
  note s = demo_session [OF c]
  from s(3) obtain c1 where c1: "Disconnect proc_exits loop_exits c = Some (Inr c1)" "\<not> cl_connected c1" "\<not> cl_loggedIn c1" by blast
  then obtain c2 where c2: "Connect demo_server c1 = (None, c2)" by (simp add: Connect_def demo_server_def)
  from demo_login [OF c2 c1(3)] obtain c3 where c3: "Login (\<lambda>_. []) (\<lambda>n. n) ''me'' ''pw'' c2 = Inr (None, c3)" by blast
  have started: "upr_started (cl_uploadProc c)" "\<not> upr_stopped (cl_uploadProc c)" using s(2) by (simp_all add: newUploadProcessor_def)
  have keeps: "ch_closed (upr_doneCh (cl_uploadProc (loop_exits d)))" if "ch_closed (upr_doneCh (cl_uploadProc d))" for d
    using that by (simp add: loop_exits_def close_done_def split: sum.splits option.splits)
  from second_session_panics [OF s(1) started c1(1) keeps c2 c3] c c1(1) c2 c3 show ?thesis by blast
qed


text \<open>Where nothing was started, nothing will close the channel \<^verbatim>\<open>Disconnect\<close> waits for.\<close>

lemma Disconnect_unstarted:
  assumes "cl_connected c" "\<not> cl_running c" "\<not> upr_started (cl_uploadProc c)" "search_ok (cl_searches c)"
    "\<not> sm_closed (cl_slots c) \<longrightarrow> \<not> ch_closed (sm_closedCh (cl_slots c))" "cl_doneCh c = Some (make_chan 0)" "cl_conn c \<noteq> None"
    "\<And>d. cl_doneCh (waitLoop d) = cl_doneCh d"
  shows "Disconnect waitProc waitLoop c = None"
proof -
  obtain e where e: "disconnect_state c = Inr e" using assms(2,7) by (auto simp: disconnect_state_def)
  note ef = disconnect_state_fields [OF e]
  from closeAll_empties [OF assms(4)] obtain r where r: "closeAll (cl_searches e) = Inr r" using ef(4) by auto
  let ?e = "peerConn_Close (e\<lparr>cl_searches := r\<rparr>)"
  have stop: "uploadProcessor_Stop ?e = Inr (False, ?e)"
    using ef(1) assms(3) by (simp add: uploadProcessor_Stop_def peerConn_Close_def close_cached_fields)
  obtain s where s: "SlotManager_Close (cl_slots ?e) = Inr s"
    using assms(5) ef(2) by (cases "sm_closed (cl_slots c)") (auto simp: peerConn_Close_def close_cached_fields SlotManager_Close_def close_chan_def)
  have "cl_doneCh ?e = Some (make_chan 0)" using ef(3) assms(6) by (simp add: peerConn_Close_def close_cached_fields)
  then show ?thesis using assms(1) e r stop s assms(8) by (simp add: Disconnect_def Let_def make_chan_def)
qed

text \<open>
  C18: Disconnecting without a login never returns. After \<^verbatim>\<open>Connect\<close>, and also after any number of failed logins on that connection, no
  read loop has been started, so nothing will ever close \<^verbatim>\<open>doneCh\<close>; but \<^verbatim>\<open>Disconnect\<close> waits for it. So the call does not
  return, although it has closed the connection by then.
\<close>

theorem disconnect_before_login_hangs:
  assumes "Connect dial c = (None, c1)" "\<not> cl_running c" "\<not> upr_started (cl_uploadProc c)"
    and "search_ok (cl_searches c)" "\<not> sm_closed (cl_slots c) \<longrightarrow> \<not> ch_closed (sm_closedCh (cl_slots c))"
    and "(\<lambda>c c'. \<exists>md5_Sum grow u p err. Login md5_Sum grow u p c = Inr (Some err, c'))\<^sup>*\<^sup>* c1 c2"
    and "\<And>d. cl_doneCh (waitLoop d) = cl_doneCh d"
  shows "cl_started c2 = cl_started c \<and> Disconnect waitProc waitLoop c2 = None"
proof -
  have c1: "cl_connected c1" "\<not> cl_running c1" "cl_uploadProc c1 = cl_uploadProc c" "cl_searches c1 = cl_searches c" "cl_slots c1 = cl_slots c"
    "cl_doneCh c1 = Some (make_chan 0)" "cl_conn c1 \<noteq> None" "cl_started c1 = cl_started c"
    using assms(1,2) by (auto simp: Connect_def split: if_splits sum.splits)
  have "same_session c1 c2" using assms(6)
  proof (induction rule: rtranclp_induct)
    case (step d d')
    then show ?case using Login_cases same_session_trans by blast
  qed simp
  then have c2: "cl_connected c2" "\<not> cl_running c2" "cl_uploadProc c2 = cl_uploadProc c" "cl_searches c2 = cl_searches c" "cl_slots c2 = cl_slots c"
    "cl_doneCh c2 = Some (make_chan 0)" "cl_conn c2 \<noteq> None" "cl_started c2 = cl_started c"
    using c1 by (simp_all add: same_session_def)
  have "Disconnect waitProc waitLoop c2 = None" using Disconnect_unstarted [OF c2(1,2)] c2 assms(3-5,7) by simp
  with c2(8) show ?thesis by simp
qed

theorem disconnect_before_login_hangs_witness:
  "Disconnect id id demo_connected = None"
proof -
  have "Connect demo_server (New None) = (None, demo_connected)" by (simp add: demo_connected_def Connect_def demo_server_def)
  moreover have "\<not> cl_running (New None)" "\<not> upr_started (cl_uploadProc (New None))" "search_ok (cl_searches (New None))"
    "\<not> sm_closed (cl_slots (New None)) \<longrightarrow> \<not> ch_closed (sm_closedCh (cl_slots (New None)))"
    using client_ok_New [of None] by (simp_all add: client_ok_def) (simp_all add: New_defs newUploadProcessor_def NewSlotManager_def make_chan_def)
  ultimately show ?thesis using disconnect_before_login_hangs [OF _ _ _ _ _ rtranclp.rtrancl_refl] by simp
qed

section \<open>Answering pings\<close>

lemma run_pings:
  assumes "online k c"
  shows "\<exists>c' k'. run_handlers decompress other (replicate n handler_ping) payload c = Inr c' \<and> online k' c' \<and>
     c_out k' = c_out k @ concat (replicate n (frame (le_bytes 4 ServerPing)))"
  using assms
proof (induction n arbitrary: k c)
  case 0
  then show ?case by (auto simp: run_handlers.simps)
next
  case (Suc n)
  from server_write_online [OF Suc.prems, of "le_bytes 4 ServerPing"] obtain k1 where
    k1: "server_write (le_bytes 4 ServerPing) c = Inr (None, c\<lparr>cl_conn := Some k1\<rparr>)" "online k1 (c\<lparr>cl_conn := Some k1\<rparr>)"
      "c_out k1 = c_out k @ frame (le_bytes 4 ServerPing)" by blast
  have "run_handlers decompress other (replicate (Suc n) handler_ping) payload c =
      run_handlers decompress other (replicate n handler_ping) payload (c\<lparr>cl_conn := Some k1\<rparr>)"
    using k1(1) by (simp add: run_handlers.simps handlePing_def wire_simps handler_ping_def handler_embedded_def)
  with Suc.IH [OF k1(2)] k1(3) show ?case by auto
qed

lemma dispatch_keys: "router_ok (cl_router c) \<Longrightarrow> dispatch_message decompress other code payload c = run_handlers decompress other (handler_keys code c) payload c"
  by (simp add: dispatch_message_def handler_keys_def Dispatch_quiet)


lemma login_keys:
  assumes "Login md5_Sum grow u p c = Inr (None, c')" "router_ok (cl_router c)" "unat (rt_counter (cl_router c)) + 3 < 2 ^ 64"
  shows "router_ok (cl_router c')" "handler_keys code c' = handler_keys code c @ own_handlers code"
proof -
  from Login_cases [OF assms(1)] obtain d where d: "same_session c d" "c' = start_session grow d" by blast
  then have "cl_router d = cl_router c" by (simp add: same_session_def)
  with registerInternalHandlers_keys [of d] assms(2,3) d(2)
  show "router_ok (cl_router c')" "handler_keys code c' = handler_keys code c @ own_handlers code"
    by (simp_all add: start_session_fields handler_keys_def)
qed

lemma read_failed_router: "read_failed err c = Inr c' \<Longrightarrow> cl_router c' = cl_router c"
  by (auto simp: read_failed_def Let_def split: option.splits sum.splits)

lemma Connect_router: "Connect dial c = (e, c') \<Longrightarrow> cl_router c' = cl_router c"
  by (auto simp: Connect_def split: if_splits sum.splits)

text \<open>
  C21: Reconnecting doubles the handlers. When the server's connection is lost, nothing unregisters the client's handlers, and the next
  login registers them again. So a client that answered a ping \<open>n\<close> times answers it \<open>n + 1\<close> times after it has reconnected, and the
  other two handlers run that often, too.
\<close>

theorem reconnect_duplicates_handlers:
  assumes "router_ok (cl_router c)" "unat (rt_counter (cl_router c)) + 3 < 2 ^ 64" "handler_keys ServerPing c = replicate n handler_ping"
    and "read_failed err c = Inr c1" "Connect dial c1 = (None, c2)" "Login md5_Sum grow username password c2 = Inr (None, c3)" "online k c3"
  shows "(\<forall>code. handler_keys code c3 = handler_keys code c @ own_handlers code) \<and>
     (\<exists>c' k'. dispatch_message decompress other ServerPing payload c3 = Inr c' \<and> cl_conn c' = Some k' \<and>
        c_out k' = c_out k @ concat (replicate (n + 1) (frame (le_bytes 4 ServerPing))))"
proof -
  have r: "cl_router c2 = cl_router c" using read_failed_router [OF assms(4)] Connect_router [OF assms(5)] by simp
  then have "router_ok (cl_router c2)" "unat (rt_counter (cl_router c2)) + 3 < 2 ^ 64" using assms(1,2) by simp_all
  note keys = login_keys [OF assms(6) this]
  have all: "handler_keys code c3 = handler_keys code c @ own_handlers code" for code
    using keys(2) [of code] handler_keys_cong [OF r] by simp
  have "own_handlers ServerPing = [handler_ping]" using handler_codes_distinct by (simp add: own_handlers_def)
  then have "handler_keys ServerPing c3 = replicate (n + 1) handler_ping" using all [of ServerPing] assms(3) by (simp add: replicate_append_same)
  with run_pings [OF assms(7), of decompress other "n + 1" payload] dispatch_keys [OF keys(1), of decompress other ServerPing payload] all
  show ?thesis by (auto simp: online_def)
qed

theorem reconnect_duplicates_handlers_witness:
  "\<exists>c c1 c2 c3 c' k k'. Login (\<lambda>_. []) (\<lambda>n. n) ''me'' ''pw'' demo_connected = Inr (None, c) \<and> read_failed EOF c = Inr c1 \<and>
     Connect demo_server c1 = (None, c2) \<and> Login (\<lambda>_. []) (\<lambda>n. n) ''me'' ''pw'' c2 = Inr (None, c3) \<and> cl_conn c3 = Some k \<and>
     dispatch_message Inr (\<lambda>k p c. c) ServerPing [] c3 = Inr c' \<and> cl_conn c' = Some k' \<and>
     c_out k' = c_out k @ frame (le_bytes 4 ServerPing) @ frame (le_bytes 4 ServerPing)"
proof -
  have "Connect demo_server (New None) = (None, demo_connected)" by (simp add: demo_connected_def Connect_def demo_server_def)
  from demo_login [OF this] obtain c where c: "Login (\<lambda>_. []) (\<lambda>n. n) ''me'' ''pw'' demo_connected = Inr (None, c)" by auto
  have "router_ok (cl_router demo_connected)" "unat (rt_counter (cl_router demo_connected)) + 3 < 2 ^ 64"
    using router_ok_New by (simp_all add: demo_connected(4)) (simp add: NewMessageRouter_def)
  note keys = login_keys [OF c this]
  from Login_cases [OF c] obtain d where d: "same_session demo_connected d" "c = start_session (\<lambda>n. n) d" by blast
  then have f: "cl_disconnectedCh c = Some (make_chan 0)" "cl_searches c = newSearchRegistry" "cl_router c = cl_router (registerInternalHandlers (\<lambda>n. n) demo_connected)"
    unfolding d(2) start_session_fields by (simp_all add: same_session_def demo_connected_def Connect_def demo_server_def registerInternalHandlers_def Let_def)
  have "handler_keys ServerPing demo_connected = []" by (simp add: handler_keys_def demo_connected(4) handlers_of_def NewMessageRouter_def)
  then have ping: "handler_keys ServerPing c = replicate 1 handler_ping"
    using keys(2) [of ServerPing] handler_codes_distinct by (simp add: own_handlers_def)
  have n: "unat (rt_counter (cl_router c)) + 3 < 2 ^ 64"
    unfolding f(3) by (simp add: registerInternalHandlers_def Let_def Router_Register_counter demo_connected(4)) (simp add: NewMessageRouter_def)
  obtain c1 where c1: "read_failed EOF c = Inr c1" "\<not> cl_connected c1" "\<not> cl_loggedIn c1"
    using f(1,2) by (auto simp: read_failed_def close_chan_def make_chan_def closeAll_def newSearchRegistry_def Let_def)
  then obtain c2 where c2: "Connect demo_server c1 = (None, c2)" by (simp add: Connect_def demo_server_def)
  from demo_login [OF c2 c1(3)] obtain c3 k where c3: "Login (\<lambda>_. []) (\<lambda>n. n) ''me'' ''pw'' c2 = Inr (None, c3)" "online k c3" by blast
  from reconnect_duplicates_handlers [OF keys(1) n ping c1(1) c2 c3, of Inr "\<lambda>k p c. c" "[]"] obtain c' k' where
    "dispatch_message Inr (\<lambda>k p c. c) ServerPing [] c3 = Inr c'" "cl_conn c' = Some k'"
    "c_out k' = c_out k @ concat (replicate (1 + 1) (frame (le_bytes 4 ServerPing)))" by blast
  then show ?thesis using c c1(1) c2 c3 by (fastforce simp: online_def)
qed

text \<open>
  A race of \<^verbatim>\<open>Disconnect\<close> with the read loop: the loop has checked that it is not to stop; \<^verbatim>\<open>Disconnect\<close> sets \<^verbatim>\<open>c.conn\<close> to nil; the
  loop reads from it.
\<close>

theorem disconnect_races_read_loop:
  assumes "cl_connected c" "cl_running c" "\<not> loop_stopped c" "cl_stopCh c \<noteq> None" "cl_conn c \<noteq> None"
  shows "\<exists>c'. disconnect_state c = Inr c' \<and> loop_read decompress other c' = Inl NilDereference"
  using assms by (auto simp: disconnect_state_def loop_stopped_def close_chan_def loop_read_def server_read_def)

end
