(* ===== verification/Negotiation.thy ===== *)
theory Negotiation
  imports Session
begin

text \<open>
  Both sides of a transfer wait for a \<^verbatim>\<open>TransferResponse\<close> with their token: an upload in \<^verbatim>\<open>waitForResponse\<close> of \<^verbatim>\<open>src/client/upload.go\<close>,
  which reads frames by hand, a download in the reader of \<^verbatim>\<open>waitForTransferResponse\<close> of \<^verbatim>\<open>src/client/download.go\<close>, over \<^verbatim>\<open>ReadMessage\<close>.
  The theory interprets the interface of message loops for the second one, too, and shows that the two agree with one reference.
\<close>

interpretation read_response: frame_loop stream c_out ReadMessage maxMessageSize "\<lambda>p _. response_answer token p" "\<lambda>_ out. out" Inl
  "read_transfer_response token" for token
proof (unfold_locales, goal_cases)
  case (1 s p rest)
  from ReadMessage_frame [OF 1] show ?case by (metis Conn.select_convs(3) Conn.surjective Conn.update_convs(1))
next
  case (2 s)
  from Conn_ReadFull_end [OF 2, of 4] obtain e k where "Conn_ReadFull 4 s = (Inl e, k)" by auto
  then have "ReadMessage s = (Inl (WrapError ''read message length'' e), k)" "c_out k = c_out s"
    using Conn_ReadFull_fields [of 4 s "Inl e" k] by (simp_all add: ReadMessage_def) (metis Conn.select_convs(3) Conn.surjective Conn.update_convs(1))
  then show ?case by blast
next
  case (3 s e s1)
  then show ?case by (subst read_transfer_response.simps) simp
next
  case (4 s p s1 r)
  then show ?case by (subst read_transfer_response.simps) (auto simp: response_answer_def split: if_splits sum.splits)
next
  case (5 s p s1)
  then show ?case by (subst read_transfer_response.simps) (auto simp: response_answer_def split: if_splits sum.splits)
qed

text \<open>The reference: the first message that is an answer.\<close>

definition first_response :: "u32 \<Rightarrow> byte list list \<Rightarrow> ((go_error + TransferResponse) \<times> byte list list) option" where
  "first_response token ms =
     (case dropWhile (\<lambda>p. response_answer token p = None) ms of
        [] \<Rightarrow> None
      | p # rest \<Rightarrow> Some (the (response_answer token p), rest))"

lemma first_response_None: "first_response token ms = None \<Longrightarrow> i < length ms \<Longrightarrow> response_answer token (ms ! i) = None"
  by (auto simp: first_response_def dropWhile_eq_Nil_conv split: list.splits)

lemma first_response_Some:
  assumes "first_response token ms = Some (r, rest)"
  obtains before p where "ms = before @ p # rest" "\<And>i. i < length before \<Longrightarrow> response_answer token (before ! i) = None"
    "response_answer token p = Some r"
proof -
  let ?P = "\<lambda>p. response_answer token p = None"
  from assms obtain p where p: "dropWhile ?P ms = p # rest" "r = the (response_answer token p)"
    by (auto simp: first_response_def split: list.splits)
  have "ms = takeWhile ?P ms @ p # rest" using takeWhile_dropWhile_id [of ?P ms] p(1) by simp
  moreover have "\<not> ?P p" using hd_dropWhile [of ?P ms] p(1) by simp
  moreover have "response_answer token (takeWhile ?P ms ! i) = None" if "i < length (takeWhile ?P ms)" for i
    using set_takeWhileD [of _ ?P ms] nth_mem [OF that] by blast
  ultimately show thesis using that p(2) by auto
qed

text \<open>
  C13: Both sides wait for the same thing. On a connection that delivers any messages (each within the limit of \<^verbatim>\<open>ReadMessage\<close>), the upload's
  \<^verbatim>\<open>waitForResponse\<close> and the download's reader give the same result as the reference, the first message that is a response with the
  token or an undecodable response, and leave the same bytes unread; without such a message both return an error.
\<close>

theorem response_loops_agree:
  assumes "stream conn = concat (map frame ms)" "list_all (\<lambda>p. length p \<le> maxMessageSize) ms"
  shows "case first_response token ms of
       Some (r, rest) \<Rightarrow>
         fst (waitForResponse token conn) = r \<and> fst (read_transfer_response token conn) = r \<and>
         stream (snd (waitForResponse token conn)) = concat (map frame rest) \<and>
         stream (snd (read_transfer_response token conn)) = concat (map frame rest)
     | None \<Rightarrow> isl (fst (waitForResponse token conn)) \<and> isl (fst (read_transfer_response token conn))"
proof -
  have big: "list_all (\<lambda>p. length p \<le> 2 ^ 32 - 1) ms" using assms(2) by (rule list.pred_mono_strong) (simp add: maxMessageSize_def)
  show ?thesis
  proof (cases "first_response token ms")
    case None
    note none = first_response_None [OF None]
    from wait_response.no_answer [OF assms(1) big, of token] read_response.no_answer [OF assms(1,2), of token] none
    show ?thesis using None by (auto simp: isl_def)
  next
    case (Some x)
    obtain r rest where x: "x = (r, rest)" by fastforce
    from first_response_Some [OF Some [unfolded x]] obtain before p where ms: "ms = before @ p # rest"
      and none: "\<And>i. i < length before \<Longrightarrow> response_answer token (before ! i) = None" and p: "response_answer token p = Some r" by blast
    have str: "stream conn = concat (map frame (before @ [p])) @ concat (map frame rest)" using assms(1) ms by simp
    have len: "list_all (\<lambda>p. length p \<le> 2 ^ 32 - 1) (before @ [p])" "list_all (\<lambda>p. length p \<le> maxMessageSize) (before @ [p])"
      using big assms(2) ms by simp_all
    from wait_response.first_answer [OF str len(1), of token r] read_response.first_answer [OF str len(2), of token r] none p
    show ?thesis using Some x by auto
  qed
qed

theorem response_loops_agree_witness:
  "fst (read_transfer_response 1 (NewConn [frame [7], frame (w_sink (buffer_of (TransferResponse_Encode demo_answer)))] EOF)) = Inr demo_answer"
proof -
  let ?m = "w_sink (buffer_of (TransferResponse_Encode demo_answer))"
  let ?conn = "NewConn [frame [7], frame ?m] EOF"
  have "TransferResponse_ok demo_answer" "tresp_Token demo_answer = 1"
    by (simp_all add: demo_answer_def TransferResponse_ok_def)
  from response_answer_encoded [OF this(1), of 1] this(2) have "response_answer 1 ?m = Some (Inr demo_answer)" by simp
  then have "first_response 1 [[7], ?m] = Some (Inr demo_answer, [])" by (simp add: first_response_def response_answer_def)
  moreover have "stream ?conn = concat (map frame [[7], ?m])" by (simp add: NewConn_def)
  moreover have "list_all (\<lambda>p. length p \<le> maxMessageSize) [[7], ?m]"
    by (simp add: maxMessageSize_def demo_answer_def tresp.payload TransferResponse_body_def)
  ultimately show ?thesis using response_loops_agree [of ?conn "[[7], ?m]" 1] by simp
qed

end
