(* ===== verification/System.thy ===== *)
theory System
  imports Session Negotiation
begin

text \<open>
  The client as a whole: every operation of its goroutines and of its caller is a step, in any order. The first part shows that
  all of them leave every registered transfer registered, except the ones that end a transfer; the second that the invariants of
  the components hold together in every state the client can get into; the third that a download, whatever the rest of the client
  does while it waits, ends as it should.
\<close>

section \<open>What keeps transfers registered\<close>

text \<open>
  The registry stays consistent, what is registered stays what it is, with its channels open, and uploads stay in the state they
  are created in.
\<close>

definition upload_idle :: "Transfer \<Rightarrow> bool" where
  "upload_idle t \<longleftrightarrow> (t_Direction t = TransferUpload \<longrightarrow> t_state t = TransferStateNone)"

definition reg_keeps :: "TransferRegistry \<Rightarrow> TransferRegistry \<Rightarrow> bool" where
  "reg_keeps r r' \<longleftrightarrow> (reg_ok r \<longrightarrow> reg_ok r' \<and>
     (\<forall>k p. GetByToken k r = Some p \<longrightarrow> GetByToken k r' = Some p \<and> identity (deref r' p) = identity (deref r p) \<and>
        (ready_open (deref r p) \<longrightarrow> ready_open (deref r' p))) \<and>
     ((\<forall>t \<in> set (reg_heap r). ready_open t) \<longrightarrow> (\<forall>t \<in> set (reg_heap r'). ready_open t)) \<and>
     ((\<forall>t \<in> set (reg_heap r). upload_idle t) \<longrightarrow> (\<forall>t \<in> set (reg_heap r'). upload_idle t)))"

lemma reg_keeps_refl [simp]: "reg_keeps r r"
  by (simp add: reg_keeps_def)

lemma reg_keepsD:
  assumes "reg_keeps r r'" "reg_ok r"
  shows "reg_ok r'"
    "GetByToken k r = Some p \<Longrightarrow> GetByToken k r' = Some p \<and> identity (deref r' p) = identity (deref r p) \<and>
       (ready_open (deref r p) \<longrightarrow> ready_open (deref r' p))"
    "\<forall>t \<in> set (reg_heap r). ready_open t \<Longrightarrow> \<forall>t \<in> set (reg_heap r'). ready_open t"
    "\<forall>t \<in> set (reg_heap r). upload_idle t \<Longrightarrow> \<forall>t \<in> set (reg_heap r'). upload_idle t"
  using assms unfolding reg_keeps_def by blast+

lemma reg_keeps_trans [trans]:
  assumes "reg_keeps r r'" "reg_keeps r' r''"
  shows "reg_keeps r r''"
  unfolding reg_keeps_def
proof (rule impI)
  assume ok: "reg_ok r"
  note 1 = reg_keepsD [OF assms(1) ok] and 2 = reg_keepsD [OF assms(2) reg_keepsD(1) [OF assms(1) ok]]
  have tok: "GetByToken k r'' = Some p \<and> identity (deref r'' p) = identity (deref r p) \<and> (ready_open (deref r p) \<longrightarrow> ready_open (deref r'' p))"
    if "GetByToken k r = Some p" for k p using 1(2) [OF that] 2(2) [of k p] by simp
  show "reg_ok r'' \<and>
     (\<forall>k p. GetByToken k r = Some p \<longrightarrow> GetByToken k r'' = Some p \<and> identity (deref r'' p) = identity (deref r p) \<and>
        (ready_open (deref r p) \<longrightarrow> ready_open (deref r'' p))) \<and>
     ((\<forall>t \<in> set (reg_heap r). ready_open t) \<longrightarrow> (\<forall>t \<in> set (reg_heap r''). ready_open t)) \<and>
     ((\<forall>t \<in> set (reg_heap r). upload_idle t) \<longrightarrow> (\<forall>t \<in> set (reg_heap r''). upload_idle t))"
    using 2(1) tok 2(3) [OF 1(3)] 2(4) [OF 1(4)] by blast
qed

lemma reg_keeps_modify:
  assumes "identity (f (deref r p)) = identity (deref r p)" "open_progress (deref r p) \<Longrightarrow> open_progress (f (deref r p))"
    "ready_open (deref r p) \<Longrightarrow> ready_open (f (deref r p))" "reg_ok r \<Longrightarrow> upload_idle (deref r p) \<Longrightarrow> upload_idle (f (deref r p))"
  shows "reg_keeps r (modify p f r)"
proof (cases "p < length (reg_heap r)")
  case True
  define g where "g t = (if t = deref r p then f t else t)" for t
  have eq: "modify p f r = modify p g r" by (simp add: modify_def g_def)
  have "benign g" using assms by (auto simp: benign_def g_def)
  then have "reg_ok r \<Longrightarrow> reg_ok (modify p f r)" unfolding eq by (rule reg_ok_modify [rotated])
  moreover have "ready_open t" if "\<forall>t \<in> set (reg_heap r). ready_open t" "t \<in> set (reg_heap (modify p f r))" for t
    using that assms(3) True by (auto simp: modify_def dest!: subsetD [OF set_update_subset_insert])
  moreover have "upload_idle t" if "reg_ok r" "\<forall>t \<in> set (reg_heap r). upload_idle t" "t \<in> set (reg_heap (modify p f r))" for t
    using that assms(4) True by (auto simp: modify_def dest!: subsetD [OF set_update_subset_insert])
  ultimately show ?thesis using assms reg_ok_tokenD(1) by (auto simp: reg_keeps_def deref_modify)
qed (simp add: modify_def list_update_beyond)

text \<open>Changes that set no state, or not that of an upload.\<close>

lemma upload_idle_same: "identity t' = identity t \<Longrightarrow> t_state t' = t_state t \<Longrightarrow> upload_idle t' = upload_idle t"
  by (simp add: upload_idle_def identity_def)

lemma upload_idle_updates [simp]:
  "upload_idle (t\<lparr>t_Error := e\<rparr>) = upload_idle t" "upload_idle (t\<lparr>t_Size := sz\<rparr>) = upload_idle t" "upload_idle (t\<lparr>t_Transferred := n\<rparr>) = upload_idle t"
  "upload_idle (t\<lparr>t_RemoteToken := k\<rparr>) = upload_idle t" "upload_idle (t\<lparr>t_transferReadyCh := ch\<rparr>) = upload_idle t"
  "upload_idle (t\<lparr>t_transferConnCh := ch'\<rparr>) = upload_idle t" "upload_idle (t\<lparr>t_queuePosition := q\<rparr>) = upload_idle t"
  "upload_idle (t\<lparr>t_progressCh := ch''\<rparr>) = upload_idle t"
  by (simp_all add: upload_idle_def)

lemma upload_idle_download: "t_Direction t = TransferDownload \<Longrightarrow> upload_idle t"
  by (simp add: upload_idle_def TransferDownload_def TransferUpload_def)

lemma fileKey_direction:
  assumes "fileKey d u f = fileKey d' u' f'"
  shows "d = d'"
  using assms append_sep_inj [of "CHR '':''" "decimal (unat d)" "decimal (unat d')"] by (simp add: fileKey_def word_unat_eq_iff)

lemma found_download:
  assumes "reg_ok r" "GetByFile u f TransferDownload r = Some p"
  shows "t_Direction (deref r p) = TransferDownload"
  using reg_ok_fileD(2) [OF assms(1)] assms(2) fileKey_direction unfolding GetByFile_def fileKey_FileKey by metis

lemma reg_keeps_register: "reg_keeps r (snd (register d u f t sz r))"
proof (cases "GetByFile u f d r \<noteq> None \<or> GetByToken t r \<noteq> None")
  case True
  then show ?thesis using register_duplicate [of r u f d t sz] by (auto simp: reg_keeps_def)
next
  case False
  then have fresh: "GetByFile u f d r = None" "GetByToken t r = None" by simp_all
  have "GetByToken k (snd (register d u f t sz r)) = Some p" "deref (snd (register d u f t sz r)) p = deref r p"
    if "reg_ok r" "GetByToken k r = Some p" for k p
    using that fresh(2) register_fresh [OF fresh, of sz] reg_ok_tokenD(1) [OF that] by (auto simp: GetByToken_def nth_append)
  moreover have "ready_open ((NewTransfer d u f t)\<lparr>t_Size := sz\<rparr>)" "upload_idle ((NewTransfer d u f t)\<lparr>t_Size := sz\<rparr>)"
    by (simp_all add: NewTransfer_def ready_open_def upload_idle_def)
  ultimately show ?thesis using reg_ok_register [of r d u f t sz] register_fresh [OF fresh, of sz] by (auto simp: reg_keeps_def)
qed

lemma reg_keeps_SetRemoteToken: "reg_keeps r (snd (SetRemoteToken t k r))"
proof -
  have same: "GetByToken x (snd (SetRemoteToken t k r)) = GetByToken x r" for x
    by (auto simp: SetRemoteToken_def Let_def GetByToken_def split: option.splits)
  have heap: "reg_heap (snd (SetRemoteToken t k r)) = reg_heap r \<or>
      (\<exists>p. reg_heap (snd (SetRemoteToken t k r)) = reg_heap (modify p (\<lambda>t. t\<lparr>t_RemoteToken := k\<rparr>) r))"
    by (auto simp: SetRemoteToken_def Let_def split: option.splits)
  have "reg_keeps r (modify p (\<lambda>t. t\<lparr>t_RemoteToken := k\<rparr>) r)" for p by (rule reg_keeps_modify) simp_all
  with heap reg_ok_updates(1) [of r t k] show ?thesis unfolding reg_keeps_def same by (auto simp: GetByToken_def)
qed

lemma reg_keeps_report:
  assumes "report tr (\<lambda>t. emitProgress (g t)) c = Inr c'" "identity (g (tr_of tr c)) = identity (tr_of tr c)"
    "open_progress (g (tr_of tr c)) = open_progress (tr_of tr c)" "t_transferReadyCh (g (tr_of tr c)) = t_transferReadyCh (tr_of tr c)"
    "reg_ok (cl_transfers c) \<Longrightarrow> upload_idle (tr_of tr c) \<Longrightarrow> upload_idle (g (tr_of tr c))"
  shows "reg_keeps (cl_transfers c) (cl_transfers c')"
proof -
  obtain t where t: "emitProgress (g (tr_of tr c)) = Inr t" "cl_transfers c' = modify tr (\<lambda>_. t) (cl_transfers c)"
    using assms(1) by (auto simp: report_def upd_tr_def split: sum.splits)
  have op: "open_progress (g (tr_of tr c))" using t(1) emitProgress_closed by fastforce
  note tf = report_fields [OF op t(1)]
  show ?thesis unfolding t(2) using tf assms ready_open_same [of t "tr_of tr c"] upload_idle_same [of t "g (tr_of tr c)"]
    by (intro reg_keeps_modify) simp_all
qed

text \<open>A step that, beyond that, leaves the upload queue, the searches and their clean-ups alone.\<close>

definition search_cleanups :: "goroutine list \<Rightarrow> (u32 \<times> nat) set" where
  "search_cleanups gs = {(k, p). Go_searchCleanup k p \<in> set gs}"

abbreviation cleanups :: "Client \<Rightarrow> (u32 \<times> nat) set" where
  "cleanups c \<equiv> search_cleanups (cl_started c)"

definition quiet :: "Client \<Rightarrow> Client \<Rightarrow> bool" where
  "quiet c c' \<longleftrightarrow> reg_keeps (cl_transfers c) (cl_transfers c') \<and> cl_queueMgr c' = cl_queueMgr c \<and> cl_searches c' = cl_searches c \<and>
     cleanups c' = cleanups c"

lemma quiet_refl [simp]: "quiet c c"
  by (simp add: quiet_def)

lemma quiet_trans [trans]: "quiet c c' \<Longrightarrow> quiet c' c'' \<Longrightarrow> quiet c c''"
  using reg_keeps_trans by (auto simp: quiet_def)

text \<open>\<open>aside\<close>: what the invariants speak of is not touched at all.\<close>

definition aside :: "Client \<Rightarrow> Client \<Rightarrow> bool" where
  "aside c c' \<longleftrightarrow> cl_transfers c' = cl_transfers c \<and> cl_queueMgr c' = cl_queueMgr c \<and> cl_searches c' = cl_searches c \<and> cleanups c' = cleanups c"

lemma aside_refl [simp]: "aside c c"
  by (simp add: aside_def)

lemma aside_trans [trans]: "aside c c' \<Longrightarrow> aside c' c'' \<Longrightarrow> aside c c''"
  by (simp add: aside_def)

lemma aside_quiet: "aside c c' \<Longrightarrow> quiet c c'"
  by (simp add: aside_def quiet_def)

lemma cleanups_start: "cleanups (start_goroutine g c) = cleanups c \<union> {(k, p). g = Go_searchCleanup k p}"
  by (auto simp: search_cleanups_def start_goroutine_def)

lemma aside_with_conn: "with_conn f h c = (x, c') \<Longrightarrow> aside c c'"
  by (auto simp: with_conn_def aside_def split: prod.splits)

lemma aside_close_conn [simp]: "aside c (close_conn h c)"
  by (simp add: close_conn_def aside_with_conn [OF prod.collapse [symmetric]])

lemma aside_send_checked: "send_checked m h c = (e, c') \<Longrightarrow> aside c c'"
  by (auto simp: send_checked_def Let_def intro: aside_with_conn split: option.splits)

lemma aside_send_best_effort [simp]: "aside c (send_best_effort m h c)"
  by (auto simp: send_best_effort_def Let_def intro: aside_with_conn [OF prod.collapse [symmetric]])

lemma aside_start [simp]:
  "aside c (start_goroutine (Go_handleIncomingPeerMessages h u) c)" "aside c (start_goroutine (Go_connectToPeer m) c)"
  "aside c (start_goroutine (Go_connectToPeerForTransfer m) c)" "aside c (start_goroutine Go_runReadLoop c)"
  "aside c (start_goroutine Go_uploadProcessor c)" "aside c (start_goroutine (Go_download tr n) c)"
  by (simp_all add: aside_def cleanups_start) (simp_all add: start_goroutine_def)

lemma aside_peerConn_Add [simp]: "aside c (snd (peerConn_Add u h c))"
  by (simp add: peerConn_Add_def Let_def aside_def close_conn_def with_conn_def split: option.splits)

lemma aside_read_token: "read_token h c = (x, c') \<Longrightarrow> aside c c'"
  by (auto simp: read_token_def split: prod.splits option.splits dest: aside_with_conn)

lemma aside_getOrCreate: "getOrCreate_begin u c = (b, c') \<Longrightarrow> aside c c'" "getOrCreate_finish u p x c = (y, c') \<Longrightarrow> aside c c'"
  by (auto simp: getOrCreate_begin_def getOrCreate_finish_def aside_def Let_def split: option.splits sum.splits)

lemma quiet_deliver:
  assumes "deliverTransferConnection u k h c = Inr c'"
  shows "quiet c c'"
proof -
  have "reg_keeps r (modify tr (\<lambda>t. t\<lparr>t_transferConnCh := ch\<rparr>) r)" for tr ch r by (rule reg_keeps_modify) simp_all
  with assms show ?thesis by (auto simp: deliverTransferConnection_def quiet_def split: option.splits sum.splits prod.splits)
qed


lemma quiet_handleTransferConnection:
  assumes "handleTransferConnection h u c = Inr c'"
  shows "quiet c c'"
proof -
  obtain x c1 where r: "read_token h c = (x, c1)" by fastforce
  have "quiet c c1" using aside_read_token [OF r] by (rule aside_quiet)
  moreover have "quiet c1 c'" using assms r quiet_deliver aside_quiet [OF aside_close_conn]
    by (auto simp: handleTransferConnection_def split: sum.splits)
  ultimately show ?thesis by (rule quiet_trans)
qed

lemma aside_solicits:
  "solicits_get k c = (x, c') \<Longrightarrow> aside c c'" "solicitations_complete k h c = Inr (b, c') \<Longrightarrow> aside c c'"
  by (auto simp: solicits_get_def solicitations_complete_def aside_def Let_def split: option.splits sum.splits prod.splits)

text \<open>An incoming message connection is cached and served.\<close>

lemma aside_incoming [simp]: "aside c (start_goroutine (Go_handleIncomingPeerMessages h u) (snd (peerConn_Add v h c)))"
  by (rule aside_trans [OF aside_peerConn_Add aside_start(1)])

lemma quiet_handlePierceFirewall:
  assumes "handlePierceFirewall h k c = Inr c'"
  shows "quiet c c'"
proof -
  obtain x c1 where g: "solicits_get k c = (x, c1)" by fastforce
  have "quiet c1 c'"
  proof (cases x)
    case None
    then show ?thesis using assms g aside_solicits(2) [of k h c1] aside_trans [OF _ aside_close_conn]
      by (auto simp: handlePierceFirewall_def split: sum.splits prod.splits bool.splits intro!: aside_quiet)
  next
    case (Some s)
    then show ?thesis using assms g quiet_handleTransferConnection
      by (auto simp: handlePierceFirewall_def split: if_splits intro!: aside_quiet)
  qed
  then show ?thesis by (rule quiet_trans [OF aside_quiet [OF aside_solicits(1) [OF g]]])
qed

lemma quiet_handlePeerInit: "handlePeerInit h m c = Inr c' \<Longrightarrow> quiet c c'"
  using quiet_handleTransferConnection by (auto simp: handlePeerInit_def aside_quiet split: if_splits)

lemma aside_new_conn: "new_conn k c = (h, c') \<Longrightarrow> aside c c'"
  by (auto simp: new_conn_def aside_def)

lemma quiet_handleConnection:
  assumes "handleConnection k c = Inr c'"
  shows "quiet c c'"
proof -
  obtain h c1 where n: "new_conn k c = (h, c1)" by fastforce
  obtain x c2 where r: "with_conn ReadMessage h c1 = (x, c2)" by fastforce
  have "quiet c2 c'" using assms n r quiet_handlePierceFirewall quiet_handlePeerInit aside_quiet [OF aside_close_conn]
    by (auto simp: handleConnection_def split: sum.splits list.splits if_splits)
  moreover have "aside c c2" using aside_trans [OF aside_new_conn [OF n] aside_with_conn [OF r]] .
  ultimately show ?thesis using aside_quiet quiet_trans by blast
qed

lemma quiet_connectToPeerForTransfer:
  assumes "connectToPeerForTransfer dial msg c = Inr c'"
  shows "quiet c c'"
proof (cases "Dial dial (address_string (ctp_IPAddress msg) (ctp_Port msg))")
  case (Inr k)
  obtain h c1 where n: "new_conn k c = (h, c1)" by fastforce
  obtain e c2 where s: "send_checked (PierceFirewall_Encode \<lparr>pf_Token = ctp_Token msg\<rparr>) h c1 = (e, c2)" by fastforce
  obtain x c3 where r: "read_token h c2 = (x, c3)" by fastforce
  have c2: "aside c c2" using aside_trans [OF aside_new_conn [OF n] aside_send_checked [OF s]] .
  have c3: "aside c c3" using aside_trans [OF c2 aside_read_token [OF r]] .
  show ?thesis using assms Inr n s r quiet_deliver quiet_trans [OF aside_quiet [OF c3]] aside_quiet [OF aside_close_conn]
      quiet_trans [OF aside_quiet [OF c2]]
    by (auto simp: connectToPeerForTransfer_def split: option.splits sum.splits)
qed (use assms in \<open>simp add: connectToPeerForTransfer_def\<close>)


text \<open>Reports on a transfer, by its own goroutine or by a handler of its peer's messages.\<close>

lemma quiet_report:
  assumes "report tr (\<lambda>t. emitProgress (g t)) c = Inr c'" "identity (g (tr_of tr c)) = identity (tr_of tr c)"
    "open_progress (g (tr_of tr c)) = open_progress (tr_of tr c)" "t_transferReadyCh (g (tr_of tr c)) = t_transferReadyCh (tr_of tr c)"
    "reg_ok (cl_transfers c) \<Longrightarrow> upload_idle (tr_of tr c) \<Longrightarrow> upload_idle (g (tr_of tr c))"
  shows "quiet c c'"
  using reg_keeps_report [OF assms] assms(1) by (auto simp: quiet_def report_def upd_tr_def split: sum.splits)

lemma upload_idle_SetState: "t_Direction t = TransferDownload \<Longrightarrow> upload_idle (SetState now s t)"
  by (rule upload_idle_download) (use identity_SetState [of now s t] in \<open>simp add: identity_def\<close>)

lemma quiet_enter_state: "t_Direction (tr_of tr c) = TransferDownload \<Longrightarrow> enter_state now s tr c = Inr c' \<Longrightarrow> quiet c c'"
  unfolding enter_state_def using quiet_report [where g = "SetState now s" and tr = tr] by (simp add: upload_idle_SetState)

lemma quiet_progress: "report tr (\<lambda>t. emitProgress (UpdateProgress now n t)) c = Inr c' \<Longrightarrow> quiet c c'"
  using quiet_report [where g = "UpdateProgress now n" and tr = tr] benign_updates(2) [of now n]
    upload_idle_same [of "UpdateProgress now n (tr_of tr c)" "tr_of tr c"] by (simp add: benign_def open_progress_def)

text \<open>
  The report a handler makes, at once or later: on a download, with its channels as they are.
\<close>

definition handler_report :: "(Transfer \<Rightarrow> go_panic + Transfer) \<Rightarrow> bool" where
  "handler_report f \<longleftrightarrow> (\<exists>n. f = SetQueuePosition n) \<or> (\<exists>now reason. f = rejected_report now reason) \<or>
     (\<exists>now username filename. f = failed_report now username filename)"

lemma handler_reportE:
  assumes "handler_report f"
  obtains g where "f = (\<lambda>t. emitProgress (g t))" "\<And>t. identity (g t) = identity t" "\<And>t. open_progress (g t) = open_progress t"
    "\<And>t. t_transferReadyCh (g t) = t_transferReadyCh t"
  using assms unfolding handler_report_def found_defs
proof (elim disjE exE)
  fix n
  assume "f = (\<lambda>t. emitProgress (t\<lparr>t_queuePosition := n\<rparr>))"
  then show thesis by (rule that) simp_all
next
  fix now reason
  assume "f = (\<lambda>t. emitProgress (SetState now (TransferStateCompleted OR TransferStateRejected) (t\<lparr>t_Error := Some (TransferRejectedError reason)\<rparr>)))"
  then show thesis by (rule that) simp_all
next
  fix now username filename
  assume "f = (\<lambda>t. emitProgress (SetState now (TransferStateCompleted OR TransferStateErrored) (t\<lparr>t_Error := Some (TransferFailedError username filename)\<rparr>)))"
  then show thesis by (rule that) simp_all
qed

lemma quiet_handler_report:
  assumes "handler_report f" "reg_ok (cl_transfers c) \<Longrightarrow> t_Direction (tr_of tr c) = TransferDownload" "report tr f c = Inr c'"
  shows "quiet c c'"
proof -
  from assms(1) obtain g where g: "f = (\<lambda>t. emitProgress (g t))" "\<And>t. identity (g t) = identity t" "\<And>t. open_progress (g t) = open_progress t"
    "\<And>t. t_transferReadyCh (g t) = t_transferReadyCh t" by (rule handler_reportE) blast
  have "reg_ok (cl_transfers c) \<Longrightarrow> upload_idle (g (tr_of tr c))"
    using assms(2) g(2) [of "tr_of tr c"] by (intro upload_idle_download) (simp add: identity_def)
  then show ?thesis using quiet_report [of tr g c c'] assms(3) g by simp
qed

text \<open>What the handlers of the three reporting messages find is a download, and a report on it.\<close>

definition peer_finds :: "found \<Rightarrow> Client \<Rightarrow> bool" where
  "peer_finds found c \<longleftrightarrow> (\<exists>now payload username. found = found_PlaceInQueueResponse payload username c \<or>
     found = found_UploadDenied now payload username c \<or> found = found_UploadFailed now payload username c)"

lemma peer_finds_some:
  assumes "peer_finds (Some (tr, f)) c"
  shows "handler_report f" "\<exists>u fn. GetByFile u fn TransferDownload (cl_transfers c) = Some tr"
proof -
  from assms obtain u fn where "GetByFile u fn TransferDownload (cl_transfers c) = Some tr \<and>
      ((\<exists>n. f = SetQueuePosition n) \<or> (\<exists>now reason. f = rejected_report now reason) \<or> (\<exists>now user file. f = failed_report now user file))"
    unfolding peer_finds_def found_PlaceInQueueResponse_def found_UploadDenied_def found_UploadFailed_def
    by (elim exE disjE) (drule sym, simp split: sum.splits, blast)+
  then show "handler_report f" "\<exists>u fn. GetByFile u fn TransferDownload (cl_transfers c) = Some tr"
    unfolding handler_report_def by blast+
qed

lemma quiet_run_report:
  assumes "peer_finds found c" "run_report found c = Inr c'"
  shows "quiet c c'"
proof (cases found)
  case (Some x)
  obtain tr f where x: "x = (tr, f)" by fastforce
  note f = peer_finds_some [OF assms(1) [unfolded Some x]]
  have "reg_ok (cl_transfers c) \<Longrightarrow> t_Direction (tr_of tr c) = TransferDownload" using f(2) found_download by blast
  from quiet_handler_report [OF f(1) this] assms(2) show ?thesis by (simp add: run_report_def Some x)
qed (use assms in \<open>simp add: run_report_def\<close>)

lemma quiet_handlePlaceInQueueResponse: "handlePlaceInQueueResponse payload u c = Inr c' \<Longrightarrow> quiet c c'"
  unfolding handlePlaceInQueueResponse_def by (rule quiet_run_report) (auto simp: peer_finds_def)

lemma quiet_handleUploadDenied: "handleUploadDenied now payload u c = Inr c' \<Longrightarrow> quiet c c'"
  unfolding handleUploadDenied_def by (rule quiet_run_report) (auto simp: peer_finds_def)

lemma quiet_handleUploadFailed: "handleUploadFailed now payload u c = Inr c' \<Longrightarrow> quiet c c'"
  unfolding handleUploadFailed_def by (rule quiet_run_report) (auto simp: peer_finds_def)

lemma quiet_upd:
  assumes "identity (f (tr_of tr c)) = identity (tr_of tr c)" "open_progress (tr_of tr c) \<Longrightarrow> open_progress (f (tr_of tr c))"
    "ready_open (tr_of tr c) \<Longrightarrow> ready_open (f (tr_of tr c))" "upload_idle (tr_of tr c) \<Longrightarrow> upload_idle (f (tr_of tr c))"
  shows "quiet c (upd_tr tr f c)"
  using reg_keeps_modify [of f "cl_transfers c" tr] assms by (simp add: quiet_def upd_tr_def)

lemma quiet_handleTransferRequest:
  assumes "handleTransferRequest payload u (Some h) c = Inr c'"
  shows "quiet c c'"
proof -
  have sent: "quiet c (upd_tr tr (\<lambda>t. t\<lparr>t_transferReadyCh := Some ch'\<rparr>) c1)"
    if "aside c c1" "t_transferReadyCh (tr_of tr c1) = Some ch" "try_send x ch = Inr (b, ch')" for c1 tr ch x b ch'
  proof -
    have "\<not> ch_closed ch \<Longrightarrow> \<not> ch_closed ch'" using that(3) by (auto simp: try_send_def split: if_splits)
    then have "quiet c1 (upd_tr tr (\<lambda>t. t\<lparr>t_transferReadyCh := Some ch'\<rparr>) c1)"
      using that(2) by (intro quiet_upd) (auto simp: ready_open_def)
    then show ?thesis by (rule quiet_trans [OF aside_quiet [OF that(1)]])
  qed
  have "aside c (snd (send_checked m h c))" for m using aside_send_checked [OF prod.collapse [symmetric]] .
  then show ?thesis using assms sent aside_quiet
    by (auto simp: handleTransferRequest_def Let_def split: sum.splits option.splits if_splits prod.splits)
qed

lemma quiet_take_ready:
  assumes "c' \<in> set (take_ready tr c)"
  shows "quiet c c'"
proof -
  obtain ch info ch' where ch: "t_transferReadyCh (tr_of tr c) = Some ch" "try_recv ch = (Some (Some info), ch')"
    using assms by (auto simp: take_ready_def dest: sym split: option.splits prod.splits)
  let ?c = "upd_tr tr (\<lambda>t. t\<lparr>t_transferReadyCh := Some ch', t_Size := ri_FileSize info, t_RemoteToken := ri_RemoteToken info\<rparr>) c"
  have "quiet c ?c" using ch try_recv_open [OF ch(2)] by (intro quiet_upd) (auto simp: ready_open_def)
  moreover have "quiet d (d\<lparr>cl_transfers := snd (SetRemoteToken k t (cl_transfers d))\<rparr>)" for d k t
    by (simp add: quiet_def reg_keeps_SetRemoteToken)
  ultimately show ?thesis using assms ch quiet_trans by (auto simp: take_ready_def Let_def)
qed

lemma quiet_Download:
  assumes "Download u f w opts c = (x, c')"
  shows "quiet c c'"
proof -
  let ?k = "cl_transferToken c + 1"
  let ?r = "snd (RegisterDownload u f ?k (cl_transfers c))"
  let ?c = "c\<lparr>cl_transferToken := ?k, cl_transfers := ?r\<rparr>"
  have reg: "quiet c ?c" using reg_keeps_register by (simp add: quiet_def RegisterDownload_def)
  have "quiet c (start_goroutine (Go_download tr n) (upd_tr tr (\<lambda>t. (InitDownloadChannels (t\<lparr>t_StartOffset := s\<rparr>))\<lparr>t_writer := Some w\<rparr>) ?c))" for tr n s
    by (rule quiet_trans [OF quiet_trans [OF reg quiet_upd] aside_quiet [OF aside_start(6)]])
      (simp_all add: InitDownloadChannels_def identity_def open_progress_def ready_open_def upload_idle_def make_chan_def)
  with reg assms show ?thesis by (auto simp: Download_def Let_def split: if_splits prod.splits sum.splits)
qed


section \<open>The session\<close>

lemma same_session_aside: "same_session c c' \<Longrightarrow> aside c c'"
  by (simp add: same_session_def aside_def)

lemma aside_Login:
  assumes "Login md5_Sum grow u p c = Inr (e, c')"
  shows "aside c c'"
proof -
  have "aside d (start_session grow d)" for d
    by (simp add: aside_def start_session_def uploadProcessor_Start_def registerInternalHandlers_def cleanups_start Let_def)
      (simp add: start_goroutine_def)
  then show ?thesis using Login_cases [OF assms] same_session_aside aside_trans by blast
qed

lemma aside_Connect: "Connect dial c = (e, c') \<Longrightarrow> aside c c'"
  by (auto simp: Connect_def aside_def split: if_splits sum.splits)

lemma aside_server_write: "server_write p c = Inr (e, c') \<Longrightarrow> aside c c'"
  by (rule same_session_aside) (rule server_write_same)

lemma aside_handlePing: "handlePing c = Inr c' \<Longrightarrow> aside c c'"
  by (auto simp: handlePing_def Let_def aside_server_write split: if_splits sum.splits prod.splits)

lemma aside_handleConnectToPeer: "aside c (handleConnectToPeer payload c)"
proof -
  have "aside c (solicits_add k u t c)" for k u t by (simp add: aside_def solicits_add_def)
  then show ?thesis using aside_trans [OF _ aside_start(2)] aside_trans [OF _ aside_start(3)]
    by (auto simp: handleConnectToPeer_def Let_def split: sum.splits)
qed

text \<open>A dispatch is a sequence of the client's own handlers; what they all do, it does.\<close>

lemma run_handlers_closed:
  assumes self: "\<And>c. R c c" and trans: "\<And>c d e. R c d \<Longrightarrow> R d e \<Longrightarrow> R c e" and aside: "\<And>c d. aside c d \<Longrightarrow> R c d"
    and search: "\<And>p c d. handleSearchResponse decompress p c = Inr d \<Longrightarrow> R c d"
    and run: "run_handlers decompress (\<lambda>_ _ c. c) ks payload c = Inr c'"
  shows "R c c'"
  using search run
proof (induction decompress "\<lambda>(_::nat) (_::byte list) (c::Client). c" ks payload c arbitrary: c' rule: run_handlers.induct)
  case (1 decompress payload c)
  then show ?case using self by (simp add: run_handlers.simps)
next
  case (2 decompress k ks payload c)
  define first where "first = (if k = handler_embedded then
      (if length payload < 5 then Inr c
       else if length (drop 5 payload) \<ge> 4 \<and> (from_le (take 4 (drop 5 payload)) :: u32) = PeerSearchResponse
       then handleSearchResponse decompress (drop 5 payload) c
       else run_handlers decompress (\<lambda>_ _ c. c) (map he_handler (Dispatch (\<lambda>_ r. r) (ucast (payload ! 4)) (cl_router c))) (drop 5 payload) c)
    else if k = handler_ping then handlePing c
    else if k = handler_connectToPeer then Inr (handleConnectToPeer payload c)
    else Inr c)"
  have "run_handlers decompress (\<lambda>_ _ c. c) (k # ks) payload c =
     (case first of Inl panic \<Rightarrow> Inl panic | Inr c \<Rightarrow> run_handlers decompress (\<lambda>_ _ c. c) ks payload c)"
    by (simp only: run_handlers.simps first_def Let_def)
  with 2(4) obtain d where d: "first = Inr d" "run_handlers decompress (\<lambda>_ _ c. c) ks payload d = Inr c'" by (cases first) simp_all
  have "R c d" using d(1) 2(1) [OF _ _ refl refl] 2(3) self aside [OF aside_handlePing] aside [OF aside_handleConnectToPeer]
    unfolding first_def by (auto split: if_splits)
  moreover have "R d c'" using 2(2) [unfolded Let_def, folded first_def, OF d(1) 2(3) d(2)] .
  ultimately show ?case by (rule trans)
qed


section \<open>Searches\<close>

text \<open>Registered searches stay live, and no cell that was there before gets registered anew.\<close>

definition search_keeps :: "searchRegistry \<Rightarrow> searchRegistry \<Rightarrow> bool" where
  "search_keeps r r' \<longleftrightarrow> (search_ok r \<longrightarrow> search_ok r' \<and> length (srg_heap r) \<le> length (srg_heap r') \<and>
     (\<forall>t p. p < length (srg_heap r) \<longrightarrow> search_get t r' = Some p \<longrightarrow> search_get t r = Some p))"

lemma search_keeps_refl [simp]: "search_keeps r r"
  by (simp add: search_keeps_def)

lemma search_keeps_trans [trans]: "search_keeps r r' \<Longrightarrow> search_keeps r' r'' \<Longrightarrow> search_keeps r r''"
  by (auto simp: search_keeps_def)

lemma search_keeps_deliver:
  assumes "deliver resp r = Inr (b, r')"
  shows "search_keeps r r'"
proof (cases "search_get (sr_Token resp) r")
  case None
  then show ?thesis using assms by (simp add: deliver_def)
next
  case (Some p)
  have "search_ok r \<Longrightarrow> search_ok r' \<and> srg_searches r' = srg_searches r"
    using search_send_open [OF _ Some refl] assms Some by (fastforce simp: deliver_def)
  moreover have "length (srg_heap r') = length (srg_heap r)"
    using assms Some by (auto simp: deliver_def search_send_def split: sum.splits prod.splits)
  ultimately show ?thesis by (auto simp: search_keeps_def search_get_def)
qed

lemma close_searches_length: "close_searches ps r = Inr r' \<Longrightarrow> length (srg_heap r') = length (srg_heap r)"
  by (induction ps r rule: close_searches.induct)
    (auto simp: search_close_def search_cancel_def search_remove_def split: sum.splits)

lemma search_keeps_closeAll:
  assumes "closeAll r = Inr r'"
  shows "search_keeps r r'"
proof -
  have "search_ok r \<Longrightarrow> srg_searches r' = []" using closeAll_empties [of r] assms by auto
  then show ?thesis using close_searches_length [of "srg_searches r" r r'] assms by (auto simp: search_keeps_def search_ok_def search_get_def closeAll_def)
qed

lemma search_keeps_unregistered:
  assumes "\<And>t. search_get t r \<noteq> Some p"
  shows "search_keeps r (r\<lparr>srg_heap := (srg_heap r)[p := s]\<rparr>)"
proof -
  have "snd x \<noteq> p" if "search_ok r" "x \<in> set (srg_searches r)" for x
    using that assms [of "fst x"] Load_iff [of "srg_searches r" "fst x" "snd x"] by (auto simp: search_ok_def search_get_def)
  then have "(srg_heap r)[p := s] ! snd x = srg_heap r ! snd x" if "search_ok r" "x \<in> set (srg_searches r)" for x
    using that by (metis nth_list_update_neq)
  then show ?thesis by (simp add: search_keeps_def search_ok_def search_get_def)
qed

lemma search_keeps_remove: "search_keeps r (search_remove k r)"
  by (auto simp: search_keeps_def search_ok_def search_remove_def search_get_def set_Delete distinct_Delete split: if_splits)

text \<open>A fresh cell, under a token that may have been in use before (the counter has 32 bits).\<close>

lemma set_Store: "map_ok m \<Longrightarrow> set (Store k v m) = insert (k, v) (set (Delete k m))"
  using map_ok_ops(2) [of m k v] by (auto simp: set_Delete Load_iff [symmetric] split: if_splits)

lemma search_keeps_start: "search_keeps r (search_add k (fst (new_search r)) (snd (new_search r)))"
proof -
  let ?p = "length (srg_heap r)" and ?ps = "srg_searches r"
  have "search_ok (search_add k ?p (r\<lparr>srg_heap := srg_heap r @ [s]\<rparr>))" if live: "live_search k s" and ok: "search_ok r" for s
  proof -
    have m: "map_ok ?ps" "distinct (map snd ?ps)" and lt: "\<And>x. x \<in> set ?ps \<Longrightarrow> snd x < ?p \<and> live_search (fst x) (srg_heap r ! snd x)"
      using ok by (auto simp: search_ok_def)
    have "inj_on snd (insert (k, ?p) (set (Delete k ?ps)))" using m(2) lt by (force simp: inj_on_def distinct_map set_Delete)
    moreover have "distinct (Store k ?p ?ps)" using map_ok_ops(2) [OF m(1), of k ?p] by (simp add: map_ok_def distinct_map)
    ultimately have "distinct (map snd (Store k ?p ?ps))" by (simp add: distinct_map set_Store [OF m(1)])
    moreover have "snd x < length (srg_heap r @ [s]) \<and> live_search (fst x) ((srg_heap r @ [s]) ! snd x)" if "x \<in> set (Store k ?p ?ps)" for x
      using that live lt [of x] by (auto simp: set_Store [OF m(1)] set_Delete nth_append)
    ultimately show ?thesis using m(1) by (simp add: search_ok_def search_add_def)
  qed
  moreover have "live_search k \<lparr>as_ch = make_chan 1000, as_cancelled = False\<rparr>" by (simp add: live_search_def make_chan_def)
  ultimately show ?thesis by (auto simp: search_keeps_def new_search_def search_add_def search_get_def split: if_splits)
qed

section \<open>The invariant of the client\<close>

text \<open>
  The registry, the searches and the upload queue are consistent, uploads are in the state they were created in, and a clean-up that
  is under way is for a search of its own.
\<close>

definition client_inv :: "Client \<Rightarrow> bool" where
  "client_inv c \<longleftrightarrow> client_ok c \<and> upload_inv c \<and> (\<forall>t \<in> set (reg_heap (cl_transfers c)). upload_idle t) \<and>
     (\<forall>(k, p) \<in> cleanups c. p < length (srg_heap (cl_searches c)) \<and> (\<forall>t. search_get t (cl_searches c) = Some p \<longrightarrow> t = k))"

lemma client_inv_New: "client_inv (New opts)"
  using client_ok_New upload_inv_New
  by (auto simp: client_inv_def New_defs NewTransferRegistry_def search_cleanups_def start_goroutine_def Let_def split: option.splits if_splits)

lemma upload_inv_keeps:
  assumes "reg_keeps (cl_transfers c) (cl_transfers c')" "cl_queueMgr c' = cl_queueMgr c" "upload_inv c"
  shows "upload_inv c'"
proof -
  have "reg_ok (cl_transfers c)" using assms(3) by (simp add: upload_inv_def)
  then have "reg_ok (cl_transfers c')" "\<And>k p. GetByToken k (cl_transfers c) = Some p \<Longrightarrow>
      GetByToken k (cl_transfers c') = Some p \<and> identity (tr_of p c') = identity (tr_of p c)" using assms(1) by (simp_all add: reg_keeps_def)
  with assms(2,3) show ?thesis unfolding upload_inv_def by metis
qed

lemma client_ok_keeps:
  assumes "reg_keeps (cl_transfers c) (cl_transfers c')" "search_keeps (cl_searches c) (cl_searches c')" "client_ok c"
  shows "client_ok c'"
  using assms by (simp add: client_ok_def reg_keeps_def search_keeps_def)

lemma client_inv_keeps:
  assumes "client_inv c" "reg_keeps (cl_transfers c) (cl_transfers c')" "cl_queueMgr c' = cl_queueMgr c"
    "search_keeps (cl_searches c) (cl_searches c')" "cleanups c' = cleanups c"
  shows "client_inv c'"
proof -
  have "search_ok (cl_searches c)" using assms(1) by (simp add: client_inv_def client_ok_def)
  then have s: "length (srg_heap (cl_searches c)) \<le> length (srg_heap (cl_searches c'))"
    "\<And>t p. p < length (srg_heap (cl_searches c)) \<Longrightarrow> search_get t (cl_searches c') = Some p \<Longrightarrow> search_get t (cl_searches c) = Some p"
    using assms(4) by (auto simp: search_keeps_def)
  have "client_ok c'" "upload_inv c'" using assms client_ok_keeps upload_inv_keeps by (auto simp: client_inv_def)
  moreover have "\<forall>t \<in> set (reg_heap (cl_transfers c')). upload_idle t"
    using reg_keepsD(4) [OF assms(2)] assms(1) by (simp add: client_inv_def client_ok_def)
  moreover have "p < length (srg_heap (cl_searches c')) \<and> (\<forall>t. search_get t (cl_searches c') = Some p \<longrightarrow> t = k)" if "(k, p) \<in> cleanups c'" for k p
  proof -
    have "p < length (srg_heap (cl_searches c))" "\<And>t. search_get t (cl_searches c) = Some p \<Longrightarrow> t = k"
      using assms(1,5) that by (auto simp: client_inv_def)
    then show ?thesis using s by fastforce
  qed
  ultimately show ?thesis by (auto simp: client_inv_def)
qed

lemma client_inv_quiet: "quiet c c' \<Longrightarrow> client_inv c \<Longrightarrow> client_inv c'"
  using client_inv_keeps by (auto simp: quiet_def)

text \<open>
  What a step has to do: keep the transfers, keep the invariant, register no search anew under a cell that was there before,
  and add to the upload queue only at its end.
\<close>

definition good_step :: "Client \<Rightarrow> Client \<Rightarrow> bool" where
  "good_step c d \<longleftrightarrow> reg_keeps (cl_transfers c) (cl_transfers d) \<and>
     (client_inv c \<longrightarrow> client_inv d \<and> search_keeps (cl_searches c) (cl_searches d) \<and>
        (\<exists>es. q_queue (cl_queueMgr d) = q_queue (cl_queueMgr c) @ es))"

lemma good_step_refl [simp]: "good_step c c"
  by (simp add: good_step_def)

lemma good_step_trans: "good_step c d \<Longrightarrow> good_step d e \<Longrightarrow> good_step c e"
  using reg_keeps_trans [of "cl_transfers c" "cl_transfers d"] search_keeps_trans [of "cl_searches c" "cl_searches d"]
  by (auto simp: good_step_def)

text \<open>The steps that have to do with searches.\<close>

lemma good_step_searches:
  assumes "reg_keeps (cl_transfers c) (cl_transfers d)" "cl_queueMgr d = cl_queueMgr c" "cleanups d = cleanups c"
    "client_inv c \<Longrightarrow> search_keeps (cl_searches c) (cl_searches d)"
  shows "good_step c d"
  using assms client_inv_keeps [of c d] by (simp add: good_step_def)

lemma quiet_good: "quiet c d \<Longrightarrow> good_step c d"
  by (rule good_step_searches) (simp_all add: quiet_def)

lemma aside_good: "aside c d \<Longrightarrow> good_step c d"
  by (rule quiet_good) (rule aside_quiet)

text \<open>A delivery: what the search registered under the token of the response was when it was looked up, it may not be any more.\<close>

lemma search_keeps_send:
  assumes "\<forall>t. search_get t r = Some p \<longrightarrow> t = sr_Token resp" "search_send p resp r = Inr (b, r')"
  shows "search_keeps r r'"
proof (cases "search_get (sr_Token resp) r = Some p")
  case True
  then show ?thesis using search_keeps_deliver [of resp r b r'] assms(2) by (simp add: deliver_def)
next
  case False
  then have "search_get t r \<noteq> Some p" for t using assms(1) by auto
  from search_keeps_unregistered [OF this] show ?thesis using assms(2) by (auto simp: search_send_def split: sum.splits)
qed

lemma good_handleSearchResponse:
  assumes "handleSearchResponse decompress payload c = Inr c'"
  shows "good_step c c'"
proof -
  have "c' = c \<or> (\<exists>resp b r. deliver resp (cl_searches c) = Inr (b, r) \<and> c' = c\<lparr>cl_searches := r\<rparr>)"
    using assms by (auto simp: handleSearchResponse_def split: sum.splits)
  then show ?thesis using search_keeps_deliver by (auto intro: good_step_searches)
qed

lemma good_Search_begin:
  assumes "Search_begin q c = (x, c')"
  shows "good_step c c'"
proof -
  let ?k = "cl_searchToken c + 1"
  have "aside c c' \<or> c' = c\<lparr>cl_searchToken := ?k, cl_searches := search_add ?k (fst (new_search (cl_searches c))) (snd (new_search (cl_searches c)))\<rparr>"
    using assms by (auto simp: Search_begin_def Let_def aside_def split: if_splits option.splits prod.splits)
  then show ?thesis using aside_good search_keeps_start [of "cl_searches c" ?k] by (auto intro: good_step_searches)
qed

text \<open>The cell \<open>p\<close> is registered under no other token than \<open>k\<close>. Once so, always so.\<close>

abbreviation only_under :: "u32 \<Rightarrow> nat \<Rightarrow> searchRegistry \<Rightarrow> bool" where
  "only_under k p r \<equiv> p < length (srg_heap r) \<and> (\<forall>t. search_get t r = Some p \<longrightarrow> t = k)"

lemma only_under_keeps: "search_keeps r r' \<Longrightarrow> search_ok r \<Longrightarrow> only_under k p r \<Longrightarrow> only_under k p r'"
  by (auto simp: search_keeps_def)

lemma search_keeps_dropped:
  assumes "only_under k p r"
  shows "search_keeps r ((search_remove k r)\<lparr>srg_heap := (srg_heap r)[p := s]\<rparr>)"
proof -
  have "search_get t (search_remove k r) \<noteq> Some p" for t using assms by (auto simp: search_remove_def search_get_def split: if_splits)
  from search_keeps_trans [OF search_keeps_remove search_keeps_unregistered [OF this]] show ?thesis by (simp add: search_remove_def)
qed

lemma good_Search_send:
  assumes "only_under k p (cl_searches c)" "Search_send k p request c = Inr (x, c')"
  shows "good_step c c'"
proof -
  from assms(2) obtain e d where d: "server_write request c = Inr (e, d)" by (auto simp: Search_send_def split: sum.splits)
  note a = aside_server_write [OF d]
  show ?thesis
  proof (cases e)
    case None
    then have c': "c' = start_goroutine (Go_searchCleanup k p) d" using assms(2) d by (simp add: Search_send_def)
    have "client_inv c'" if "client_inv c"
    proof -
      have "client_inv d" using client_inv_quiet [OF aside_quiet [OF a] that] .
      moreover have "client_ok c' = client_ok d" "upload_inv c' = upload_inv d" "cl_transfers c' = cl_transfers d" "cl_searches c' = cl_searches d"
        by (simp_all add: c' start_goroutine_def client_ok_def upload_inv_def)
      moreover have "cleanups c' = insert (k, p) (cleanups d)" by (auto simp: c' cleanups_start)
      ultimately show ?thesis using assms(1) a by (auto simp: client_inv_def aside_def)
    qed
    then show ?thesis using a by (auto simp: good_step_def c' start_goroutine_def aside_def)
  next
    case (Some err)
    with assms(2) d obtain r' where r': "search_close p (search_cancel p (search_remove k (cl_searches d))) = Inr r'" "c' = d\<lparr>cl_searches := r'\<rparr>"
      by (auto simp: Search_send_def split: sum.splits)
    have "\<exists>s. r' = (search_remove k (cl_searches d))\<lparr>srg_heap := (srg_heap (cl_searches d))[p := s]\<rparr>"
      using r'(1) by (auto simp: search_close_def search_cancel_def search_remove_def split: sum.splits)
    then have "search_keeps (cl_searches c) r'" using search_keeps_dropped [OF assms(1)] a by (auto simp: aside_def)
    then show ?thesis using a r'(2) by (intro good_step_searches) (auto simp: aside_def)
  qed
qed

lemma good_search_cleanup:
  assumes "(k, p) \<in> cleanups c" "search_cleanup k p (cl_searches c) = Inr r"
  shows "good_step c (c\<lparr>cl_searches := r\<rparr>)"
proof (rule good_step_searches)
  assume "client_inv c"
  then have "only_under k p (cl_searches c)" using assms(1) by (auto simp: client_inv_def)
  from search_keeps_dropped [OF this] show "search_keeps (cl_searches c) (cl_searches (c\<lparr>cl_searches := r\<rparr>))"
    using assms(2) by (auto simp: search_cleanup_def search_close_def search_remove_def split: sum.splits)
qed simp_all

text \<open>Losing the connection, and disconnecting.\<close>

lemma read_failed_closes:
  assumes "read_failed err c = Inr c'"
  shows "good_step c c'"
proof -
  from assms obtain r where "closeAll (cl_searches c) = Inr r" "cl_searches c' = r" "cl_transfers c' = cl_transfers c"
    "cl_queueMgr c' = cl_queueMgr c" "cl_started c' = cl_started c"
    by (auto simp: read_failed_def Let_def split: option.splits sum.splits)
  then show ?thesis using search_keeps_closeAll by (intro good_step_searches) auto
qed

lemma aside_close_cached: "aside c (close_cached hs c)"
proof (induction hs c rule: close_cached.induct)
  case (2 u h hs c)
  have "aside c (set_conns m (close_conn h c))" for m by (rule aside_trans [OF aside_close_conn]) (simp add: aside_def)
  then show ?case using 2 aside_trans by simp blast
qed simp

lemma aside_exits: "aside c (proc_exits c)" "aside c (loop_exits c)"
  by (auto simp: proc_exits_def loop_exits_def close_done_def aside_def Let_def split: option.splits sum.splits)

lemma Disconnect_closes:
  assumes "Disconnect proc_exits loop_exits c = Some (Inr c')"
  shows "good_step c c'"
proof -
  have "\<exists>d r. aside c d \<and> closeAll (cl_searches d) = Inr r \<and> aside (d\<lparr>cl_searches := r\<rparr>) c'" if con: "cl_connected c"
  proof -
    from con assms obtain d where d: "disconnect_state c = Inr d" by (auto simp: Disconnect_def split: sum.splits)
    have "aside c d" using d by (auto simp: disconnect_state_def aside_def split: if_splits option.splits sum.splits)
    moreover from con assms d obtain r where r: "closeAll (cl_searches d) = Inr r" by (auto simp: Disconnect_def split: sum.splits)
    moreover obtain waits e where w: "uploadProcessor_Stop (peerConn_Close (d\<lparr>cl_searches := r\<rparr>)) = Inr (waits, e)"
      using con assms d r by (auto simp: Disconnect_def split: sum.splits)
    let ?e = "if waits then proc_exits e else e"
    from con assms d r w obtain s where "SlotManager_Close (cl_slots ?e) = Inr s" and c': "c' = loop_exits (?e\<lparr>cl_slots := s\<rparr>)"
      by (auto simp: Disconnect_def Let_def split: sum.splits if_splits option.splits)
    have "aside (d\<lparr>cl_searches := r\<rparr>) e"
      using w aside_close_cached [of "d\<lparr>cl_searches := r\<rparr>"] by (auto simp: uploadProcessor_Stop_def peerConn_Close_def aside_def Let_def split: if_splits sum.splits)
    moreover have "aside e ?e" using aside_exits(1) by simp
    moreover have "aside ?e c'" unfolding c' by (rule aside_trans [OF _ aside_exits(2)]) (simp add: aside_def)
    ultimately show ?thesis using aside_trans by blast
  qed
  moreover have "\<not> cl_connected c \<Longrightarrow> c' = c" using assms by (simp add: Disconnect_def)
  ultimately consider "c' = c" | d r where "aside c d" "closeAll (cl_searches d) = Inr r" "aside (d\<lparr>cl_searches := r\<rparr>) c'" by blast
  then show ?thesis
  proof cases
    case (2 d r)
    then show ?thesis using search_keeps_closeAll [of "cl_searches d" r] by (intro good_step_searches) (auto simp: aside_def)
  qed simp
qed

section \<open>Uploads\<close>

lemma handleQueueDownload_cases:
  assumes "reg_ok (cl_transfers c)" "c' = handleQueueDownload now payload u h c"
  obtains "aside c c'"
    | f sz where "aside (accept_upload now u f sz c) c'" "GetByFile u f TransferUpload (cl_transfers c) = None"
        "GetByToken (cl_transferToken c + 1) (cl_transfers c) = None"
proof (cases "DecodeQueueDownload payload")
  case (Inl err)
  then show thesis using that(1) assms(2) by (simp add: handleQueueDownload_def)
next
  case (Inr msg)
  let ?f = "qd_Filename msg" and ?k = "cl_transferToken c + 1"
  note branch = queue_download_branches [OF Inr refl, where c = c and now = now and username = u and h = h, folded assms(2)]
  have told: "aside d (sendUploadDenied h ?f reason d)" "aside d (sendPlaceInQueueResponse h ?f n d)" for reason d n
    by (simp_all add: sendUploadDenied_def sendPlaceInQueueResponse_def)
  have "aside c (c\<lparr>cl_transferToken := ?k\<rparr>)" by (simp add: aside_def)
  from aside_trans [OF this told(1)] have err: "aside c (sendUploadDenied h ?f reason (c\<lparr>cl_transferToken := ?k\<rparr>))" for reason .
  consider "shared_file c ?f = None" | sf err where "shared_file c ?f = Some sf" "refusal c u ?f = Some err"
    | sf p where "shared_file c ?f = Some sf" "refusal c u ?f = None" "GetByFile u ?f TransferUpload (cl_transfers c) = Some p"
    | sf q where "shared_file c ?f = Some sf" "refusal c u ?f = None" "GetByFile u ?f TransferUpload (cl_transfers c) = None"
        "GetByToken ?k (cl_transfers c) = Some q"
    | sf where "shared_file c ?f = Some sf" "refusal c u ?f = None" "GetByFile u ?f TransferUpload (cl_transfers c) = None"
        "GetByToken ?k (cl_transfers c) = None"
    by (metis option.exhaust)
  then show thesis
  proof cases
    case (5 sf)
    show thesis using that(2) [of ?f "sh_Size sf"] branch(5) [OF 5] 5(3,4) told(2) by simp
  qed (use that(1) branch(1-4) told err assms(1) in simp_all)
qed

lemma queue_good: "good_step c (handleQueueDownload now payload u h c)"
proof (cases "reg_ok (cl_transfers c)")
  case True
  let ?c = "handleQueueDownload now payload u h c"
  consider "aside c ?c" | f sz where "aside (accept_upload now u f sz c) ?c" "GetByFile u f TransferUpload (cl_transfers c) = None"
    "GetByToken (cl_transferToken c + 1) (cl_transfers c) = None" by (rule handleQueueDownload_cases [OF True refl])
  then show ?thesis
  proof cases
    case 1
    then show ?thesis by (rule aside_good)
  next
    case (2 f sz)
    let ?a = "accept_upload now u f sz c"
    have same: "cl_searches ?a = cl_searches c" "cl_started ?a = cl_started c" by (simp_all add: accept_upload_def Let_def)
    have new: "reg_keeps (cl_transfers c) (cl_transfers ?a)"
      using reg_keeps_register by (simp add: accept_upload_def Let_def RegisterUpload_def)
    have "client_inv ?a" if inv: "client_inv c"
    proof -
      have "client_ok ?a" using client_ok_keeps [OF new] inv same by (simp add: client_inv_def)
      moreover have "upload_inv ?a" using upload_inv_accept(1) [OF _ 2(2,3)] inv by (simp add: client_inv_def)
      ultimately show ?thesis using inv same reg_keepsD(4) [OF new True] by (simp add: client_inv_def)
    qed
    then have "good_step c ?a" using new same by (simp add: good_step_def accept_upload_def EnqueueUpload_def Let_def)
    then show ?thesis by (rule good_step_trans) (rule aside_good [OF 2(1)])
  qed
next
  case False
  then have "reg_keeps (cl_transfers c) r" "\<not> client_inv c" for r by (auto simp: reg_keeps_def client_inv_def client_ok_def)
  then show ?thesis by (simp add: good_step_def)
qed

text \<open>One message of a peer, one message of the server.\<close>

lemma aside_handlePlaceInQueueRequest: "aside c (handlePlaceInQueueRequest payload u h c)"
  by (auto simp: handlePlaceInQueueRequest_def split: sum.splits)

lemmas handlers_good = good_handleSearchResponse quiet_handleTransferRequest [THEN quiet_good] quiet_handlePlaceInQueueResponse [THEN quiet_good]
  quiet_handleUploadDenied [THEN quiet_good] quiet_handleUploadFailed [THEN quiet_good] queue_good
  aside_handlePlaceInQueueRequest [THEN aside_good]

lemma peer_message_good:
  assumes "peer_message decompress now payload u h c = Inr c'"
  shows "good_step c c'"
proof -
  define good where "good x \<longleftrightarrow> (\<forall>d. x = Inr d \<longrightarrow> good_step c d)" for x :: "go_panic + Client"
  have "good (handleSearchResponse decompress payload c)" "good (handleTransferRequest payload u (Some h) c)"
    "good (handlePlaceInQueueResponse payload u c)" "good (handleUploadDenied now payload u c)" "good (handleUploadFailed now payload u c)"
    "good (Inr (handleQueueDownload now payload u h c))" "good (Inr (handlePlaceInQueueRequest payload u h c))" "good (Inr c)"
    unfolding good_def by (auto intro: handlers_good)
  then have "good (peer_message decompress now payload u h c)" by (simp add: peer_message_def Let_def)
  then show ?thesis using assms by (simp add: good_def)
qed

lemma dispatch_good:
  assumes "dispatch_message decompress (\<lambda>_ _ c. c) code payload c = Inr c'"
  shows "good_step c c'"
  by (rule run_handlers_closed [OF good_step_refl good_step_trans aside_good good_handleSearchResponse assms [unfolded dispatch_message_def]])

section \<open>The end of a transfer\<close>

text \<open>The transfer with token \<open>k\<close> may go; all others stay.\<close>

definition reg_drops :: "u32 \<Rightarrow> TransferRegistry \<Rightarrow> TransferRegistry \<Rightarrow> bool" where
  "reg_drops k r r' \<longleftrightarrow> (reg_ok r \<longrightarrow> reg_ok r' \<and>
     (\<forall>t p. t \<noteq> k \<longrightarrow> GetByToken t r = Some p \<longrightarrow> GetByToken t r' = Some p \<and> identity (deref r' p) = identity (deref r p) \<and>
        (ready_open (deref r p) \<longrightarrow> ready_open (deref r' p))) \<and>
     ((\<forall>t \<in> set (reg_heap r). ready_open t) \<longrightarrow> (\<forall>t \<in> set (reg_heap r'). ready_open t)) \<and>
     ((\<forall>t \<in> set (reg_heap r). upload_idle t) \<longrightarrow> (\<forall>t \<in> set (reg_heap r'). upload_idle t)))"

lemma reg_dropsD:
  assumes "reg_drops k r r'" "reg_ok r"
  shows "reg_ok r'"
    "t \<noteq> k \<Longrightarrow> GetByToken t r = Some p \<Longrightarrow> GetByToken t r' = Some p \<and> identity (deref r' p) = identity (deref r p) \<and>
       (ready_open (deref r p) \<longrightarrow> ready_open (deref r' p))"
    "\<forall>t \<in> set (reg_heap r). ready_open t \<Longrightarrow> \<forall>t \<in> set (reg_heap r'). ready_open t"
    "\<forall>t \<in> set (reg_heap r). upload_idle t \<Longrightarrow> \<forall>t \<in> set (reg_heap r'). upload_idle t"
  using assms unfolding reg_drops_def by blast+

lemma reg_drops_after_keeps:
  assumes "reg_keeps r r'" "reg_drops k r' r''"
  shows "reg_drops k r r''"
  unfolding reg_drops_def
proof (rule impI)
  assume ok: "reg_ok r"
  note 1 = reg_keepsD [OF assms(1) ok] and 2 = reg_dropsD [OF assms(2) reg_keepsD(1) [OF assms(1) ok]]
  have tok: "GetByToken t r'' = Some p \<and> identity (deref r'' p) = identity (deref r p) \<and> (ready_open (deref r p) \<longrightarrow> ready_open (deref r'' p))"
    if "t \<noteq> k" "GetByToken t r = Some p" for t p using 1(2) [OF that(2)] 2(2) [OF that(1), of p] by simp
  show "reg_ok r'' \<and>
     (\<forall>t p. t \<noteq> k \<longrightarrow> GetByToken t r = Some p \<longrightarrow> GetByToken t r'' = Some p \<and> identity (deref r'' p) = identity (deref r p) \<and>
        (ready_open (deref r p) \<longrightarrow> ready_open (deref r'' p))) \<and>
     ((\<forall>t \<in> set (reg_heap r). ready_open t) \<longrightarrow> (\<forall>t \<in> set (reg_heap r''). ready_open t)) \<and>
     ((\<forall>t \<in> set (reg_heap r). upload_idle t) \<longrightarrow> (\<forall>t \<in> set (reg_heap r''). upload_idle t))"
    using 2(1) tok 2(3) [OF 1(3)] 2(4) [OF 1(4)] by blast
qed

lemma reg_drops_Remove:
  assumes "Registry_Remove k r = Inr r'"
  shows "reg_drops k r r'"
proof (cases "reg_ok r \<and> GetByToken k r \<noteq> None")
  case False
  then show ?thesis using assms Remove_absent by (auto simp: reg_drops_def)
next
  case True
  then obtain p where p: "reg_ok r" "GetByToken k r = Some p" by blast
  from Remove_present [OF this] assms obtain ch where r': "reg_byToken r' = Delete k (reg_byToken r)"
    "reg_heap r' = (reg_heap r)[p := (deref r p)\<lparr>t_progressCh := ch\<rparr>]" by auto
  have "deref r' q = deref r q" if "t \<noteq> k" "GetByToken t r = Some q" for t q
  proof -
    have "q \<noteq> p" using that reg_ok_tokenD(2) [OF p] reg_ok_tokenD(2) [OF p(1) that(2)] by auto
    then show ?thesis by (simp add: r'(2))
  qed
  moreover have "GetByToken t r' = GetByToken t r" if "t \<noteq> k" for t using that r'(1) by (simp add: GetByToken_def)
  moreover have "ready_open t" if "\<forall>t \<in> set (reg_heap r). ready_open t" "t \<in> set (reg_heap r')" for t
    using that reg_ok_tokenD(1) [OF p] unfolding r'(2) by (auto simp: ready_open_def dest!: subsetD [OF set_update_subset_insert])
  moreover have "upload_idle t" if "\<forall>t \<in> set (reg_heap r). upload_idle t" "t \<in> set (reg_heap r')" for t
    using that reg_ok_tokenD(1) [OF p] unfolding r'(2) by (auto dest!: subsetD [OF set_update_subset_insert])
  ultimately show ?thesis using reg_ok_Remove [OF p(1) assms] by (simp add: reg_drops_def)
qed

lemma client_inv_drops:
  assumes "client_inv c" "reg_drops k (cl_transfers c) (cl_transfers c')" "cl_searches c' = cl_searches c" "cleanups c' = cleanups c"
    and "set (q_queue (cl_queueMgr c')) \<subseteq> set (q_queue (cl_queueMgr c))" "distinct (map qe_Token (q_queue (cl_queueMgr c')))"
    "k \<notin> qe_Token ` set (q_queue (cl_queueMgr c'))"
  shows "client_inv c'"
proof -
  have ok: "reg_ok (cl_transfers c)" using assms(1) by (simp add: client_inv_def client_ok_def)
  with assms(2) have drops: "reg_ok (cl_transfers c')" "\<And>t p. t \<noteq> k \<Longrightarrow> GetByToken t (cl_transfers c) = Some p \<Longrightarrow>
      GetByToken t (cl_transfers c') = Some p \<and> identity (tr_of p c') = identity (tr_of p c)" by (auto simp: reg_drops_def)
  have "client_ok c'" using assms(1-3) ok by (simp add: client_inv_def client_ok_def reg_drops_def)
  moreover have "\<exists>p. GetByToken (qe_Token e) (cl_transfers c') = Some p \<and>
      identity (tr_of p c') = (TransferUpload, qe_Username e, qe_Filename e, qe_Token e)" if e: "e \<in> set (q_queue (cl_queueMgr c'))" for e
  proof -
    obtain p where "GetByToken (qe_Token e) (cl_transfers c) = Some p"
      "identity (tr_of p c) = (TransferUpload, qe_Username e, qe_Filename e, qe_Token e)"
      using assms(1,5) e unfolding client_inv_def upload_inv_def by blast
    with drops(2) [of "qe_Token e" p] assms(7) e show ?thesis by auto
  qed
  moreover have "\<forall>t \<in> set (reg_heap (cl_transfers c')). upload_idle t"
    using reg_dropsD(4) [OF assms(2) ok] assms(1) by (simp add: client_inv_def)
  ultimately show ?thesis using assms(1,3,4,6) drops(1) by (simp add: client_inv_def upload_inv_def)
qed


text \<open>A tick of the upload processor finds no upload in the state it waits for.\<close>

lemma client_inv_idle:
  assumes "client_inv c"
  shows "uploads_idle c"
  unfolding uploads_idle_def
proof (intro allI impI)
  fix token t
  assume "upload_of c token = Some t"
  then obtain p where p: "GetByToken token (cl_transfers c) = Some p" "t = tr_of p c" "t_Direction t = TransferUpload"
    by (auto simp: upload_of_def split: option.splits if_splits)
  have "p < length (reg_heap (cl_transfers c))" using reg_ok_tokenD(1) [OF _ p(1)] assms by (simp add: client_inv_def client_ok_def)
  then have "t \<in> set (reg_heap (cl_transfers c))" by (simp add: p(2))
  then have "upload_idle t" using assms unfolding client_inv_def by blast
  then show "t_state t = TransferStateNone" using p(3) by (simp add: upload_idle_def)
qed

lemma tick_idle:
  assumes "client_inv c"
  shows "processNextUpload now c = Inr c"
  using client_inv_idle [OF assms] assms by (intro processNextUpload_idle) (simp_all add: client_inv_def)

lemma finish_download_drops:
  assumes "finish_download now tr h e (c, sink) = Inr (c', sink')" "GetByToken k (cl_transfers c) = Some tr"
    and "t_Direction (tr_of tr c) = TransferDownload"
  shows "reg_drops k (cl_transfers c) (cl_transfers c')" "cl_queueMgr c' = cl_queueMgr c" "cl_searches c' = cl_searches c"
    "cl_started c' = cl_started c"
proof -
  obtain g where g: "(case e of Some err \<Rightarrow> download_fail now err | None \<Rightarrow> download_complete now) = (\<lambda>t. emitProgress (g t))"
    "identity (g (tr_of tr c)) = identity (tr_of tr c)" "open_progress (g (tr_of tr c)) = open_progress (tr_of tr c)"
    "t_transferReadyCh (g (tr_of tr c)) = t_transferReadyCh (tr_of tr c)"
  proof (cases e)
    case None
    then show thesis by (intro that [of "\<lambda>t. SetState now (TransferStateCompleted OR TransferStateSucceeded) (t\<lparr>t_Transferred := t_Size t\<rparr>)"])
        (simp_all add: download_complete_def [abs_def])
  next
    case (Some err)
    then show thesis by (intro that [of "\<lambda>t. SetState now (failed_state err) (t\<lparr>t_Error := Some err\<rparr>)"]) (simp_all add: download_fail_def [abs_def])
  qed
  from assms(1) obtain d where d: "report tr (\<lambda>t. emitProgress (g t)) c = Inr d"
    by (auto simp: finish_download_def g(1) split: sum.splits)
  have "upload_idle (g (tr_of tr c))" using g(2) assms(3) by (intro upload_idle_download) (simp add: identity_def)
  then have keep: "reg_keeps (cl_transfers c) (cl_transfers d)" using reg_keeps_report [OF d g(2-4)] by blast
  from assms(1) d obtain r where r: "Registry_Remove (t_Token (tr_of tr d)) (cl_transfers d) = Inr r" "cl_transfers c' = r"
    "cl_queueMgr c' = cl_queueMgr d" "cl_searches c' = cl_searches d" "cl_started c' = cl_started d"
    by (auto simp: finish_download_def g(1) download_cleanup_def close_conn_def with_conn_def split: sum.splits option.splits)
  have "t_Token (tr_of tr d) = k" if "reg_ok (cl_transfers c)"
    using keep assms(2) that reg_ok_tokenD(2) [of "cl_transfers d" k tr] by (simp add: reg_keeps_def)
  then show "reg_drops k (cl_transfers c) (cl_transfers c')"
    using reg_drops_after_keeps [OF keep reg_drops_Remove [OF r(1)]] r(2) by (auto simp: reg_drops_def)
  show "cl_queueMgr c' = cl_queueMgr c" "cl_searches c' = cl_searches c" "cl_started c' = cl_started c"
    using r(3-5) d by (auto simp: report_def upd_tr_def split: sum.splits)
qed

lemma client_inv_finish_download:
  assumes "client_inv c" "finish_download now tr h e (c, sink) = Inr (c', sink')" "GetByToken k (cl_transfers c) = Some tr"
    and "t_Direction (tr_of tr c) = TransferDownload"
  shows "client_inv c'"
proof -
  note f = finish_download_drops [OF assms(2-4)]
  have "k \<notin> qe_Token ` set (q_queue (cl_queueMgr c))"
    using assms(1,3,4) by (fastforce simp: client_inv_def upload_inv_def identity_def TransferUpload_def TransferDownload_def)
  then show ?thesis using assms(1) f by (intro client_inv_drops [OF assms(1) f(1)]) (auto simp: client_inv_def upload_inv_def)
qed

section \<open>All steps of the client\<close>

text \<open>What the reading goroutine of a download does with one message.\<close>

lemma quiet_accept_request:
  assumes "accept_request tr req conn c = Inr (e, conn', c')"
  shows "quiet c c'"
proof -
  define c1 where "c1 = upd_tr tr (\<lambda>t. t\<lparr>t_RemoteToken := treq_Token req, t_Size := treq_FileSize req\<rparr>) c"
  define c2 where "c2 = c1\<lparr>cl_transfers := snd (SetRemoteToken (t_Token (tr_of tr c1)) (treq_Token req) (cl_transfers c1))\<rparr>"
  have "quiet c c1" unfolding c1_def by (rule quiet_upd) simp_all
  moreover have "quiet c1 c2" by (simp add: c2_def quiet_def reg_keeps_SetRemoteToken)
  ultimately have c2: "quiet c c2" by (rule quiet_trans)
  have "c' = c2 \<or> (\<exists>ch x sent ch'. t_transferReadyCh (tr_of tr c2) = Some ch \<and> try_send x ch = Inr (sent, ch') \<and>
      c' = upd_tr tr (\<lambda>t. t\<lparr>t_transferReadyCh := Some ch'\<rparr>) c2)"
    using assms unfolding accept_request_def Let_def c1_def [symmetric] c2_def [symmetric]
    by (auto split: option.splits prod.splits sum.splits)
  moreover have "quiet c2 (upd_tr tr (\<lambda>t. t\<lparr>t_transferReadyCh := Some ch'\<rparr>) c2)"
    if "t_transferReadyCh (tr_of tr c2) = Some ch" "try_send x ch = Inr (sent, ch')" for ch x sent ch'
    using that by (intro quiet_upd) (auto simp: ready_open_def try_send_def split: if_splits)
  ultimately show ?thesis using c2 quiet_trans by blast
qed

lemma quiet_ready_message:
  assumes "ready_message expectedSize tr payload conn c = Inr (r, conn', c')"
  shows "quiet c c'"
proof -
  let ?P = "\<lambda>x. case x of Inl panic \<Rightarrow> True | Inr (r, conn', c') \<Rightarrow> quiet c c'"
  have "?P (ready_message expectedSize tr payload conn c)"
  proof (rule ready_message_results)
    show "?P (case accept_request tr req conn c of Inl panic \<Rightarrow> Inl panic | Inr (e, conn, c) \<Rightarrow> Inr (Some e, conn, c))" for req
      using quiet_accept_request [of tr req conn c] by (cases "accept_request tr req conn c") auto
    show "?P (case report tr emitProgress c of Inl panic \<Rightarrow> Inl panic | Inr c \<Rightarrow> Inr (None, conn, c))"
      using quiet_report [where g = "\<lambda>t. t" and tr = tr and c = c] by (auto split: sum.splits)
  qed simp
  then show ?thesis using assms by simp
qed

text \<open>
  The steps that end no transfer: messages of peers and of the server, calls of the application, the progress of downloads and
  of their reading goroutines, clean-ups of searches, connections, the loss of the server, and whatever happens elsewhere (listener, router, connection
  cache, slots). Where the code holds no lock between looking something up and using it, the second half is a step of its own,
  which may come at any later time: \<open>late_report\<close> for the handlers that report on a download, \<open>late_delivery\<close> for
  \<^verbatim>\<open>deliver\<close>, \<open>search_sent\<close> for \<^verbatim>\<open>Search\<close>. What they rely on once holds for good (\<open>search_owner_stays\<close> below).
\<close>

inductive client_step :: "Client \<Rightarrow> Client \<Rightarrow> bool" where
  peer: "peer_message decompress now payload u h c = Inr c' \<Longrightarrow> client_step c c'"
| late_report: "handler_report f \<Longrightarrow> t_Direction (tr_of tr c) = TransferDownload \<Longrightarrow> report tr f c = Inr c' \<Longrightarrow> client_step c c'"
| late_delivery: "only_under (sr_Token resp) p (cl_searches c) \<Longrightarrow> search_send p resp (cl_searches c) = Inr (sent, r) \<Longrightarrow>
    client_step c (c\<lparr>cl_searches := r\<rparr>)"
| server: "dispatch_message decompress (\<lambda>_ _ c. c) code payload c = Inr c' \<Longrightarrow> client_step c c'"
| connect: "Connect dial c = (err, c') \<Longrightarrow> client_step c c'"
| login: "Login md5_Sum grow username password c = Inr (err, c') \<Longrightarrow> client_step c c'"
| lost: "read_failed err c = Inr c' \<Longrightarrow> client_step c c'"
| disconnect: "Disconnect proc_exits loop_exits c = Some (Inr c') \<Longrightarrow> client_step c c'"
| search: "Search_begin query c = (begun, c') \<Longrightarrow> client_step c c'"
| search_sent: "only_under token p (cl_searches c) \<Longrightarrow> Search_send token p request c = Inr (result, c') \<Longrightarrow> client_step c c'"
| search_done: "(token, p) \<in> cleanups c \<Longrightarrow> search_cleanup token p (cl_searches c) = Inr r \<Longrightarrow> client_step c (c\<lparr>cl_searches := r\<rparr>)"
| download: "Download username filename w opts c = (result, c') \<Longrightarrow> client_step c c'"
| phase: "t_Direction (tr_of tr c) = TransferDownload \<Longrightarrow> enter_state now s tr c = Inr c' \<Longrightarrow> client_step c c'"
| progress: "t_Direction (tr_of tr c) = TransferDownload \<Longrightarrow> report tr (\<lambda>t. emitProgress (UpdateProgress now n t)) c = Inr c' \<Longrightarrow> client_step c c'"
| ready: "t_Direction (tr_of tr c) = TransferDownload \<Longrightarrow> c' \<in> set (take_ready tr c) \<Longrightarrow> client_step c c'"
| reader: "t_Direction (tr_of tr c) = TransferDownload \<Longrightarrow> ready_message expectedSize tr payload conn c = Inr (r, conn', c') \<Longrightarrow> client_step c c'"
| incoming: "handleConnection netConn c = Inr c' \<Longrightarrow> client_step c c'"
| outgoing: "connectToPeerForTransfer dial msg c = Inr c' \<Longrightarrow> client_step c c'"
| begin_connection: "getOrCreate_begin username c = (b, c') \<Longrightarrow> client_step c c'"
| finish_connection: "getOrCreate_finish username p result c = (r, c') \<Longrightarrow> client_step c c'"
| elsewhere: "aside c c' \<Longrightarrow> client_step c c'"

text \<open>All steps: also ticks of the upload processor and the ends of downloads.\<close>

inductive client_next :: "Client \<Rightarrow> Client \<Rightarrow> bool" where
  step: "client_step c c' \<Longrightarrow> client_next c c'"
| tick: "processNextUpload now c = Inr c' \<Longrightarrow> client_next c c'"
| finish: "GetByToken token (cl_transfers c) = Some tr \<Longrightarrow> t_Direction (tr_of tr c) = TransferDownload \<Longrightarrow>
    finish_download now tr h e (c, ()) = Inr (c', ()) \<Longrightarrow> client_next c c'"

inductive client_reach :: "Client \<Rightarrow> bool" where
  start: "client_reach (New opts)"
| advance: "client_reach c \<Longrightarrow> client_next c c' \<Longrightarrow> client_reach c'"

lemma good_late_delivery:
  assumes "only_under (sr_Token resp) p (cl_searches c)" "search_send p resp (cl_searches c) = Inr (sent, r)"
  shows "good_step c (c\<lparr>cl_searches := r\<rparr>)"
  using search_keeps_send [OF _ assms(2)] assms(1) by (intro good_step_searches) auto

lemma client_step_good: "client_step c c' \<Longrightarrow> good_step c c'"
  by (induction rule: client_step.induct)
    (blast intro: peer_message_good dispatch_good aside_good aside_Connect aside_Login good_Search_begin good_Search_send good_search_cleanup
      good_late_delivery quiet_good quiet_handler_report read_failed_closes Disconnect_closes quiet_Download quiet_enter_state
      quiet_progress quiet_take_ready quiet_ready_message quiet_handleConnection quiet_connectToPeerForTransfer aside_getOrCreate)+

text \<open>What holds from one state of the client to a later one.\<close>

lemma client_next_keeps:
  assumes "client_next c c'" "client_inv c"
  shows "client_inv c' \<and> search_keeps (cl_searches c) (cl_searches c') \<and> (\<exists>es. q_queue (cl_queueMgr c') = q_queue (cl_queueMgr c) @ es)"
  using assms
proof (induction rule: client_next.induct)
  case (step c c')
  then show ?case using client_step_good [OF step(1)] by (simp add: good_step_def)
next
  case (tick now c c')
  then show ?case using tick_idle by simp
next
  case (finish token c tr now h e c')
  then show ?case using client_inv_finish_download [OF finish(4,3,1,2)] finish_download_drops(2,3) [OF finish(3,1,2)] by simp
qed

lemma client_later_keeps:
  assumes "client_next\<^sup>*\<^sup>* c c'" "client_inv c"
  shows "client_inv c' \<and> search_keeps (cl_searches c) (cl_searches c') \<and> (\<exists>es. q_queue (cl_queueMgr c') = q_queue (cl_queueMgr c) @ es)"
  using assms
proof (induction rule: rtranclp_induct)
  case (step d e)
  then have d: "client_inv d" "search_keeps (cl_searches c) (cl_searches d)" "\<exists>es. q_queue (cl_queueMgr d) = q_queue (cl_queueMgr c) @ es" by simp_all
  from client_next_keeps [OF step.hyps(2) d(1)] d show ?case using search_keeps_trans by fastforce
qed simp

lemma client_reach_inv: "client_reach c \<Longrightarrow> client_inv c"
  by (induction rule: client_reach.induct) (simp_all add: client_inv_New client_next_keeps)

lemma client_reach_later: "client_next\<^sup>*\<^sup>* c c' \<Longrightarrow> client_reach c \<Longrightarrow> client_reach c'"
  by (induction rule: rtranclp_induct) (auto intro: client_reach.advance)

text \<open>A cell registered under a token is registered under no other later.\<close>

lemma search_owner_stays:
  assumes "client_reach c" "search_get token (cl_searches c) = Some p" "client_next\<^sup>*\<^sup>* c c'"
  shows "only_under token p (cl_searches c')"
proof -
  have inv: "client_inv c" using client_reach_inv [OF assms(1)] .
  then have ok: "search_ok (cl_searches c)" by (simp add: client_inv_def client_ok_def)
  have "t = token" if "search_get t (cl_searches c) = Some p" for t
    using search_owner [OF ok assms(2) search_ok_get(1) [OF ok that]] by simp
  then have "only_under token p (cl_searches c)" using search_ok_get(2) [OF ok assms(2)] by blast
  with client_later_keeps [OF assms(3) inv] ok show ?thesis using only_under_keeps by blast
qed

section \<open>The rest of the client beside one download\<close>






section \<open>Properties\<close>



lemma online_client_reach: "client_reach online_client"
  by (rule client_reach.advance [OF client_reach.start [of None]], rule client_next.step, rule client_step.elsewhere)
    (simp add: aside_def online_client_def)





lemma finish_download_runs:
  assumes "mine token tr c"
  shows "\<not> isl (finish_download now tr h e (c, sink))"
proof -
  from finish_reports [OF assms, of now e] obtain d where
    d: "report tr (case e of Some err \<Rightarrow> download_fail now err | None \<Rightarrow> download_complete now) c = Inr d" "mine token tr d" by blast
  then have "mine token tr (case h of None \<Rightarrow> d | Some h \<Rightarrow> close_conn h d)" by (simp split: option.splits)
  from cleanup_ended [OF this] show ?thesis using d(1) by (auto simp: finish_download_def)
qed

lemma finish_closes:
  assumes "mine token tr c" "finish_download now tr h e (c, sink) = Inr (c', sink')"
  shows "ch_closed (t_progressCh (tr_of tr c'))"
proof -
  from finish_reports [OF assms(1), of now e] obtain d where
    d: "report tr (case e of Some err \<Rightarrow> download_fail now err | None \<Rightarrow> download_complete now) c = Inr d" "mine token tr d" by blast
  then have "mine token tr (case h of None \<Rightarrow> d | Some h \<Rightarrow> close_conn h d)" by (simp split: option.splits)
  from cleanup_ended [OF this] show ?thesis using d(1) assms(2) by (auto simp: finish_download_def)
qed

lemma handler_report_panics:
  assumes "handler_report f"
  shows "report tr f c = Inl SendOnClosed \<longleftrightarrow> ch_closed (t_progressCh (tr_of tr c))" "isl (report tr f c) \<longleftrightarrow> ch_closed (t_progressCh (tr_of tr c))"
proof -
  from assms obtain g where g: "f = (\<lambda>t. emitProgress (g t))" "\<And>t. open_progress (g t) = open_progress t" by (rule handler_reportE) blast
  show "report tr f c = Inl SendOnClosed \<longleftrightarrow> ch_closed (t_progressCh (tr_of tr c))" "isl (report tr f c) \<longleftrightarrow> ch_closed (t_progressCh (tr_of tr c))"
    using g(2) [of "tr_of tr c"] report_ok [of "g (tr_of tr c)"] emitProgress_closed [of "g (tr_of tr c)"]
    by (auto simp: report_def g(1) open_progress_def)
qed

lemma search_send_panics: "isl (search_send p resp r) \<longleftrightarrow> ch_closed (as_ch (srg_heap r ! p))"
  by (auto simp: search_send_def try_send_def)

lemma client_inv_mine:
  assumes "client_inv c" "GetByToken token (cl_transfers c) = Some tr"
  shows "mine token tr c"
proof -
  have "tr_of tr c \<in> set (reg_heap (cl_transfers c))" using assms reg_ok_tokenD(1) by (simp add: client_inv_def client_ok_def)
  then show ?thesis using assms by (simp add: mine_def client_inv_def client_ok_def)
qed

text \<open>A handler that has looked a download up, or a search, and sends only after other steps of the client.\<close>

lemma late_report:
  assumes "client_reach c" "peer_finds (Some (tr, f)) c" "client_next\<^sup>*\<^sup>* c c'"
  shows "isl (report tr f c') \<longleftrightarrow> ch_closed (t_progressCh (tr_of tr c'))"
    "GetByToken token (cl_transfers c') = Some tr \<Longrightarrow> \<not> isl (report tr f c')"
    "GetByToken token (cl_transfers c') = Some tr \<Longrightarrow> finish_download now tr h e (c', sink) = Inr (c'', sink') \<Longrightarrow> report tr f c'' = Inl SendOnClosed"
proof -
  note f = handler_report_panics [OF peer_finds_some(1) [OF assms(2)], of tr]
  have inv: "client_inv c'" using client_later_keeps [OF assms(3) client_reach_inv [OF assms(1)]] by simp
  show "isl (report tr f c') \<longleftrightarrow> ch_closed (t_progressCh (tr_of tr c'))" by (rule f(2))
  assume "GetByToken token (cl_transfers c') = Some tr"
  then have mine: "mine token tr c'" using client_inv_mine [OF inv] by blast
  then show "\<not> isl (report tr f c')" using mineD(3) by (simp add: f(2) open_progress_def)
  assume "finish_download now tr h e (c', sink) = Inr (c'', sink')"
  then show "report tr f c'' = Inl SendOnClosed" unfolding f(1) by (rule finish_closes [OF mine])
qed

lemma late_delivery:
  assumes "client_reach c" "client_next\<^sup>*\<^sup>* c c'" "search_get (sr_Token resp) (cl_searches c') = Some p"
  shows "\<not> isl (search_send p resp (cl_searches c'))"
proof -
  have "client_inv c'" using client_later_keeps [OF assms(2) client_reach_inv [OF assms(1)]] by simp
  then have "live_search (sr_Token resp) (srg_heap (cl_searches c') ! p)" using search_ok_get(3) assms(3) by (simp add: client_inv_def client_ok_def)
  then show ?thesis by (simp add: search_send_panics live_search_def)
qed

text \<open>
  C3: What the client's handlers can run into. In every state the client can get into, by messages of peers and of the server,
  calls of the application and the progress of its own goroutines, in any order, the handlers interrupted between their lookups and their sends or not: the registry's indexes agree, every registered search
  has an open channel, every entry of the upload queue is a registered upload of its own. None of these panics, if it runs without
  another goroutine in between: a peer's
  message, whatever its bytes; a message of the server, while there is a connection; a tick of the upload processor; the end
  of a registered download. And if others do run in between, since the code holds no lock: a handler that has found a download to report on, and reports
  in a later state, panics exactly if the progress channel is closed by then. It is open as long as the download is registered,
  and the end of the download closes it: a report right after that panics. Likewise a response delivered to a search that was looked up before panics
  exactly if the channel of the search is closed by then, which it is not while the search is registered.
\<close>

theorem client_never_trapped:
  assumes "client_reach c"
  shows "reg_ok (cl_transfers c) \<and> search_ok (cl_searches c) \<and> distinct (map qe_Token (q_queue (cl_queueMgr c))) \<and>
     (\<forall>e \<in> set (q_queue (cl_queueMgr c)). \<exists>t. upload_of c (qe_Token e) = Some t \<and>
        identity t = (TransferUpload, qe_Username e, qe_Filename e, qe_Token e)) \<and>
     \<not> isl (peer_message decompress now payload username h c) \<and>
     (cl_conn c \<noteq> None \<longrightarrow> \<not> isl (dispatch_message decompress (\<lambda>_ _ c. c) code payload c)) \<and>
     \<not> isl (processNextUpload now c) \<and>
     (GetByToken token (cl_transfers c) = Some tr \<longrightarrow> \<not> isl (finish_download now tr h' err (c, sink))) \<and>
     (\<forall>tr f c'. peer_finds (Some (tr, f)) c \<and> client_next\<^sup>*\<^sup>* c c' \<longrightarrow>
        (isl (report tr f c') \<longleftrightarrow> ch_closed (t_progressCh (tr_of tr c'))) \<and>
        (\<forall>token. GetByToken token (cl_transfers c') = Some tr \<longrightarrow> \<not> isl (report tr f c') \<and>
           (\<forall>c''. finish_download now tr h' err (c', sink) = Inr (c'', sink) \<longrightarrow> report tr f c'' = Inl SendOnClosed))) \<and>
     (\<forall>resp p c'. search_get (sr_Token resp) (cl_searches c) = Some p \<and> client_next\<^sup>*\<^sup>* c c' \<longrightarrow>
        (isl (search_send p resp (cl_searches c')) \<longleftrightarrow> ch_closed (as_ch (srg_heap (cl_searches c') ! p))) \<and>
        (search_get (sr_Token resp) (cl_searches c') = Some p \<longrightarrow> \<not> isl (search_send p resp (cl_searches c'))))"
proof -
  have inv: "client_ok c" "upload_inv c" using client_reach_inv [OF assms] by (simp_all add: client_inv_def)
  have "\<not> isl (peer_message decompress now payload username h c)" using peer_message_serves [OF inv(1), of decompress now payload username h] by auto
  moreover have "\<not> isl (dispatch_message decompress (\<lambda>_ _ c. c) code payload c)" if "cl_conn c \<noteq> None"
    using run_handlers_keep [where other = "\<lambda>_ _ c. c", OF keeps_session_refl inv(1) that] unfolding dispatch_message_def by (metis sum.disc(2))
  moreover have "\<not> isl (finish_download now tr h' err (c, sink))" if "GetByToken token (cl_transfers c) = Some tr"
    by (rule finish_download_runs) (rule client_inv_mine [OF client_reach_inv [OF assms] that])
  moreover have "(isl (report tr f c') \<longleftrightarrow> ch_closed (t_progressCh (tr_of tr c'))) \<and>
      (\<forall>token. GetByToken token (cl_transfers c') = Some tr \<longrightarrow> \<not> isl (report tr f c') \<and>
         (\<forall>c''. finish_download now tr h' err (c', sink) = Inr (c'', sink) \<longrightarrow> report tr f c'' = Inl SendOnClosed))"
    if "peer_finds (Some (tr, f)) c \<and> client_next\<^sup>*\<^sup>* c c'" for tr f c'
    by (intro conjI allI impI) (rule late_report [OF assms conjunct1 [OF that] conjunct2 [OF that]]; assumption)+
  moreover have "(isl (search_send p resp (cl_searches c')) \<longleftrightarrow> ch_closed (as_ch (srg_heap (cl_searches c') ! p))) \<and>
      (search_get (sr_Token resp) (cl_searches c') = Some p \<longrightarrow> \<not> isl (search_send p resp (cl_searches c')))"
    if "client_next\<^sup>*\<^sup>* c c'" for resp p c'
    using search_send_panics late_delivery [OF assms that] by blast
  moreover have "\<not> isl (processNextUpload now c)" using tick_idle [OF client_reach_inv [OF assms]] by simp
  ultimately show ?thesis using inv unfolding client_ok_def upload_inv_alt by blast
qed


text \<open>A download from bob, and bob's report on its place in the queue, looked up while the download runs and passed on after its end.\<close>

theorem client_never_trapped_witness:
  "let c = snd (Download ''bob'' ''a.mp3'' 0 [] online_client);
       found = found_PlaceInQueueResponse (w_sink (buffer_of (PlaceInQueueResponse_Encode \<lparr>piq_Filename = ''a.mp3'', piq_Place = 7\<rparr>))) ''bob'' c
   in \<not> isl (peer_message Inr 3 [41, 0, 0, 0, 9] ''eve'' 0 c) \<and> \<not> isl (dispatch_message Inr (\<lambda>_ _ c. c) 32 [32, 0, 0, 0] c) \<and>
     \<not> isl (run_report found c) \<and> (\<exists>c''. finish_download 4 0 None (Some EOF) (c, ()) = Inr (c'', ()) \<and> run_report found c'' = Inl SendOnClosed)"
proof -
  let ?c = "snd (Download ''bob'' ''a.mp3'' 0 [] online_client)"
  let ?m = "w_sink (buffer_of (PlaceInQueueResponse_Encode \<lparr>piq_Filename = ''a.mp3'', piq_Place = 7\<rparr>))"
  have reach: "client_reach ?c"
    by (rule client_reach.advance [OF online_client_reach], rule client_next.step, rule client_step.download, rule prod.collapse [symmetric])
  have reg: "cl_conn ?c \<noteq> None" "GetByToken 1 (cl_transfers ?c) = Some 0" "GetByFile ''bob'' ''a.mp3'' TransferDownload (cl_transfers ?c) = Some 0"
    by code_simp+
  have "DecodePlaceInQueueResponse ?m = Inr \<lparr>piq_Filename = ''a.mp3'', piq_Place = 7\<rparr>" by (rule piq.decode_encode) simp
  then have found: "found_PlaceInQueueResponse ?m ''bob'' ?c = Some (0, SetQueuePosition 7)" using reg(3) by (simp add: found_PlaceInQueueResponse_def)
  then have finds: "peer_finds (Some (0, SetQueuePosition 7)) ?c" unfolding peer_finds_def by metis
  note safe = client_never_trapped [OF reach, of Inr 4 "[32, 0, 0, 0]" "''eve''" 0 32 1 0 None "Some EOF" "()"]
  from safe reg(2) obtain c'' where c'': "finish_download 4 0 None (Some EOF) (?c, ()) = Inr (c'', ())"
    by (cases "finish_download 4 0 None (Some EOF) (?c, ())") auto
  moreover have "\<not> isl (report 0 (SetQueuePosition 7) ?c)" "report 0 (SetQueuePosition 7) c'' = Inl SendOnClosed"
    using safe finds reg(2) c'' by blast+
  moreover have "\<not> isl (peer_message Inr 3 [41, 0, 0, 0, 9] ''eve'' 0 ?c)"
    using client_never_trapped [OF reach, of Inr 3 "[41, 0, 0, 0, 9]" "''eve''" 0 32 1 0 None "Some EOF" "()"] by blast
  moreover have "\<not> isl (dispatch_message Inr (\<lambda>_ _ c. c) 32 [32, 0, 0, 0] ?c)" using safe reg(1) by blast
  ultimately show ?thesis unfolding Let_def found run_report_def by auto
qed

text \<open>
  C19: Accepted uploads are never started. From any state the client can get into, whatever happens after it (requests of peers on whatever
  connections, ticks of the upload processor, downloads, searches, reconnecting, in any order): a tick of the upload processor changes
  nothing at all, since it looks at the head of the queue, finds an upload in the state it was created in, and skips it,
  waiting for the state \<^verbatim>\<open>Queued|Locally\<close> that no code sets for an upload. So whoever is in the queue keeps the
  place, new entries come behind, and every queued upload stays in state \<^verbatim>\<open>None\<close>.
\<close>

theorem queued_uploads_never_start:
  assumes "client_reach c" "client_next\<^sup>*\<^sup>* c c'"
  shows "processNextUpload now c' = Inr c' \<and> (\<exists>es. q_queue (cl_queueMgr c') = q_queue (cl_queueMgr c) @ es) \<and>
     (\<forall>e \<in> set (q_queue (cl_queueMgr c')). \<exists>t. upload_of c' (qe_Token e) = Some t \<and> t_state t = TransferStateNone)"
proof -
  note keeps = client_later_keeps [OF assms(2) client_reach_inv [OF assms(1)]]
  then have inv: "client_inv c'" by simp
  then have "uploads_idle c'" by (rule client_inv_idle)
  moreover have "upload_inv c'" using inv by (simp add: client_inv_def)
  ultimately have "\<forall>e \<in> set (q_queue (cl_queueMgr c')). \<exists>t. upload_of c' (qe_Token e) = Some t \<and> t_state t = TransferStateNone"
    unfolding upload_inv_alt uploads_idle_def by blast
  then show ?thesis using tick_idle [OF inv] keeps by blast
qed

theorem queued_uploads_never_start_witness:
  "let c = handleQueueDownload 5 demo_request ''ann'' 0 demo_client
   in map qe_Username (q_queue (cl_queueMgr c)) = [''ann''] \<and> processNextUpload 9 c = Inr c"
proof -
  let ?c = "handleQueueDownload 5 demo_request ''ann'' 0 demo_client"
  have "client_reach demo_client"
    by (rule client_reach.advance [OF client_reach.start [of "Some (DefaultOptions\<lparr>opt_FileSharer := Some demo_shares\<rparr>)"]],
        rule client_next.step, rule client_step.elsewhere) (simp add: aside_def demo_client_def)
  moreover have "peer_message Inr 5 demo_request ''ann'' 0 demo_client = Inr ?c"
    using qd.Decode_code [OF demo_request] by (simp add: peer_message_def wire_code message_defs)
  then have "client_next demo_client ?c" by (intro client_next.step client_step.peer)
  ultimately have "client_reach ?c" by (rule client_reach.advance)
  moreover have "q_queue (cl_queueMgr demo_client) = []" by (simp add: demo_client_def New_defs NewQueueManager_def)
  then have "map qe_Username (q_queue (cl_queueMgr ?c)) = [''ann'']"
    using handleQueueDownload_said [OF demo_client(1,2) demo_request, of "''ann''" 5] demo_client(4)
    by (auto simp: said_def accept_upload_def EnqueueUpload_def Let_def)
  ultimately show ?thesis using queued_uploads_never_start [of ?c ?c 9] by (simp add: Let_def)
qed

end
