(* ===== verification/Poc.thy ===== *)
theory Poc
  imports Session Negotiation
begin

text \<open>
  The command-line program \<^verbatim>\<open>src/cmd/poc/main.go\<close>: it connects, logs in, searches, prints what it finds and downloads the first
  suitable file. What it prints is a list of strings, one for each call of \<^verbatim>\<open>fmt\<close>. Its flags are a record; what the operating system,
  the network and the other goroutines do is the record \<open>PocEnv\<close>. A run returns, panics, or never ends. (The deferred calls of a
  run that panics are left out: the program is going down.)
\<close>

section \<open>Formatting and file names\<close>

definition nl :: string where "nl = [CHR 0x0A]"

text \<open>\<^verbatim>\<open>/ 1024\<close> on a signed integer truncates towards zero.\<close>

definition kilo :: "int \<Rightarrow> int" where
  "kilo n = (if n < 0 then - ((- n) div 1024) else n div 1024)"

text \<open>\<^verbatim>\<open>%.1f\<close>: the nearest tenth, the even one of two.\<close>

definition format_tenths :: "float64 \<Rightarrow> string" where
  "format_tenths x =
     (let y = \<bar>x\<bar> * 10; n = \<lfloor>y\<rfloor>; r = y - of_int n;
          n = (if r > 1 / 2 \<or> r = 1 / 2 \<and> odd n then n + 1 else n)
      in (if x < 0 then ''-'' else '''') @ decimal_int (n div 10) @ ''.'' @ decimal_int (n mod 10))"

text \<open>\<^verbatim>\<open>time.Duration.String\<close>: \<open>fraction prec v\<close> are the last \<open>prec\<close> digits of \<open>v\<close> after a point, without trailing zeros.\<close>

definition fraction :: "nat \<Rightarrow> int \<Rightarrow> string" where
  "fraction prec v =
     (let ds = dropWhile (\<lambda>d. d = CHR ''0'') (map (\<lambda>i. digit_char (nat (v div 10 ^ i mod 10))) [0..<prec])
      in if ds = [] then '''' else ''.'' @ rev ds)"

definition Duration_String :: "int \<Rightarrow> string" where
  "Duration_String d =
     (let u = \<bar>d\<bar>; s = u div 10 ^ 9; m = s div 60;
          str = (if u = 0 then ''0s''
                 else if u < 10 ^ 3 then decimal_int u @ ''ns''
                 else if u < 10 ^ 6 then decimal_int (u div 10 ^ 3) @ fraction 3 u @ [CHR 0xC2, CHR 0xB5] @ ''s''
                 else if u < 10 ^ 9 then decimal_int (u div 10 ^ 6) @ fraction 6 u @ ''ms''
                 else (if m = 0 then '''' else (if m div 60 = 0 then '''' else decimal_int (m div 60) @ ''h'') @ decimal_int (m mod 60) @ ''m'') @
                      decimal_int (s mod 60) @ fraction 9 u @ ''s'')
      in (if d < 0 then ''-'' else '''') @ str)"

text \<open>\<^verbatim>\<open>filepath.Base\<close> (Unix): the last element, trailing slashes aside.\<close>

definition Base :: "string \<Rightarrow> string" where
  "Base p =
     (if p = '''' then ''.''
      else let b = last (split_on (CHR ''/'') (rev (dropWhile (\<lambda>x. x = CHR ''/'') (rev p))))
           in if b = '''' then ''/'' else b)"

definition bool_string :: "bool \<Rightarrow> string" where
  "bool_string b = (if b then ''true'' else ''false'')"

text \<open>\<^verbatim>\<open>net.IP.String\<close> of an address of four bytes, or of none.\<close>

definition IPAddress_string :: "byte list option \<Rightarrow> string" where
  "IPAddress_string ip = (case ip of None \<Rightarrow> ''<nil>'' | Some bs \<Rightarrow> IP_String bs)"

section \<open>Search results\<close>

fun print_files :: "nat \<Rightarrow> nat \<Rightarrow> File list \<Rightarrow> string list" where
  "print_files n i [] = []"
| "print_files n i (f # fs) =
     (if i \<ge> 3 then [''    ... and '' @ decimal (n - 3) @ '' more files'' @ nl]
      else (if f_BitRate f > 0
            then ''    '' @ f_Filename f @ '' ('' @ decimal_int (kilo (sint (f_Size f))) @ '' KB, '' @ decimal (unat (f_BitRate f)) @ '' kbps)'' @ nl
            else ''    '' @ f_Filename f @ '' ('' @ decimal_int (kilo (sint (f_Size f))) @ '' KB)'' @ nl)
           # print_files n (i + 1) fs)"

definition printSearchResponse :: "i64 \<Rightarrow> SearchResponse \<Rightarrow> string list" where
  "printSearchResponse n resp =
     [''['' @ decimal_int (sint n) @ ''] '' @ sr_Username resp @ '': '' @ decimal (length (sr_Files resp)) @ '' files''] @
     (if sr_HasFreeSlot resp then ['' (free slot)''] else []) @
     ['' - '' @ decimal (unat (sr_UploadSpeed resp) div 1024) @ '' KB/s, queue: '' @ decimal (unat (sr_QueueLength resp)) @ nl] @
     print_files (length (sr_Files resp)) 0 (sr_Files resp)"

text \<open>The variables of the loop over the results.\<close>

record Collected =
  co_resultCount :: i64
  co_fileCount :: i64
  co_firstResult :: "SearchResponse option"
  co_firstFile :: "File option"

definition collect :: "SearchResponse \<Rightarrow> string list \<times> Collected \<Rightarrow> string list \<times> Collected" where
  "collect resp s =
     (let (out, k) = s;
          k = k\<lparr>co_resultCount := co_resultCount k + 1, co_fileCount := co_fileCount k + word_of_nat (length (sr_Files resp))\<rparr>;
          out = out @ printSearchResponse (co_resultCount k) resp
      in if co_firstResult k = None \<and> length (sr_Files resp) > 0 \<and> sr_HasFreeSlot resp \<and> sr_QueueLength resp = 0
         then (out @ [''  ^^^ Selected for download (free slot, no queue)'' @ nl],
               k\<lparr>co_firstResult := Some resp, co_firstFile := Some (sr_Files resp ! 0)\<rparr>)
         else (out, k))"

definition collect_results :: "SearchResponse list \<Rightarrow> string list \<times> Collected" where
  "collect_results rs = fold collect rs ([], \<lparr>co_resultCount = 0, co_fileCount = 0, co_firstResult = None, co_firstFile = None\<rparr>)"

section \<open>Downloading\<close>

text \<open>What the loop prints for a report of a transfer that is not completed.\<close>

definition progress_line :: "TransferProgress \<Rightarrow> string list" where
  "progress_line p =
     (let s = tp_State p
      in if s AND TransferStateInProgress \<noteq> 0 then
           (let pct = (if sint (tp_FileSize p) > 0 then float_of (tp_BytesTransferred p) / float_of (tp_FileSize p) * 100 else 0)
            in [''  Progress: '' @ format_tenths pct @ ''% ('' @ decimal_int (sint (tp_BytesTransferred p)) @ '' / '' @
                decimal_int (sint (tp_FileSize p)) @ '' bytes)'' @ [CHR 0x0D]])
         else if s AND TransferStateInitializing \<noteq> 0 then [''  Status: connecting for transfer'' @ nl]
         else if IsQueued s \<and> IsRemote s then
           (if tp_QueuePosition p > 0
            then [''  Status: queued remotely (position '' @ decimal (unat (tp_QueuePosition p)) @ '')'' @ nl]
            else [''  Status: queued remotely'' @ nl])
         else if IsQueued s \<and> IsLocal s then [''  Status: queued locally'' @ nl]
         else if s AND TransferStateRequested \<noteq> 0 then [''  Status: request sent'' @ nl]
         else [])"

text \<open>\<^verbatim>\<open>fmt.Errorf("...: %w", err)\<close> where \<^verbatim>\<open>err\<close> may be nil.\<close>

definition wrap_nilable :: "string \<Rightarrow> go_error option \<Rightarrow> go_error" where
  "wrap_nilable m e = (case e of None \<Rightarrow> ErrorString (m @ '': %!w(<nil>)'') | Some err \<Rightarrow> WrapError m err)"

text \<open>
  The loop over the progress reports: each report that is received comes with the state of the client at that time; \<open>c\<close> is the
  client when the channel is closed.
\<close>

fun monitor :: "string \<Rightarrow> (TransferProgress \<times> Client) list \<Rightarrow> Client \<Rightarrow> string list \<times> go_error option \<times> Client" where
  "monitor outputPath [] c = ([], None, c)"
| "monitor outputPath ((p, cp) # rest) c =
     (if IsCompleted (tp_State p) then
        (if tp_State p AND TransferStateSucceeded \<noteq> 0 then
           (let (out, r) = monitor outputPath rest c in ((nl @ ''  Download completed! Saved to: '' @ outputPath @ nl) # out, r))
         else if tp_State p AND TransferStateCancelled \<noteq> 0 then ([], Some (ErrorString ''transfer cancelled''), cp)
         else ([], Some (wrap_nilable ''transfer failed'' (tp_Error p)), cp))
      else (let (out, r) = monitor outputPath rest c in (progress_line p @ out, r)))"

text \<open>
  The environment. \<open>pe_getenv\<close> is the process environment after \<^verbatim>\<open>godotenv.Load\<close>; \<open>pe_others i\<close> is what the other goroutines do to the
  client before the \<open>i\<close>-th of its uses; \<open>pe_results\<close> and \<open>pe_progress\<close> are what is received from the channel of a search and of a
  download until it is closed; \<open>pe_signal\<close> is the client when a signal arrives, \<open>None\<close> if none does.
\<close>

record PocEnv =
  pe_getenv :: "string \<Rightarrow> string"
  pe_dial :: "string \<Rightarrow> go_error + Conn"
  pe_md5 :: "byte list \<Rightarrow> byte list"
  pe_grow :: "nat \<Rightarrow> nat"
  pe_listen :: "u32 \<Rightarrow> go_error + int"
  pe_others :: "nat \<Rightarrow> Client \<Rightarrow> Client"
  pe_results :: "nat \<Rightarrow> Client \<Rightarrow> SearchResponse list \<times> Client"
  pe_create :: "string \<Rightarrow> go_error + handle"
  pe_progress :: "ref \<Rightarrow> Client \<Rightarrow> (TransferProgress \<times> Client) list \<times> Client"
  pe_signal :: "Client \<Rightarrow> Client option"
  pe_waitProc :: "Client \<Rightarrow> Client"
  pe_waitLoop :: "Client \<Rightarrow> Client"

definition output_path :: "string \<Rightarrow> string \<Rightarrow> string" where
  "output_path outputDir filename = Join outputDir (Base filename)"

definition downloadFile :: "PocEnv \<Rightarrow> string \<Rightarrow> File \<Rightarrow> string \<Rightarrow> Client \<Rightarrow> string list \<times> go_error option \<times> Client" where
  "downloadFile env username fl outputDir c =
     (let outputPath = output_path outputDir (f_Filename fl)
      in case pe_create env outputPath of
           Inl err \<Rightarrow> ([], Some (WrapError ''create file'' err), c)
         | Inr f \<Rightarrow>
             (case Download username (f_Filename fl) f [] c of
                (Inl err, c) \<Rightarrow> ([], Some err, c)
              | (Inr tr, c) \<Rightarrow> (case pe_progress env tr c of (ps, c) \<Rightarrow> monitor outputPath ps c)))"

section \<open>The program\<close>

record Flags =
  fl_user :: string
  fl_pass :: string
  fl_server :: string
  fl_port :: u64
  fl_search :: string
  fl_timeout :: int
  fl_download :: bool
  fl_out :: string

text \<open>The flags nobody gave.\<close>

definition default_flags :: Flags where
  "default_flags = \<lparr>fl_user = '''', fl_pass = '''', fl_server = DefaultServerAddress, fl_port = 0, fl_search = '''',
     fl_timeout = 5 * second, fl_download = False, fl_out = ''.''\<rparr>"

datatype 'a exit = Returned 'a | Panicked go_panic | Hung

type_synonym poc_exit = "(go_error option \<times> Client) exit"

text \<open>\<^verbatim>\<open>run\<close>, from the search on.\<close>

definition poc_search :: "PocEnv \<Rightarrow> Flags \<Rightarrow> Client \<Rightarrow> string list \<times> poc_exit" where
  "poc_search env fl c =
     (if fl_search fl = '''' then
        ([''No search query provided. Waiting for messages (Ctrl+C to exit)...'' @ nl],
         case pe_signal env c of None \<Rightarrow> Hung | Some c \<Rightarrow> Returned (None, c))
      else
        let out = [''Searching for: '' @ fl_search fl @ nl, ''(waiting '' @ Duration_String (fl_timeout fl) @ '' for results...)'' @ nl @ nl]
        in case Search (fl_search fl) (pe_others env 2 c) of
             Inl panic \<Rightarrow> (out, Panicked panic)
           | Inr (Inl err, c) \<Rightarrow> (out, Returned (Some (WrapError ''search'' err), c))
           | Inr (Inr results, c) \<Rightarrow>
               (case pe_results env results c of
                  (rs, c) \<Rightarrow>
                    (let (found, k) = collect_results rs;
                         out = out @ found @ [nl @ ''Search completed. Got '' @ decimal_int (sint (co_resultCount k)) @ '' results with '' @
                                              decimal_int (sint (co_fileCount k)) @ '' total files.'' @ nl]
                     in case (co_firstResult k, co_firstFile k) of
                          (Some resp, Some f) \<Rightarrow>
                            if fl_download fl then
                              (case downloadFile env (sr_Username resp) f (fl_out fl) (pe_others env 3 c) of
                                 (progress, e, c) \<Rightarrow>
                                   (out @ [nl @ ''Downloading first result from '' @ sr_Username resp @ ''...'' @ nl, ''  File: '' @ f_Filename f @ nl,
                                           ''  Size: '' @ decimal_int (kilo (sint (f_Size f))) @ '' KB'' @ nl] @ progress,
                                    Returned (map_option (WrapError ''download'') e, c)))
                            else (out, Returned (None, c))
                        | _ \<Rightarrow> (out, Returned (None, c)))))"

text \<open>\<^verbatim>\<open>defer\<close>: \<open>later\<close> runs on the client when the function returns.\<close>

definition on_return :: "(Client \<Rightarrow> Client exit) \<Rightarrow> string list \<times> poc_exit \<Rightarrow> string list \<times> poc_exit" where
  "on_return later x =
     (case x of (out, r) \<Rightarrow>
       (out, case r of
          Returned (e, c) \<Rightarrow> (case later c of Returned c \<Rightarrow> Returned (e, c) | Panicked panic \<Rightarrow> Panicked panic | Hung \<Rightarrow> Hung)
        | Panicked panic \<Rightarrow> Panicked panic
        | Hung \<Rightarrow> Hung))"

definition also_printed :: "string list \<Rightarrow> string list \<times> 'a \<Rightarrow> string list \<times> 'a" where
  "also_printed out x = (out @ fst x, snd x)"

text \<open>\<^verbatim>\<open>run\<close>, from the successful \<^verbatim>\<open>Connect\<close> on, without the deferred \<^verbatim>\<open>Disconnect\<close>.\<close>

definition poc_session :: "PocEnv \<Rightarrow> Flags \<Rightarrow> string \<Rightarrow> string \<Rightarrow> Client \<Rightarrow> string list \<times> poc_exit" where
  "poc_session env fl username password c =
     (let out = [''Connected!'' @ nl, ''Logging in as '' @ [CHR 0x27] @ username @ [CHR 0x27] @ ''...'' @ nl]
      in case Login (pe_md5 env) (pe_grow env) username password c of
           Inl panic \<Rightarrow> (out, Panicked panic)
         | Inr (Some err, c) \<Rightarrow> (out, Returned (Some (WrapError ''login'' err), c))
         | Inr (None, c) \<Rightarrow>
             (let c = pe_others env 0 c;
                  out = out @ [nl, ''Login successful!'' @ nl, ''  Username:  '' @ Username c @ nl, ''  Public IP: '' @ IPAddress_string (IPAddress c) @ nl,
                               ''  Supporter: '' @ bool_string (IsSupporter c) @ nl]
              in if fl_port fl > 0 then
                   (case StartListener (pe_listen env) (pe_others env 1 c) of
                      (Some err, c) \<Rightarrow> (out, Returned (Some (WrapError ''start listener'' err), c))
                    | (None, c) \<Rightarrow>
                        on_return (\<lambda>c. Returned (StopListener c))
                          (also_printed (out @ [''  Listener:  port '' @ decimal_int (ListenerPort c) @ nl, nl]) (poc_search env fl c)))
                 else also_printed (out @ [nl]) (poc_search env fl c)))"

definition disconnect_exit :: "PocEnv \<Rightarrow> Client \<Rightarrow> Client exit" where
  "disconnect_exit env c =
     (case Disconnect (pe_waitProc env) (pe_waitLoop env) c of
        None \<Rightarrow> Hung
      | Some (Inl panic) \<Rightarrow> Panicked panic
      | Some (Inr c) \<Rightarrow> Returned c)"

definition poc_credentials :: "PocEnv \<Rightarrow> Flags \<Rightarrow> string \<times> string" where
  "poc_credentials env fl =
     (if fl_user fl = '''' then pe_getenv env ''SOULSEEK_USERNAME'' else fl_user fl,
      if fl_pass fl = '''' then pe_getenv env ''SOULSEEK_PASSWORD'' else fl_pass fl)"

definition poc_options :: "Flags \<Rightarrow> Options" where
  "poc_options fl = DefaultOptions\<lparr>opt_ServerAddress := fl_server fl, opt_ListenPort := ucast (fl_port fl)\<rparr>"

definition poc_run :: "PocEnv \<Rightarrow> Flags \<Rightarrow> string list \<times> poc_exit" where
  "poc_run env fl =
     (let (username, password) = poc_credentials env fl; c = New (Some (poc_options fl))
      in if username = '''' \<or> password = '''' then
           ([], Returned (Some (ErrorString ''credentials required: use -user/-pass flags or set SOULSEEK_USERNAME/SOULSEEK_PASSWORD in .env''), c))
         else
           let out = [''Connecting to '' @ opt_ServerAddress (poc_options fl) @ ''...'' @ nl]
           in case Connect (pe_dial env) c of
                (Some err, c) \<Rightarrow> (out, Returned (Some (WrapError ''connect'' err), c))
              | (None, c) \<Rightarrow> on_return (disconnect_exit env) (also_printed out (poc_session env fl username password c)))"

text \<open>\<^verbatim>\<open>main\<close>: what goes to the standard output, and, if the program ends, what goes to the standard error and the exit status.\<close>

definition poc_main :: "PocEnv \<Rightarrow> Flags \<Rightarrow> string list \<times> (string \<times> nat) exit" where
  "poc_main env fl =
     (case poc_run env fl of
        (out, Returned (Some err, c)) \<Rightarrow> (out, Returned (''error: '' @ Error err @ nl, 1))
      | (out, Returned (None, c)) \<Rightarrow> (out, Returned ('''', 0))
      | (out, Panicked panic) \<Rightarrow> (out, Panicked panic)
      | (out, Hung) \<Rightarrow> (out, Hung))"

text \<open>A world for the examples: the server accepts the connection and closes it, a search finds a busy peer and a free one.\<close>

definition demo_file :: File where
  "demo_file = \<lparr>f_Code = 1, f_Filename = ''a.mp3'', f_Size = 4096, f_Extension = ''mp3'', f_Attributes = [], f_BitRate = 320, f_Duration = 0,
     f_BitDepth = 0, f_SampleRate = 0, f_IsVBR = False\<rparr>"

definition demo_response :: "string \<Rightarrow> u32 \<Rightarrow> SearchResponse" where
  "demo_response user queue = \<lparr>sr_Username = user, sr_Token = 1, sr_Files = [demo_file], sr_LockedFiles = [], sr_HasFreeSlot = True,
     sr_UploadSpeed = 2048, sr_QueueLength = queue\<rparr>"

definition demo_poc :: PocEnv where
  "demo_poc = \<lparr>pe_getenv = (\<lambda>_. ''''), pe_dial = (\<lambda>_. Inr (NewConn [] EOF)), pe_md5 = (\<lambda>_. []), pe_grow = id, pe_listen = (\<lambda>_. Inr 0),
     pe_others = (\<lambda>_ c. c), pe_results = (\<lambda>_ c. ([demo_response ''ann'' 3, demo_response ''bob'' 0], c)),
     pe_create = (\<lambda>p. if p = ''.'' \<or> p = ''..'' then Inl (OSError ''is a directory'') else Inr 0),
     pe_progress = (\<lambda>_ c. ([], c)), pe_signal = (\<lambda>_. None), pe_waitProc = id, pe_waitLoop = id\<rparr>"

section \<open>What the program prints and picks\<close>

text \<open>A response the program would download from.\<close>

definition eligible :: "SearchResponse \<Rightarrow> bool" where
  "eligible r \<longleftrightarrow> sr_Files r \<noteq> [] \<and> sr_HasFreeSlot r \<and> sr_QueueLength r = 0"

text \<open>One response: it is counted, and picked if it is the first eligible one.\<close>

lemma collect_step:
  "\<exists>out'. collect a (out, k) = (out', k\<lparr>co_resultCount := co_resultCount k + 1, co_fileCount := co_fileCount k + word_of_nat (length (sr_Files a)),
     co_firstResult := (if co_firstResult k = None \<and> eligible a then Some a else co_firstResult k),
     co_firstFile := (if co_firstResult k = None \<and> eligible a then Some (hd (sr_Files a)) else co_firstFile k)\<rparr>)"
  by (auto simp: collect_def Let_def eligible_def hd_conv_nth)

lemma collect_all:
  "snd (fold collect rs (out, k)) = \<lparr>co_resultCount = co_resultCount k + word_of_nat (length rs),
     co_fileCount = co_fileCount k + word_of_nat (sum_list (map (\<lambda>r. length (sr_Files r)) rs)),
     co_firstResult = (case co_firstResult k of None \<Rightarrow> find eligible rs | Some r \<Rightarrow> Some r),
     co_firstFile = (case (co_firstResult k, find eligible rs) of (None, Some r) \<Rightarrow> Some (hd (sr_Files r)) | _ \<Rightarrow> co_firstFile k)\<rparr>"
proof (induction rs arbitrary: out k)
  case Nil
  then show ?case by (cases "co_firstResult k") simp_all
next
  case (Cons a rs)
  obtain out' where "collect a (out, k) = (out', k\<lparr>co_resultCount := co_resultCount k + 1,
     co_fileCount := co_fileCount k + word_of_nat (length (sr_Files a)),
     co_firstResult := (if co_firstResult k = None \<and> eligible a then Some a else co_firstResult k),
     co_firstFile := (if co_firstResult k = None \<and> eligible a then Some (hd (sr_Files a)) else co_firstFile k)\<rparr>)"
    using collect_step by blast
  then show ?case by (cases "co_firstResult k"; cases "find eligible rs") (simp_all add: Cons.IH add_ac)
qed

text \<open>
  The program downloads the first file of the first response that has files, a free slot and no queue, and nothing when there is no
  such response or \<^verbatim>\<open>-download\<close> is not given. Its result is then that of the download. The counts it keeps are the number of
  responses and of their files.
\<close>

theorem downloads_first_eligible:
  assumes "fl_search fl \<noteq> ''''" "Search (fl_search fl) (pe_others env 2 c) = Inr (Inr p, c1)" "pe_results env p c1 = (rs, c2)"
  shows "co_resultCount (snd (collect_results rs)) = word_of_nat (length rs) \<and>
     co_fileCount (snd (collect_results rs)) = word_of_nat (sum_list (map (\<lambda>r. length (sr_Files r)) rs)) \<and>
     snd (poc_search env fl c) = (case find eligible rs of
       Some r \<Rightarrow> if fl_download fl
         then (let (out, e, c3) = downloadFile env (sr_Username r) (hd (sr_Files r)) (fl_out fl) (pe_others env 3 c2)
               in Returned (map_option (WrapError ''download'') e, c3))
         else Returned (None, c2)
     | None \<Rightarrow> Returned (None, c2))"
proof -
  obtain found k where k: "collect_results rs = (found, k)" by fastforce
  have sel: "k = \<lparr>co_resultCount = word_of_nat (length rs), co_fileCount = word_of_nat (sum_list (map (\<lambda>r. length (sr_Files r)) rs)),
      co_firstResult = find eligible rs, co_firstFile = map_option (\<lambda>r. hd (sr_Files r)) (find eligible rs)\<rparr>"
    using collect_all [of rs] k by (cases "find eligible rs") (simp_all add: collect_results_def prod_eq_iff)
  have "snd (poc_search env fl c) = (case find eligible rs of
       Some r \<Rightarrow> if fl_download fl
         then (let (out, e, c3) = downloadFile env (sr_Username r) (hd (sr_Files r)) (fl_out fl) (pe_others env 3 c2)
               in Returned (map_option (WrapError ''download'') e, c3))
         else Returned (None, c2)
     | None \<Rightarrow> Returned (None, c2))"
    using assms k [unfolded sel] by (cases "find eligible rs") (simp_all add: poc_search_def split: prod.split)
  then show ?thesis by (simp add: k sel)
qed

theorem downloads_first_eligible_witness:
  "\<exists>c1 out e c3. downloadFile demo_poc ''bob'' demo_file ''.'' c1 = (out, e, c3) \<and>
     snd (poc_search demo_poc (default_flags\<lparr>fl_search := ''bach'', fl_download := True\<rparr>) online_client) =
       Returned (map_option (WrapError ''download'') e, c3)"
proof -
  let ?fl = "default_flags\<lparr>fl_search := ''bach'', fl_download := True\<rparr>"
  have "case Search ''bach'' online_client of Inr (Inr p, c) \<Rightarrow> True | _ \<Rightarrow> False" by code_simp
  then obtain p c1 where "Search ''bach'' online_client = Inr (Inr p, c1)" by (auto split: sum.splits prod.splits)
  then have run: "Search (fl_search ?fl) (pe_others demo_poc 2 online_client) = Inr (Inr p, c1)" by (simp add: demo_poc_def)
  have "pe_results demo_poc p c1 = ([demo_response ''ann'' 3, demo_response ''bob'' 0], c1)" "fl_search ?fl \<noteq> ''''" by (simp_all add: demo_poc_def)
  from downloads_first_eligible [OF this(2) run this(1)]
  have "snd (poc_search demo_poc ?fl online_client) =
      (let (out, e, c3) = downloadFile demo_poc ''bob'' demo_file ''.'' c1 in Returned (map_option (WrapError ''download'') e, c3))"
    by (simp add: eligible_def demo_response_def default_flags_def demo_poc_def)
  then show ?thesis by (auto simp: Let_def split: prod.splits intro: prod_cases3)
qed

section \<open>How a download is reported\<close>

text \<open>The first report that ends the loop with an error, and the error.\<close>

definition failure_report :: "TransferProgress \<Rightarrow> bool" where
  "failure_report p \<longleftrightarrow> IsCompleted (tp_State p) \<and> tp_State p AND TransferStateSucceeded = 0"

lemma monitor_result:
  "fst (snd (monitor path ps c)) = map_option (\<lambda>p. if tp_State p AND TransferStateCancelled \<noteq> 0 then ErrorString ''transfer cancelled''
     else wrap_nilable ''transfer failed'' (tp_Error p)) (find failure_report (map fst ps))"
  by (induction path ps c rule: monitor.induct) (auto simp: failure_report_def split: prod.splits)

lemma failed_state_flags:
  "failed_state err AND TransferStateSucceeded = 0"
  "failed_state err AND TransferStateCancelled \<noteq> 0 \<longleftrightarrow> errors_Is err Canceled"
  by (simp_all add: failed_state_def classifyTransferError_def Let_def flag_values)

lemma find_append: "find P (xs @ ys) = (case find P xs of None \<Rightarrow> find P ys | Some x \<Rightarrow> Some x)"
  by (induction xs) auto

text \<open>What a finished download leaves in its progress channel.\<close>

lemma finish_download_reports:
  assumes "mine token tr c" "finish_download now tr peerConn e (c, sink) = Inr (c', sink')"
  shows "ch_buf (t_progressCh (tr_of tr c')) =
     (let ch = t_progressCh (tr_of tr c)
      in if length (ch_buf ch) < ch_cap ch then ch_buf ch @ [progress_of (final_transfer now e (tr_of tr c))] else ch_buf ch)"
proof -
  let ?f = "case e of Some err \<Rightarrow> download_fail now err | None \<Rightarrow> download_complete now"
  let ?t = "final_transfer now e (tr_of tr c)"
  from finish_reports [OF assms(1), of now e] obtain c1 where c1: "report tr ?f c = Inr c1" "mine token tr c1"
    and t: "emitProgress ?t = Inr (tr_of tr c1)" by auto
  have op: "open_progress ?t" and ch: "t_progressCh ?t = t_progressCh (tr_of tr c)"
    using mineD(3) [OF assms(1)] by (cases e; simp add: final_transfer_def)+
  let ?c2 = "case peerConn of None \<Rightarrow> c1 | Some h \<Rightarrow> close_conn h c1"
  have c2: "mine token tr ?c2" "tr_of tr ?c2 = tr_of tr c1" using c1 by (cases peerConn; simp)+
  from cleanup_ended [OF c2(1)] obtain c3 ch' where c3: "download_cleanup tr ?c2 = Inr c3"
    "ch_buf ch' = ch_buf (t_progressCh (tr_of tr c1))" "tr_of tr c3 = (tr_of tr c1)\<lparr>t_progressCh := ch'\<rparr>" unfolding c2(2) by blast
  have "c' = c3" using assms(2) c1(1) c3(1) by (simp add: finish_download_def)
  moreover have "ch_buf (t_progressCh (tr_of tr c1)) = (let ch = t_progressCh (tr_of tr c)
      in if length (ch_buf ch) < ch_cap ch then ch_buf ch @ [progress_of ?t] else ch_buf ch)"
    using emitProgress_open [OF op] t ch by (auto simp: Let_def)
  ultimately show ?thesis using c3 by simp
qed

text \<open>
  C24: How the program learns that a download failed. The reports it has not read yet are waiting in the progress channel when the
  download ends, none of them of a completed state. If there is room in the channel, the loop over the reports returns an error exactly if
  the download failed: the download's error, or that it was cancelled. If the channel is full (100 reports), the report of the outcome
  is dropped like any other, and \<^verbatim>\<open>downloadFile\<close> returns no error although the download has failed.
\<close>

theorem outcome_report_dropped:
  assumes "mine token tr c" "finish_download now tr peerConn e (c, sink) = Inr (c', sink')"
    and "\<forall>p \<in> set (ch_buf (t_progressCh (tr_of tr c))). \<not> IsCompleted (tp_State p)"
  shows "fst (snd (monitor path (map (\<lambda>p. (p, c')) (ch_buf (t_progressCh (tr_of tr c')))) c')) =
     (if length (ch_buf (t_progressCh (tr_of tr c))) < ch_cap (t_progressCh (tr_of tr c))
      then map_option (\<lambda>err. if errors_Is err Canceled then ErrorString ''transfer cancelled'' else WrapError ''transfer failed'' err) e
      else None)"
proof -
  let ?ch = "t_progressCh (tr_of tr c)" and ?p = "progress_of (final_transfer now e (tr_of tr c))"
  have none: "find failure_report (ch_buf ?ch) = None" using assms(3) by (auto simp: find_None_iff failure_report_def)
  have "failure_report ?p \<longleftrightarrow> e \<noteq> None"
    using failed_state_terminal failed_state_flags(1)
    by (cases e) (auto simp: failure_report_def progress_of_def final_transfer_def flag_values)
  moreover have "tp_State ?p = failed_state err" "tp_Error ?p = Some err" if "e = Some err" for err
    using that by (simp_all add: progress_of_def final_transfer_def)
  ultimately have "map_option (\<lambda>p. if tp_State p AND TransferStateCancelled \<noteq> 0 then ErrorString ''transfer cancelled''
      else wrap_nilable ''transfer failed'' (tp_Error p)) (find failure_report [?p]) =
      map_option (\<lambda>err. if errors_Is err Canceled then ErrorString ''transfer cancelled'' else WrapError ''transfer failed'' err) e"
    using failed_state_flags(2) by (cases e) (simp_all add: wrap_nilable_def)
  with finish_download_reports [OF assms(1,2)] none show ?thesis
    by (simp add: monitor_result comp_def find_append Let_def)
qed

theorem outcome_report_dropped_witness:
  "\<exists>c c'. finish_download 5 0 None (Some DeadlineExceeded) (c, ()) = Inr (c', ()) \<and>
     fst (snd (monitor ''a.mp3'' (map (\<lambda>p. (p, c')) (ch_buf (t_progressCh (tr_of 0 c')))) c')) = None"
proof -
  let ?d = "snd (Download ''bob'' ''a.mp3'' 0 [] online_client)"
  let ?p = "\<lparr>tp_State = TransferStateInProgress, tp_BytesTransferred = 0, tp_FileSize = 0, tp_AverageSpeed = 0, tp_QueuePosition = 0, tp_Error = None\<rparr>"
  let ?full = "\<lambda>t. t\<lparr>t_progressCh := \<lparr>ch_buf = replicate 100 ?p, ch_cap = 100, ch_closed = False\<rparr>\<rparr>"
  have d: "mine 1 0 ?d" by (rule online_download)
  then have c: "mine 1 0 (upd_tr 0 ?full ?d)" and t: "tr_of 0 (upd_tr 0 ?full ?d) = ?full (tr_of 0 ?d)"
    using mine_upd [OF d, of ?full] tr_of_upd [OF d, of ?full] mineD(4) [OF d] by (simp_all add: identity_def open_progress_def ready_open_def)
  have "ended (\<lambda>_. []) 1 0 () (finish_download 5 0 None (Some DeadlineExceeded) (upd_tr 0 ?full ?d, ()))"
    by (rule finish_ended [OF c]) simp
  then obtain c' where c': "finish_download 5 0 None (Some DeadlineExceeded) (upd_tr 0 ?full ?d, ()) = Inr (c', ())"
    by (auto simp: ended_def)
  have "\<forall>p \<in> set (ch_buf (t_progressCh (tr_of 0 (upd_tr 0 ?full ?d)))). \<not> IsCompleted (tp_State p)"
    unfolding t by (simp add: IsCompleted_def state_flag_defs)
  from outcome_report_dropped [OF c c' this, of "''a.mp3''"]
  have "fst (snd (monitor ''a.mp3'' (map (\<lambda>p. (p, c')) (ch_buf (t_progressCh (tr_of 0 c')))) c')) = None" by (simp add: t)
  with c' show ?thesis by blast
qed

section \<open>Where the file goes\<close>

lemma last_split: "CHR ''/'' \<notin> set (last (split_on (CHR ''/'') p))"
  using split_on_elements [of "last (split_on (CHR ''/'') p)" "CHR ''/''" p] by simp

lemma Base_cases: "Base f = ''/'' \<or> Base f = ''.'' \<or> Base f = ''..'' \<or> ordinary (Base f)"
  using last_split by (auto simp: Base_def ordinary_def Let_def)

lemma Base_plain: "CHR ''/'' \<notin> set f \<Longrightarrow> f \<noteq> '''' \<Longrightarrow> Base f = f"
proof -
  assume f: "CHR ''/'' \<notin> set f" "f \<noteq> ''''"
  then have "dropWhile (\<lambda>x. x = CHR ''/'') (rev f) = rev f" using hd_in_set [of "rev f"] by (cases "rev f") auto
  with f show ?thesis by (simp add: Base_def split_on_plain)
qed

lemma Join_ordinary:
  assumes "ordinary n"
  shows "Join dir n = render_path (fst (clean_parts dir), snd (clean_parts dir) @ [n])"
proof (cases "dir = ''''")
  case True
  have "\<not> IsAbs n" using assms by (cases n) (auto simp: IsAbs_def ordinary_def)
  then have "clean_parts n = (False, [n])" using assms by (simp add: clean_parts_def ordinary_def split_on_plain)
  moreover have "clean_parts '''' = (False, [])" by (simp add: clean_parts_def IsAbs_def)
  ultimately show ?thesis using True assms by (simp add: Join_def Clean_def ordinary_def)
next
  case False
  then show ?thesis using assms clean_parts_append [OF False assms] by (simp add: Join_def Clean_def ordinary_def)
qed

lemma resolve_trivial:
  "\<forall>x \<in> set ns. x = '''' \<or> x = ''.'' \<Longrightarrow> resolve_dots r acc (cs @ ns) = resolve_dots r acc cs"
proof (induction r acc cs rule: resolve_dots.induct)
  case (1 r acc)
  then show ?case by (induction ns) auto
qed (auto split: list.splits)

lemma Join_trivial:
  assumes "dir \<noteq> ''''" "n = ''.'' \<or> n = ''/''"
  shows "Join dir n = Clean dir"
proof -
  have "IsAbs (dir @ ''/'' @ n) = IsAbs dir" using assms(1) by (cases dir) (simp_all add: IsAbs_def)
  moreover have "split_on (CHR ''/'') (dir @ ''/'' @ n) = split_on (CHR ''/'') dir @ (if n = ''.'' then [''.''] else ['''', ''''])"
    using split_on_append [of "CHR ''/''" dir n] assms(2) by auto
  ultimately show ?thesis using assms by (auto simp: Join_def Clean_def clean_parts_def resolve_trivial)
qed

text \<open>
  C25: A download cannot write outside the output directory. Whatever name the peer gives the file: where \<^verbatim>\<open>os.Create\<close> fails on
  directories, and the output directory and its parent are directories, \<^verbatim>\<open>downloadFile\<close> either stops with an error before it asks for the
  file, or the file it creates is an entry of the output directory itself. A name without a slash is taken as it is: the
  backslashes that separate the elements of a name in this network are not separators here, so the whole path becomes the file's name.
\<close>

theorem output_stays_in_directory:
  assumes "\<And>p h. pe_create env p = Inr h \<Longrightarrow> \<not> is_dir p" "is_dir (Clean dir)" "is_dir (Join dir ''..'')" "dir \<noteq> ''''"
  shows "(\<exists>err. downloadFile env user fl dir c = ([], Some (WrapError ''create file'' err), c)) \<or>
     (\<exists>n. ordinary n \<and> output_path dir (f_Filename fl) = render_path (fst (clean_parts dir), snd (clean_parts dir) @ [n]) \<and>
        (CHR ''/'' \<notin> set (f_Filename fl) \<longrightarrow> n = f_Filename fl))"
proof (cases "pe_create env (output_path dir (f_Filename fl))")
  case (Inl err)
  then show ?thesis by (simp add: downloadFile_def Let_def)
next
  case (Inr h)
  let ?n = "Base (f_Filename fl)"
  have "?n \<noteq> ''.''" "?n \<noteq> ''/''" "?n \<noteq> ''..''"
    using assms(1) [OF Inr] assms(2,3) Join_trivial [OF assms(4), of ?n] by (auto simp: output_path_def)
  with Base_cases have n: "ordinary ?n" by blast
  have "?n = f_Filename fl" if "CHR ''/'' \<notin> set (f_Filename fl)"
    using Base_plain [OF that] \<open>?n \<noteq> ''.''\<close> by (cases "f_Filename fl = ''''") (simp_all add: Base_def)
  with n Join_ordinary [OF n, of dir] show ?thesis unfolding output_path_def by blast
qed

theorem output_stays_in_directory_witness:
  "\<exists>n. ordinary n \<and> output_path ''.'' (''music'' @ CHR 0x5C # ''a.mp3'') = render_path (False, [n]) \<and> n = (''music'' @ CHR 0x5C # ''a.mp3'')"
proof -
  let ?dir = "\<lambda>p. p = ''.'' \<or> p = ''..''" and ?fl = "demo_file\<lparr>f_Filename := (''music'' @ CHR 0x5C # ''a.mp3'')\<rparr>"
  have dirs: "Clean ''.'' = ''.''" "Join ''.'' ''..'' = ''..''" "clean_parts ''.'' = (False, [])" by code_simp+
  have "\<not> ?dir p" if "pe_create demo_poc p = Inr h" for p h using that by (auto simp: demo_poc_def split: if_splits)
  from output_stays_in_directory [where env = demo_poc and is_dir = ?dir and dir = "''.''" and user = "''bob''" and fl = ?fl and c = online_client, OF this] dirs
  have "(\<exists>err. downloadFile demo_poc ''bob'' ?fl ''.'' online_client = ([], Some (WrapError ''create file'' err), online_client)) \<or>
     (\<exists>n. ordinary n \<and> output_path ''.'' (''music'' @ CHR 0x5C # ''a.mp3'') = render_path (False, [n]) \<and> n = (''music'' @ CHR 0x5C # ''a.mp3''))" by simp
  moreover have "(case downloadFile demo_poc ''bob'' ?fl ''.'' online_client of (out, e, c) \<Rightarrow> e) = None" by code_simp
  ultimately show ?thesis by auto
qed

section \<open>A login that fails\<close>

text \<open>
  C23: The program never reports a failed login. When the server is reached and \<^verbatim>\<open>Login\<close> returns an error, for instance because
  the server rejects the password, \<^verbatim>\<open>run\<close> returns that error, but the deferred \<^verbatim>\<open>Disconnect\<close> waits for a read loop that was never
  started. The last thing the program prints is that it is logging in; it never ends, and \<^verbatim>\<open>main\<close> never prints the error.
\<close>

theorem failed_login_hangs:
  assumes "poc_credentials env fl = (username, password)" "username \<noteq> ''''" "password \<noteq> ''''"
    and "Connect (pe_dial env) (New (Some (poc_options fl))) = (None, c1)" "Login (pe_md5 env) (pe_grow env) username password c1 = Inr (Some err, c2)"
    and "\<And>d. cl_doneCh (pe_waitLoop env d) = cl_doneCh d"
  shows "poc_main env fl = ([''Connecting to '' @ fl_server fl @ ''...'' @ nl, ''Connected!'' @ nl,
     ''Logging in as '' @ [CHR 0x27] @ username @ [CHR 0x27] @ ''...'' @ nl], Hung)"
proof -
  let ?c = "New (Some (poc_options fl))"
  have new: "\<not> cl_running ?c" "\<not> upr_started (cl_uploadProc ?c)" "search_ok (cl_searches ?c)"
    "\<not> sm_closed (cl_slots ?c) \<longrightarrow> \<not> ch_closed (sm_closedCh (cl_slots ?c))"
    using client_ok_New [of "Some (poc_options fl)"] by (simp_all add: client_ok_def) (simp_all add: New_defs newUploadProcessor_def NewSlotManager_def)
  have c1: "cl_connected c1" "\<not> cl_running c1" "cl_uploadProc c1 = cl_uploadProc ?c" "cl_searches c1 = cl_searches ?c" "cl_slots c1 = cl_slots ?c"
    "cl_doneCh c1 = Some (make_chan 0)" "cl_conn c1 \<noteq> None"
    using assms(4) new(1) by (auto simp: Connect_def split: if_splits sum.splits)
  have "same_session c1 c2" using Login_cases [OF assms(5)] by blast
  then have "Disconnect (pe_waitProc env) (pe_waitLoop env) c2 = None"
    using c1 new assms(6) by (intro Disconnect_unstarted) (simp_all add: same_session_def)
  moreover have "poc_session env fl username password c1 = ([''Connected!'' @ nl, ''Logging in as '' @ [CHR 0x27] @ username @ [CHR 0x27] @ ''...'' @ nl],
      Returned (Some (WrapError ''login'' err), c2))"
    using assms(5) by (simp add: poc_session_def)
  ultimately have "poc_run env fl = ([''Connecting to '' @ fl_server fl @ ''...'' @ nl, ''Connected!'' @ nl,
      ''Logging in as '' @ [CHR 0x27] @ username @ [CHR 0x27] @ ''...'' @ nl], Hung)"
    using assms(1-4) by (simp add: poc_run_def on_return_def also_printed_def disconnect_exit_def poc_options_def)
  then show ?thesis by (simp add: poc_main_def)
qed

theorem failed_login_hangs_witness:
  "snd (poc_main demo_poc (default_flags\<lparr>fl_user := ''me'', fl_pass := ''pw''\<rparr>)) = Hung"
proof -
  let ?fl = "default_flags\<lparr>fl_user := ''me'', fl_pass := ''pw''\<rparr>"
  let ?c1 = "snd (Connect (pe_dial demo_poc) (New (Some (poc_options ?fl))))"
  have "case Login (pe_md5 demo_poc) (pe_grow demo_poc) ''me'' ''pw'' ?c1 of Inr (Some e, c) \<Rightarrow> True | _ \<Rightarrow> False" by code_simp
  then obtain err c2 where login: "Login (pe_md5 demo_poc) (pe_grow demo_poc) ''me'' ''pw'' ?c1 = Inr (Some err, c2)"
    by (auto split: sum.splits prod.splits option.splits)
  have "poc_credentials demo_poc ?fl = (''me'', ''pw'')" by (simp add: poc_credentials_def)
  moreover have "Connect (pe_dial demo_poc) (New (Some (poc_options ?fl))) = (None, ?c1)" by (simp add: Connect_def demo_poc_def)
  moreover have "cl_doneCh (pe_waitLoop demo_poc d) = cl_doneCh d" for d by (simp add: demo_poc_def)
  ultimately show ?thesis using failed_login_hangs [OF _ _ _ _ login] by simp
qed

text \<open>The port is cut to 32 bits: flag parsing accepts any 64-bit number, and a larger one listens somewhere else.\<close>

lemma port_wraps: "opt_ListenPort (poc_options (fl\<lparr>fl_port := 2 ^ 32 + ucast p\<rparr>)) = p"
  by (simp add: poc_options_def) (transfer, simp add: take_bit_eq_mod)

end
