(* ===== verification/Spec2Isabelle.thy ===== *)
theory Spec2Isabelle
  imports Codes UploadQueue Slots Searches Uploads Downloads PeerLoop Session Negotiation System Poc
begin

text \<open>
  A verification development for gosoulseek, a client library for the Soulseek file-sharing network written in Go.

  \<^bold>\<open>The program.\<close> A client keeps one connection to a central server and any number of connections to other users (peers).
  The server connection carries the login, the peers' addresses, requests to connect to a peer, and searches. Peers send
  search responses, ask for uploads, and negotiate transfers over message connections; the bytes of a file travel over a
  separate transfer connection. Everything on the wire is a little-endian encoding in a length-prefixed frame, except the
  transfer connections, which are raw after a handshake. Every downloaded or uploaded file is a \<^verbatim>\<open>Transfer\<close>, indexed by the
  transfer registry; downloads run in a goroutine of their own, the messages of a peer are served by a loop per connection,
  the messages of the server by one loop that hands them to a router of handlers.

  \<^bold>\<open>Conventions.\<close> Machine integers are words of their width and signed ones are read with \<^verbatim>\<open>sint\<close>, so the model wraps
  where Go does. \<^verbatim>\<open>error\<close> is the datatype \<open>go_error\<close> with Go's wrapping, and \<open>go_panic\<close> a panic of the runtime; a function that can
  panic returns \<open>go_panic + 'a\<close>, one that can return an error \<open>go_error + 'a\<close> or a \<open>go_error option\<close>. Structures behind
  pointers that the code shares (transfers, channels, user slots, connections) are cells of an explicit heap, a list or map indexed by
  references. A connection is what the other side sent so far, in the segments in which it arrives, the
  error or end of file after them, what was written, and how much the socket still takes. A goroutine that is started is
  recorded in the client's list of goroutines. A \<^verbatim>\<open>select\<close> that can go several ways is the list of its possible outcomes or an
  argument that says which event came; an operation under a mutex is one step. Times are integers in nanoseconds that the
  operations take as arguments, \<open>float64\<close> is rational arithmetic, without rounding.

  \<^bold>\<open>The theories.\<close>

  \<^item> \<^theory_text>\<open>GoPrelude\<close>, \<^theory_text>\<open>Errors\<close>, \<^theory_text>\<open>GoRuntime\<close>, \<^theory_text>\<open>Paths\<close>: words and bytes, \<^verbatim>\<open>binary.LittleEndian\<close>, decimal numbers; errors with
    \<^verbatim>\<open>errors.Is\<close> and \<^verbatim>\<open>errors.As\<close> and the error types of \<^verbatim>\<open>client/transfer_errors.go\<close>; maps, channels and contexts; the functions of
    \<^verbatim>\<open>strings\<close> and \<^verbatim>\<open>path/filepath\<close> the program calls.
  \<^item> \<^theory_text>\<open>Codes\<close>, \<^theory_text>\<open>Protocol\<close>, \<^theory_text>\<open>Codec\<close>: \<^verbatim>\<open>protocol/codes.go\<close>, \<^verbatim>\<open>reader.go\<close> and \<^verbatim>\<open>writer.go\<close> as programs of the state
    monad over the sticky error, and the locale \<open>codec\<close>: an encoder and a decoder that agree. Its interpretations on the
    primitives, on file attributes and on files carry the round trips of all messages.
  \<^item> \<^theory_text>\<open>PeerMessages\<close>, \<^theory_text>\<open>SearchMessages\<close>, \<^theory_text>\<open>ServerMessages\<close>: the encoders and decoders of \<^verbatim>\<open>messages/peer\<close> and
    \<^verbatim>\<open>messages/server\<close>, and \<^verbatim>\<open>protocol/compress.go\<close> over zlib. The locale \<open>peer_message\<close> states what every peer message promises
    (round trip, truncated messages are rejected, the code decides the type) and is interpreted on all seven.
  \<^item> \<^theory_text>\<open>Connection\<close>, \<^theory_text>\<open>MessageLoop\<close>: \<^verbatim>\<open>connection/connection.go\<close> over the buffering of \<^verbatim>\<open>bufio\<close>; reading refines the framing of a
    byte stream however the network cuts it up. The locale \<open>frame_loop\<close> is the pattern of a loop that reads frames until one
    answers; \<^theory_text>\<open>Negotiation\<close> interprets it on the two loops that wait for a \<^verbatim>\<open>TransferResponse\<close> and shows that they agree.
  \<^item> \<^theory_text>\<open>TransferStates\<close>, \<^theory_text>\<open>Transfers\<close>, \<^theory_text>\<open>Registry\<close>, \<^theory_text>\<open>Outcomes\<close>: \<^verbatim>\<open>client/transfer_state.go\<close>, \<^verbatim>\<open>transfer.go\<close>,
    \<^verbatim>\<open>transfer_registry.go\<close>, and how a transfer fails or completes. The registry's indexes stay consistent in every reachable
    state and satisfy the locale \<open>transfer_index\<close>.
  \<^item> \<^theory_text>\<open>UploadQueue\<close>, \<^theory_text>\<open>Slots\<close>, \<^theory_text>\<open>FileShare\<close>, \<^theory_text>\<open>Router\<close>, \<^theory_text>\<open>Searches\<close>: \<^verbatim>\<open>client/queue.go\<close>, \<^verbatim>\<open>slots.go\<close>, \<^verbatim>\<open>fileshare.go\<close>, \<^verbatim>\<open>router.go\<close>
    and the registry of \<^verbatim>\<open>search.go\<close>. Each has an abstract contract: the locales \<open>upload_queue\<close> (a list), \<open>semaphore\<close> (a counter with
    a limit), \<open>file_index\<close>, \<open>dispatcher\<close> (handlers by code, refined by slices that share their arrays). Slots are also a
    system of interleaved threads, and the limits are invariants of its reachable states.
  \<^item> \<^theory_text>\<open>ClientState\<close>, \<^theory_text>\<open>Peers\<close>: the \<^verbatim>\<open>Client\<close> structure and its options (\<^verbatim>\<open>client.go\<close>, \<^verbatim>\<open>options.go\<close>); how connections come about
    (\<^verbatim>\<open>connmanager.go\<close>, \<^verbatim>\<open>transfer_conn.go\<close>, \<^verbatim>\<open>listener.go\<close>, \<^verbatim>\<open>peer.go\<close>).
  \<^item> \<^theory_text>\<open>Streaming\<close>, \<^theory_text>\<open>Uploads\<close>, \<^theory_text>\<open>Downloads\<close>: \<^verbatim>\<open>transferData\<close> and \<^verbatim>\<open>streamFile\<close>; requests of peers and the upload side
    (\<^verbatim>\<open>upload_request.go\<close>, \<^verbatim>\<open>upload.go\<close>); the download side (\<^verbatim>\<open>download.go\<close>, \<^verbatim>\<open>download_options.go\<close>).
  \<^item> \<^theory_text>\<open>PeerLoop\<close>, \<^theory_text>\<open>Session\<close>: the loop that serves a peer; connecting, logging in, the server's read loop, searching and
    disconnecting (\<^verbatim>\<open>client.go\<close>).
  \<^item> \<^theory_text>\<open>System\<close>: the client as a whole. \<open>client_step\<close> has a rule for every operation of its goroutines, its peers, the server
    and the application, \<open>client_reach\<close> are the states they lead to in any order, and \<open>beside\<close> is what happens beside a download while
    it waits. The invariants of the components hold together in every reachable state.
  \<^item> \<^theory_text>\<open>Poc\<close>: the command-line program \<^verbatim>\<open>cmd/poc/main.go\<close> with all it prints, as a client of the theories above.
  \<^item> This theory: a file through the upload of one client and the download of another, what one client makes of another's download
    request, and a search from its request to its results.

  \<^bold>\<open>What is shown.\<close> Data: messages survive encoding, framing and any segmentation, truncated and foreign messages are rejected,
  and a file arrives unchanged, also when resumed. State: the registry, the queue, the slots, the router and the file index meet
  their abstract contracts in every reachable state. Safety of the loops: no sequence of messages of a peer panics the
  client or changes a transfer with another peer, every download ends in one terminal state and is removed, whatever the
  rest of the client does meanwhile, no reachable state of the client makes a handler, a tick of the upload processor or the
  end of a download panic, the read loop of the session announces its end, and the program writes no file outside its output directory. Where the code does not do what it means to, a theorem says so: a second
  session panics, disconnecting before the login hangs, accepted uploads are never started, a search that is ended
  while the client disconnects closes its channel twice, the clean-up of idle slots lets a user have two uploads at once, a finished download leaves its closed
  connection in the cache, the router can skip or repeat a handler, a client ignores the download requests its own kind sends, the
  report of a download's outcome is dropped when its channel is full, the program hangs after a rejected login, and a few more.

  \<^bold>\<open>Termination and fuel.\<close> No definition takes fuel. Loops over data or over a connection's remaining bytes are total
  functions whose measure is what is left to read (\<open>receive_loop\<close>, \<open>send_loop\<close>, \<open>waitForResponse\<close>, \<open>read_transfer_response\<close>,
  \<open>readPeerMessagesUntilReady\<close>, \<open>run_handlers\<close>). The two service loops, \<open>handleIncomingPeerMessages\<close> and \<open>runReadLoop\<close>, are
  partial functions with \<open>None\<close> for a loop that does not return, and it is proved that they return on every
  finite input. What the environment does (answers of the server, cancellation, timeouts, connections that arrive) is an
  argument of the operation that waits for it.

  \<^bold>\<open>Parameters.\<close> MD5, zlib, JSON, lower-casing, dialling, the file system (a tree of entries, with errors), opening and creating
  files, the process environment, signals and the growth of slices are arguments; what the properties need of them are their hypotheses.

  \<^bold>\<open>Not modelled.\<close> Deadlines and addresses of \<^verbatim>\<open>connection.go\<close> (calls of the operating system; a deadline shows as
  the error a read returns), the interfaces in \<^verbatim>\<open>messages.go\<close> of both message
  packages, log output, the parsing of command-line flags and the deferred calls of a program that
  panics, the exhaustion of memory by large length fields, and interleavings inside an operation that holds a lock.
\<close>

section \<open>Two clients\<close>

text \<open>
  C1: a file goes from one client to another unchanged. When the uploader's \<^verbatim>\<open>streamFile\<close> is sent the resume offset of the
  download, it succeeds, and whatever way the network cuts up the bytes it wrote, the downloader's \<^verbatim>\<open>transferData\<close> over
  them, resuming after the first part of the file, sends that very offset, succeeds, has exactly the file's contents
  in its writer at the end, leaves nothing on the connection, and both sides have counted the whole size.\<close>

theorem transfer_end_to_end:
  fixes offset :: i64
  assumes "concat (c_in conn) = le_bytes 8 offset" "c_room conn = None" "c_out conn = []" "open_progress t" "\<forall>i. ctxu i = None"
    and "t_sharedFile t = Some sf" "os_Open (sh_LocalPath sf) = Inr fil" "\<forall>k>0. of_Seek fil k = Inr (rdr k)" "rdr 0 = of_start fil"
    and "\<forall>k. plain_file (rdr k) \<and> file_data (rdr k) = drop k content"
    and "sint (t_Size t) = int (length content)" "0 \<le> sint offset" "sint offset < sint (t_Size t)"
    and "\<forall>i. ctxd i = None"
  shows "\<exists>conn' t'. streamFile os_Open ctxu nowu conn t = Inr (None, conn', t') \<and> t_Transferred t' = t_Size t \<and>
     (\<forall>st. c_werr (rc_conn st) = None \<and> c_room (rc_conn st) = None \<and> c_out (rc_conn st) = [] \<and> open_progress (rc_transfer st) \<and>
           t_Size (rc_transfer st) = t_Size t \<and> t_StartOffset (rc_transfer st) = offset \<and>
           rc_sink st = take (nat (sint offset)) content \<and> concat (c_in (rc_conn st)) = c_out conn'
        \<longrightarrow> (\<exists>st'. transferData ctxd nowd (\<lambda>d w. (None, w @ d)) st = Inr (None, st') \<and> rc_sink st' = content \<and>
              c_out (rc_conn st') = le_bytes 8 offset \<and> concat (c_in (rc_conn st')) = [] \<and> t_Transferred (rc_transfer st') = t_Size t))"
proof -
  let ?o = "nat (sint offset)"
  let ?T = "nat (sint (t_Size t) - sint offset)"
  have T: "?T = length (drop ?o content)" "0 < ?T" using assms(11-13) by auto
  have "concat (c_in conn) = le_bytes 8 offset @ []" using assms(1) by simp
  from streamFile_correct [where content = content and rdr = rdr and now = nowu and os_Open = os_Open and ctx = ctxu, OF this assms(2,4-10)] assms(3,11-13)
  obtain conn' t' where up: "streamFile os_Open ctxu nowu conn t = Inr (None, conn', t')" "c_out conn' = drop ?o content" "t_Transferred t' = t_Size t"
    by auto
  have "\<exists>st'. transferData ctxd nowd (\<lambda>d w. (None, w @ d)) st = Inr (None, st') \<and> rc_sink st' = content \<and>
        c_out (rc_conn st') = le_bytes 8 offset \<and> concat (c_in (rc_conn st')) = [] \<and> t_Transferred (rc_transfer st') = t_Size t"
    if st: "c_werr (rc_conn st) = None" "c_room (rc_conn st) = None" "c_out (rc_conn st) = []" "open_progress (rc_transfer st)"
       "t_Size (rc_transfer st) = t_Size t" "t_StartOffset (rc_transfer st) = offset" "rc_sink st = take ?o content"
       "concat (c_in (rc_conn st)) = c_out conn'" for st
  proof -
    have "0 \<le> sint (t_StartOffset (rc_transfer st))" "sint (t_StartOffset (rc_transfer st)) \<le> sint (t_Size (rc_transfer st))"
      "?T = nat (sint (t_Size (rc_transfer st)) - sint (t_StartOffset (rc_transfer st)))" "drop ?o content = concat (c_in (rc_conn st))"
      using st up(2) assms(12,13) by simp_all
    from transferData_correct [OF st(1,2,4) assms(14) this, of nowd, folded T(1)] show ?thesis
      unfolding st up(2) T(1) using T(2) by (elim exE conjE) (simp add: T(1))
  qed
  then show ?thesis using up by blast
qed

definition demo_resume :: "byte list \<Rightarrow> byte list recv" where
  "demo_resume bs = \<lparr>rc_conn = NewConn [bs] EOF, rc_sink = [1],
     rc_transfer = (NewTransfer TransferDownload ''ann'' ''b.mp3'' 1)\<lparr>t_Size := 3, t_StartOffset := 1\<rparr>\<rparr>"

theorem transfer_end_to_end_witness:
  "\<exists>conn' t'. streamFile demo_open (\<lambda>i. None) (\<lambda>i. 5) (NewConn [le_bytes 8 (1 :: i64)] EOF) demo_upload = Inr (None, conn', t') \<and>
     (\<exists>st'. transferData (\<lambda>i. None) (\<lambda>i. 6) (\<lambda>d w. (None, w @ d)) (demo_resume (c_out conn')) = Inr (None, st') \<and> rc_sink st' = [1, 2, 3])"
proof -
  let ?conn = "NewConn [le_bytes 8 (1 :: i64)] EOF"
  have hyps: "concat (c_in ?conn) = le_bytes 8 (1 :: i64)" "c_room ?conn = None" "c_out ?conn = []"
    "sint (t_Size demo_upload) = int (length [1, 2, 3 :: byte])" "sint (1 :: i64) < sint (t_Size demo_upload)"
    by (simp_all add: NewConn_def demo_file)
  have st: "c_werr (rc_conn (demo_resume bs)) = None" "c_room (rc_conn (demo_resume bs)) = None" "c_out (rc_conn (demo_resume bs)) = []"
    "open_progress (rc_transfer (demo_resume bs))" "t_Size (rc_transfer (demo_resume bs)) = t_Size demo_upload"
    "t_StartOffset (rc_transfer (demo_resume bs)) = 1" "rc_sink (demo_resume bs) = take (nat (sint (1 :: i64))) [1, 2, 3]"
    "concat (c_in (rc_conn (demo_resume bs))) = bs" for bs
    by (simp_all add: demo_resume_def NewConn_def NewTransfer_def open_progress_def demo_file)
  note run = transfer_end_to_end [where content = "[1, 2, 3]" and rdr = demo_reader and os_Open = demo_open and ctxu = "\<lambda>i. None"
      and ctxd = "\<lambda>i. None" and nowu = "\<lambda>i. 5" and nowd = "\<lambda>i. 6" and t = demo_upload and conn = ?conn,
      OF hyps(1-3) demo_file(1) _ demo_file(3,6,4,5) demo_reader hyps(4) _ hyps(5)]
  have "\<forall>i :: nat. (None :: go_error option) = None" "0 \<le> sint (1 :: i64)" by simp_all
  from run [OF this(1,2,1)] st show ?thesis by blast
qed


lemma WriteMessage_none:
  assumes "working h c"
  shows "fst (with_conn (WriteMessage p) h c) = None"
proof -
  obtain e k where k: "WriteMessage p (cl_heap c ! h) = (e, k)" by fastforce
  from WriteMessage_sends [OF _ this] assms show ?thesis
    by (auto simp: with_conn_def k sends_def working_def take_room_def accepts_def)
qed

text \<open>
  C22: A client of this library does not answer the download requests of another one. What a download sends to its peer is a \<^verbatim>\<open>TransferRequest\<close> for a download. A
  client of the same library that serves the connection reads it, changes neither its transfers nor its upload queue and
  writes nothing back, whatever files it shares: \<^verbatim>\<open>handleTransferRequest\<close> only takes requests for uploads, and the
  \<^verbatim>\<open>QueueDownload\<close> message its upload side waits for is sent by no code.
\<close>

theorem own_download_requests_ignored:
  assumes "working h down" "c_out (cl_heap down ! h) = []" "string_ok (t_Filename (tr_of tr down))"
    and "download_sendTransferRequest tr h down = (e, down')"
    and "g < length (cl_heap up)" "concat (c_in (cl_heap up ! g)) = c_out (cl_heap down' ! h)"
  shows "e = None \<and> (\<exists>up'. handleIncomingPeerMessages decompress now 0 g username up = Some (Inr up') \<and>
     cl_transfers up' = cl_transfers up \<and> cl_queueMgr up' = cl_queueMgr up \<and> c_out (cl_heap up' ! g) = c_out (cl_heap up ! g))"
proof -
  let ?m = "\<lparr>treq_Direction = TransferDownload, treq_Token = t_Token (tr_of tr down), treq_Filename = t_Filename (tr_of tr down), treq_FileSize = 0\<rparr>"
  define p where "p = le_bytes 4 PeerTransferRequest @ TransferRequest_body ?m"
  have ok: "TransferRequest_ok ?m" using assms(3) by (simp add: TransferRequest_ok_def)
  have buf: "buffer_of (TransferRequest_Encode ?m) = NewWriter p Buffer_Write" using treq.payload [of ?m] by (simp add: p_def TransferRequest_Code_def)
  have dec: "DecodeTransferRequest p = Inr ?m" using treq.decode_encode [OF ok] by (simp add: buf)
  have code: "(from_le (take 4 p) :: u32) = PeerTransferRequest" and four: "4 \<le> length p" by (simp_all add: p_def)
  have small: "length p \<le> maxMessageSize"
    using assms(3) by (simp add: p_def TransferRequest_body_def TransferDownload_def TransferUpload_def string_ok_def maxStringLength_def maxMessageSize_def)
  have sent: "download_sendTransferRequest tr h down = with_conn (WriteMessage p) h down"
    by (simp add: download_sendTransferRequest_def send_checked_def buf)
  have "said p h down down'" using WriteMessage_working [OF assms(1), of p] assms(4) sent by simp
  then have out: "c_out (cl_heap down' ! h) = frame p @ []" using said_out [OF assms(1)] assms(2) by simp
  have none: "e = None" using assms(4) sent WriteMessage_none [OF assms(1), of p] by simp
  from ReadMessage_frame [of "cl_heap up ! g" p "[]"] assms(6) out small obtain k where
    k: "ReadMessage (cl_heap up ! g) = (Inr p, k)" "stream k = []" "k = (cl_heap up ! g)\<lparr>c_in := c_in k\<rparr>" by auto
  let ?up = "up\<lparr>cl_heap := (cl_heap up)[g := k]\<rparr>"
  have skip: "peer_message decompress (now 0) p username g ?up = Inr ?up"
    using four code dec by (simp add: peer_message_def Let_def handleTransferRequest_def TransferDownload_def TransferUpload_def wire_code)
  obtain x k' where x: "ReadMessage k = (x, k')" by fastforce
  have "length (stream k) = 0" using k(2) by (simp only: list.size)
  then have "\<nexists>q. x = Inr q" using ReadMessage_shrinks [of k _ k'] x by fastforce
  then obtain err where k': "ReadMessage k = (Inl err, k')" using x by (cases x) auto
  have "handleIncomingPeerMessages decompress now 0 g username up = Some (Inr (up\<lparr>cl_heap := (cl_heap up)[g := k']\<rparr>))"
    using assms(5) k(1) k' skip by (subst handleIncomingPeerMessages.simps) (simp add: with_conn_def, subst handleIncomingPeerMessages.simps, simp add: with_conn_def)
  moreover have "c_out k' = c_out k" "c_out k = c_out (cl_heap up ! g)"
    by (subst ReadMessage_fields [OF k'], simp, subst ReadMessage_fields [OF k(1)], simp)
  ultimately show ?thesis using none assms(5) by auto
qed

theorem own_download_requests_ignored_witness:
  "let down = (snd (Download ''bob'' ''a.mp3'' 0 [] online_client))\<lparr>cl_heap := [NewConn [] EOF]\<rparr>;
       sent = c_out (cl_heap (snd (download_sendTransferRequest 0 0 down)) ! 0)
   in \<exists>up'. handleIncomingPeerMessages Inr (\<lambda>_. 3) 0 0 ''ann'' (demo_client\<lparr>cl_heap := [NewConn [sent] EOF]\<rparr>) = Some (Inr up') \<and>
        cl_transfers up' = cl_transfers demo_client \<and> c_out (cl_heap up' ! 0) = []"
proof -
  define down where "down = (snd (Download ''bob'' ''a.mp3'' 0 [] online_client))\<lparr>cl_heap := [NewConn [] EOF]\<rparr>"
  define sent where "sent = c_out (cl_heap (snd (download_sendTransferRequest 0 0 down)) ! 0)"
  let ?up = "demo_client\<lparr>cl_heap := [NewConn [sent] EOF]\<rparr>"
  have conn: "working 0 down" "c_out (cl_heap down ! 0) = []" by (simp_all add: down_def working_def NewConn_def)
  have "t_Filename (tr_of 0 down) = ''a.mp3''" unfolding down_def by code_simp
  then have name: "string_ok (t_Filename (tr_of 0 down))" by simp
  have up: "0 < length (cl_heap ?up)"
    "concat (c_in (cl_heap ?up ! 0)) = c_out (cl_heap (snd (download_sendTransferRequest 0 0 down)) ! 0)"
    by (simp_all add: NewConn_def sent_def)
  from own_download_requests_ignored [OF conn name prod.collapse [symmetric] up, of Inr "\<lambda>_. 3" "''ann''"]
  obtain up' where "handleIncomingPeerMessages Inr (\<lambda>_. 3) 0 0 ''ann'' ?up = Some (Inr up')" "cl_transfers up' = cl_transfers demo_client"
      "c_out (cl_heap up' ! 0) = []" by (auto simp: NewConn_def)
  then show ?thesis unfolding Let_def down_def [symmetric] sent_def [symmetric] by blast
qed


section \<open>A search and its results\<close>

lemma handleSearchResponse_delivers:
  assumes "search_ok (cl_searches c)" "search_get token (cl_searches c) = Some p" "DecodeSearchResponse decompress payload = Inr resp"
    "sr_Token resp = token" "length (ch_buf (as_ch (srg_heap (cl_searches c) ! p))) < 1000"
  shows "\<exists>c'. handleSearchResponse decompress payload c = Inr c' \<and>
     ch_buf (as_ch (srg_heap (cl_searches c') ! p)) = ch_buf (as_ch (srg_heap (cl_searches c) ! p)) @ [resp]"
  using search_send_open [OF assms(1,2,4)] assms(2-5) by (auto simp: handleSearchResponse_def deliver_def)

lemma embedded_response:
  assumes "4 \<le> length payload" "(from_le (take 4 payload) :: u32) = PeerSearchResponse"
  shows "run_handlers decompress other [handler_embedded] (le_bytes 4 ServerEmbeddedMessage @ [b] @ payload) c = handleSearchResponse decompress payload c"
  using assms by (simp add: run_handlers.simps split: sum.splits)

text \<open>
  C5: A search gets its results. On a working connection, \<^verbatim>\<open>Search\<close> with a token not in use first registers the search, with nothing
  sent yet, then sends exactly one \<^verbatim>\<open>FileSearch\<close> message with that token, and keeps the client well-formed. In every state the
  client may come to from the registration on, also before the request is sent, as long as the search is
  registered and fewer than 1000 responses are waiting: a response with that token is appended to the channel \<^verbatim>\<open>Search\<close> returns,
  whether a peer sends it on its message connection or the server passes it on inside an embedded message.
\<close>

theorem search_end_to_end:
  assumes "client_reach c" "online k c" "cl_loggedIn c" "search_get (cl_searchToken c + 1) (cl_searches c) = None"
  shows "let token = cl_searchToken c + 1; request = le_bytes 4 ServerFileSearch @ le_bytes 4 token @ wire_string query
   in \<exists>p d c' k'. Search_begin query c = (Inr (token, p, request), d) \<and> cl_conn d = Some k \<and> search_get token (cl_searches d) = Some p \<and>
     Search_send token p request d = Inr (Inr p, c') \<and> Search query c = Inr (Inr p, c') \<and>
     cl_conn c' = Some k' \<and> c_out k' = c_out k @ frame request \<and> search_get token (cl_searches c') = Some p \<and> client_reach c' \<and> client_next\<^sup>*\<^sup>* d c' \<and>
     (\<forall>e decompress payload resp. client_next\<^sup>*\<^sup>* d e \<and> search_get token (cl_searches e) = Some p \<and>
        length (ch_buf (as_ch (srg_heap (cl_searches e) ! p))) < 1000 \<and>
        4 \<le> length payload \<and> (from_le (take 4 payload) :: u32) = PeerSearchResponse \<and>
        DecodeSearchResponse decompress payload = Inr resp \<and> sr_Token resp = token \<longrightarrow>
        (\<forall>now user h. \<exists>e'. peer_message decompress now payload user h e = Inr e' \<and>
           ch_buf (as_ch (srg_heap (cl_searches e') ! p)) = ch_buf (as_ch (srg_heap (cl_searches e) ! p)) @ [resp]) \<and>
        (\<forall>other b. \<exists>e'. run_handlers decompress other [handler_embedded] (le_bytes 4 ServerEmbeddedMessage @ [b] @ payload) e = Inr e' \<and>
           ch_buf (as_ch (srg_heap (cl_searches e') ! p)) = ch_buf (as_ch (srg_heap (cl_searches e) ! p)) @ [resp]))"
proof -
  let ?p = "length (srg_heap (cl_searches c))"
  define token where "token = cl_searchToken c + 1"
  define request where "request = le_bytes 4 ServerFileSearch @ le_bytes 4 token @ wire_string query"
  define r where "r = snd (new_search (cl_searches c))"
  define d where "d = c\<lparr>cl_searchToken := token, cl_searches := search_add token ?p r\<rparr>"
  have new: "new_search (cl_searches c) = (?p, r)" by (simp add: new_search_def r_def)
  have b: "Search_begin query c = (Inr (token, ?p, request), d)"
    using assms(3) new by (simp add: Search_begin_def Let_def wire_simps d_def token_def request_def)
  have on: "online k d" using assms(2) by (simp add: d_def online_def)
  from server_write_online [OF on, of request] obtain k' where
    k': "server_write request d = Inr (None, d\<lparr>cl_conn := Some k'\<rparr>)" "c_out k' = c_out k @ frame request" by blast
  define c' where "c' = start_goroutine (Go_searchCleanup token ?p) (d\<lparr>cl_conn := Some k'\<rparr>)"
  have sent: "Search_send token ?p request d = Inr (Inr ?p, c')" using k'(1) by (simp add: Search_send_def c'_def)
  have get: "search_get token (cl_searches d) = Some ?p" by (simp add: d_def search_get_def search_add_def)
  have c': "cl_conn c' = Some k'" "search_get token (cl_searches c') = Some ?p" using get by (simp_all add: c'_def start_goroutine_def)
  have d: "client_reach d" using b by (blast intro: client_reach.advance [OF assms(1)] client_next.step client_step.search)
  from search_owner_stays [OF d get] have "only_under token ?p (cl_searches d)" by blast
  then have next': "client_next d c'" by (rule client_next.step [OF client_step.search_sent [OF _ sent]])
  have "(\<exists>e'. peer_message decompress now payload user h e = Inr e' \<and>
         ch_buf (as_ch (srg_heap (cl_searches e') ! ?p)) = ch_buf (as_ch (srg_heap (cl_searches e) ! ?p)) @ [resp]) \<and>
      (\<exists>e'. run_handlers decompress other [handler_embedded] (le_bytes 4 ServerEmbeddedMessage @ [b] @ payload) e = Inr e' \<and>
         ch_buf (as_ch (srg_heap (cl_searches e') ! ?p)) = ch_buf (as_ch (srg_heap (cl_searches e) ! ?p)) @ [resp])"
    if e: "client_next\<^sup>*\<^sup>* d e" "search_get token (cl_searches e) = Some ?p" "length (ch_buf (as_ch (srg_heap (cl_searches e) ! ?p))) < 1000"
      and resp: "4 \<le> length payload" "(from_le (take 4 payload) :: u32) = PeerSearchResponse"
        "DecodeSearchResponse decompress payload = Inr resp" "sr_Token resp = token"
    for e decompress payload resp now user h other b
  proof -
    have "search_ok (cl_searches e)" using client_reach_inv [OF client_reach_later [OF e(1) d]] by (simp add: client_inv_def client_ok_def)
    from handleSearchResponse_delivers [OF this e(2) resp(3,4) e(3)] show ?thesis
      unfolding embedded_response [OF resp(1,2)] using resp(1,2) by (simp add: peer_message_def)
  qed
  moreover have "cl_conn d = Some k" "Search query c = Inr (Inr ?p, c')" using on b sent by (simp_all add: online_def Search_def)
  ultimately show ?thesis unfolding Let_def token_def [symmetric] request_def [symmetric]
    using b get sent c' k'(2) next' client_reach.advance [OF d next'] by blast
qed

theorem search_end_to_end_witness:
  "\<exists>p c' k'. Search ''bach'' online_client = Inr (Inr p, c') \<and> cl_conn c' = Some k' \<and>
     c_out k' = frame (le_bytes 4 ServerFileSearch @ le_bytes 4 (1 :: u32) @ wire_string ''bach'')"
proof -
  have "online (NewConn [] EOF) online_client" "cl_loggedIn online_client" "cl_searchToken online_client = 0" "c_out (NewConn [] EOF) = []"
    "search_get 1 (cl_searches online_client) = None"
    by (simp_all add: online_client_def online_def NewConn_def search_get_def newSearchRegistry_def) (simp add: New_defs)
  then show ?thesis using search_end_to_end [OF online_client_reach, of "NewConn [] EOF" "''bach''"] by (auto simp: Let_def)
qed

end
